(* ===== verification/Weenix_Prelude.thy ===== *)
theory Weenix_Prelude
  imports Main "HOL-Library.Monad_Syntax"
begin

text \<open>
  Shared vocabulary of the Weenix development: the conventions for C values, the error
  numbers of \<^verbatim>\<open>include/errno.h\<close>, the theorem collections of the
  component theories and the generic lemmas on lists, options and functions that several
  components use.

  Conventions. A C pointer is a natural number and the null pointer is 0, unless a component
  says otherwise. A function that can stop the kernel (a failed \<^verbatim>\<open>KASSERT\<close>,
  a call of \<^verbatim>\<open>panic\<close>, a dereferenced null pointer, an access outside an
  array) returns an \<^typ>\<open>'a option\<close>, and \<^term>\<open>None\<close> is that stop. An error that
  the C code reports is a value of the model too: the negative error number.
\<close>

section \<open>Error numbers\<close>

abbreviation (input) EPERM :: int where "EPERM \<equiv> 1"
abbreviation (input) ENOENT :: int where "ENOENT \<equiv> 2"
abbreviation (input) EINTR :: int where "EINTR \<equiv> 4"
abbreviation (input) EBADF :: int where "EBADF \<equiv> 9"
abbreviation (input) ECHILD :: int where "ECHILD \<equiv> 10"
abbreviation (input) ENOMEM :: int where "ENOMEM \<equiv> 12"
abbreviation (input) EBUSY :: int where "EBUSY \<equiv> 16"
abbreviation (input) EEXIST :: int where "EEXIST \<equiv> 17"
abbreviation (input) ENOTDIR :: int where "ENOTDIR \<equiv> 20"
abbreviation (input) EISDIR :: int where "EISDIR \<equiv> 21"
abbreviation (input) EINVAL :: int where "EINVAL \<equiv> 22"
abbreviation (input) EMFILE :: int where "EMFILE \<equiv> 24"
abbreviation (input) ENOSPC :: int where "ENOSPC \<equiv> 28"
abbreviation (input) ENAMETOOLONG :: int where "ENAMETOOLONG \<equiv> 36"
abbreviation (input) ENOTEMPTY :: int where "ENOTEMPTY \<equiv> 39"
abbreviation (input) ENOTSUP :: int where "ENOTSUP \<equiv> 95"

section \<open>Theorem collections\<close>

named_theorems klist_defs "definitions of the list macros"
named_theorems sched_defs "definitions of the scheduler's operations"

section \<open>Assertions\<close>

text \<open>A \<^verbatim>\<open>KASSERT\<close>: it lets the computation go on or stops the kernel.\<close>

definition kassert :: "bool \<Rightarrow> unit option" where
  "kassert b = (if b then Some () else None)"

lemma kassert_simps [simp]:
  "kassert True = Some ()"
  "kassert False = None"
  "kassert b = Some u \<longleftrightarrow> b"
  "kassert b = None \<longleftrightarrow> \<not> b"
  by (auto simp: kassert_def)

lemma kassert_bind [simp]:
  "(kassert b \<bind> f) = Some x \<longleftrightarrow> b \<and> f () = Some x"
  "(kassert b \<bind> f) = None \<longleftrightarrow> (b \<longrightarrow> f () = None)"
  by (auto simp: kassert_def)

section \<open>Lists and functions\<close>

lemma distinct_snoc [simp]: "distinct (xs @ [x]) \<longleftrightarrow> distinct xs \<and> x \<notin> set xs"
  by auto

lemma remove1_middle:
  "distinct (xs @ y # ys) \<Longrightarrow> remove1 y (xs @ y # ys) = xs @ ys"
  by (induction xs) auto

lemma set_remove1_distinct: "distinct xs \<Longrightarrow> set (remove1 x xs) = set xs - {x}"
  by (simp add: set_remove1_eq)

lemma length_remove1_mem: "x \<in> set xs \<Longrightarrow> Suc (length (remove1 x xs)) = length xs"
  by (induction xs) auto

lemma last_in_butlast_distinct:
  assumes "distinct xs" and "xs \<noteq> []"
  shows "set (butlast xs) = set xs - {last xs}"
proof -
  from assms(2) have "xs = butlast xs @ [last xs]" by simp
  with assms(1) show ?thesis by (metis distinct_snoc Diff_insert_absorb set_append Un_insert_right
        list.simps(15) empty_set Un_empty_right)
qed


text \<open>A loop whose body may stop the kernel, over a list of items.\<close>

fun foldM :: "('a \<Rightarrow> 's \<Rightarrow> 's option) \<Rightarrow> 'a list \<Rightarrow> 's \<Rightarrow> 's option" where
  "foldM f [] s = Some s"
| "foldM f (x # xs) s = f x s \<bind> foldM f xs"

lemma foldM_append: "foldM f (xs @ ys) s = foldM f xs s \<bind> foldM f ys"
  by (induction xs arbitrary: s) (auto split: Option.bind_split)

lemma foldM_total: "(\<And>x s. f x s = Some (g x s)) \<Longrightarrow> foldM f xs s = Some (fold g xs s)"
  by (induction xs arbitrary: s) auto

lemma foldM_inv:
  assumes "foldM f xs s = Some t" and "P s"
    and "\<And>x s t. x \<in> set xs \<Longrightarrow> P s \<Longrightarrow> f x s = Some t \<Longrightarrow> P t"
  shows "P t"
  using assms
proof (induction xs arbitrary: s)
  case Nil
  then show ?case by simp
next
  case (Cons x xs)
  from Cons.prems(1) obtain u where u: "f x s = Some u" "foldM f xs u = Some t"
    by (auto split: Option.bind_splits)
  from Cons.prems(2,3) u(1) have "P u" by (meson list.set_intros(1))
  then show ?case using Cons.IH [OF u(2)] Cons.prems(3) by (meson list.set_intros(2))
qed


lemma Some_exD: "\<exists>y. f = Some y \<and> P y \<Longrightarrow> f = Some x \<Longrightarrow> P x"
  by auto

lemma Some_pair_exD: "\<exists>y. f = Some (a, y) \<and> P y \<Longrightarrow> f = Some (b, x) \<Longrightarrow> a = b \<and> P x"
  by auto


text \<open>A 32-bit signed integer of the kernel, wrapped as the machine does.\<close>

definition wrap32 :: "int \<Rightarrow> int" where
  "wrap32 x = (x + 2 ^ 31) mod 2 ^ 32 - 2 ^ 31"

lemma wrap32_id: "- (2 ^ 31) \<le> x \<Longrightarrow> x < 2 ^ 31 \<Longrightarrow> wrap32 x = x"
  by (simp add: wrap32_def)

lemma wrap32_range: "- (2 ^ 31) \<le> wrap32 x" "wrap32 x < 2 ^ 31"
  using pos_mod_sign [of "2 ^ 32" "x + 2 ^ 31"] pos_mod_bound [of "2 ^ 32" "x + 2 ^ 31"]
  by (simp_all add: wrap32_def)


text \<open>The first position at which a loop over an array stops.\<close>

fun find_idx :: "('a \<Rightarrow> bool) \<Rightarrow> 'a list \<Rightarrow> nat option" where
  "find_idx P [] = None"
| "find_idx P (x # xs) = (if P x then Some 0 else map_option Suc (find_idx P xs))"

lemma find_idx_None: "find_idx P xs = None \<longleftrightarrow> (\<forall>x\<in>set xs. \<not> P x)"
  by (induction xs) auto

lemma find_idx_Some:
  "find_idx P xs = Some i \<longleftrightarrow> i < length xs \<and> P (xs ! i) \<and> (\<forall>j<i. \<not> P (xs ! j))"
proof (induction xs arbitrary: i)
  case Nil
  then show ?case by simp
next
  case (Cons x xs)
  show ?case
  proof (cases i)
    case 0
    then show ?thesis by (cases "find_idx P xs") auto
  next
    case (Suc k)
    have "(\<forall>j<Suc k. \<not> P ((x # xs) ! j)) \<longleftrightarrow> \<not> P x \<and> (\<forall>j<k. \<not> P (xs ! j))"
      by (simp add: less_Suc_eq_0_disj) (metis nth_Cons_0 nth_Cons_Suc)
    then show ?thesis using Suc Cons by auto
  qed
qed


lemma find_unique:
  assumes "x \<in> set xs" and "P x" and "\<forall>y\<in>set xs. P y \<longrightarrow> y = x"
  shows "List.find P xs = Some x"
proof (cases "List.find P xs")
  case None
  then show ?thesis using assms(1,2) by (auto simp: find_None_iff)
next
  case (Some y)
  then have "y \<in> set xs" and "P y" unfolding find_Some_iff by auto
  then show ?thesis using Some assms(3) by blast
qed

end
