(* ===== verification/Context.thy ===== *)
theory Context
  imports Weenix_Prelude "HOL-Library.Word"
begin

text \<open>
  Machine contexts (\<^verbatim>\<open>kernel/proc/context.c\<close>): the record saved for a thread that is
  not running, the registers of the processor and the stack memory, and the three operations that
  set a context up, start it and switch between two of them.  Code addresses are symbolic: the
  label inside \<^verbatim>\<open>context_switch\<close>, the entry of \<^verbatim>\<open>__context_initial_func\<close>, and any other
  address.  Memory is a map from the address of a 4-byte cell to its value.
\<close>

datatype code_ptr = SwitchLabel | InitialFunc | Code nat

record context_t =
  c_eip :: code_ptr
  c_esp :: "32 word"
  c_ebp :: "32 word"
  c_pdptr :: nat
  c_kstack :: "32 word"
  c_kstacksz :: "32 word"

record cpu =
  eip :: code_ptr
  esp :: "32 word"
  ebp :: "32 word"
  eflags :: "32 word"
  cr3 :: nat
  tss_esp0 :: "32 word"
  stack_mem :: "32 word \<Rightarrow> 32 word"

definition PAGE_ALIGNED :: "32 word \<Rightarrow> bool" where
  "PAGE_ALIGNED x \<longleftrightarrow> x mod 4096 = 0"

definition push :: "32 word \<Rightarrow> cpu \<Rightarrow> cpu" where
  "push v c = c\<lparr>esp := esp c - 4, stack_mem := (stack_mem c)(esp c - 4 := v)\<rparr>"

definition pop :: "cpu \<Rightarrow> 32 word \<times> cpu" where
  "pop c = (stack_mem c (esp c), c\<lparr>esp := esp c + 4\<rparr>)"

definition context_setup ::
  "nat \<Rightarrow> 32 word \<Rightarrow> 32 word \<Rightarrow> 32 word \<Rightarrow> 32 word \<Rightarrow> nat \<Rightarrow> (32 word \<Rightarrow> 32 word) \<Rightarrow>
    (context_t \<times> (32 word \<Rightarrow> 32 word)) option" where
  "context_setup func arg1 arg2 kstack kstacksz pdptr m = do {
     kassert (pdptr \<noteq> 0);
     kassert (PAGE_ALIGNED kstack);
     let sp1 = kstack + kstacksz - 4;
     let m1 = m(sp1 := arg2);
     let sp2 = sp1 - 4;
     let m2 = m1(sp2 := arg1);
     let sp3 = sp2 - 4;
     let m3 = m2(sp3 := of_nat func);
     let sp4 = sp3 - 4;
     Some (\<lparr>c_eip = InitialFunc, c_esp = sp4, c_ebp = sp4, c_pdptr = pdptr,
             c_kstack = kstack, c_kstacksz = kstacksz\<rparr>, m3)
   }"

text \<open>
  \<^verbatim>\<open>context_make_active\<close>: the pushed instruction pointer is popped again by \<^verbatim>\<open>ret\<close>, which
  leaves it in the cell below the stack pointer.
\<close>

definition context_make_active :: "(code_ptr \<Rightarrow> 32 word) \<Rightarrow> context_t \<Rightarrow> cpu \<Rightarrow> cpu" where
  "context_make_active enc c p =
     (let p1 = p\<lparr>tss_esp0 := c_kstack c + c_kstacksz c, cr3 := c_pdptr c\<rparr>;
          p2 = p1\<lparr>ebp := c_ebp c, esp := c_esp c\<rparr>;
          p3 = push (enc (c_eip c)) p2;
          p4 = snd (pop p3)
      in p4\<lparr>eip := c_eip c\<rparr>)"

text \<open>
  \<^verbatim>\<open>context_switch\<close>: the saved part runs on the old stack, the rest on the new one.  When the
  new context was saved by an earlier switch its instruction pointer is the label, and the two
  pops behind it run before control is back in that caller.
\<close>

definition switch_resume :: "cpu \<Rightarrow> cpu" where
  "switch_resume p =
     (let (bp, p1) = pop p; p2 = p1\<lparr>ebp := bp\<rparr>; (fl, p3) = pop p2 in p3\<lparr>eflags := fl\<rparr>)"

definition context_switch ::
  "(code_ptr \<Rightarrow> 32 word) \<Rightarrow> nat \<Rightarrow> nat \<Rightarrow> (nat \<Rightarrow> context_t) \<Rightarrow> cpu \<Rightarrow> (nat \<Rightarrow> context_t) \<times> cpu"
  where
  "context_switch enc oldc newc cs p =
     (let p1 = p\<lparr>tss_esp0 := c_kstack (cs newc) + c_kstacksz (cs newc), cr3 := c_pdptr (cs newc)\<rparr>;
          p2 = push (ebp p1) (push (eflags p1) p1);
          cs1 = cs(oldc := (cs oldc)\<lparr>c_esp := esp p2\<rparr>);
          p3 = p2\<lparr>esp := c_esp (cs1 newc)\<rparr>;
          cs2 = cs1(oldc := (cs1 oldc)\<lparr>c_eip := SwitchLabel\<rparr>);
          p4 = snd (pop (push (enc (c_eip (cs2 newc))) p3));
          p5 = p4\<lparr>eip := c_eip (cs2 newc)\<rparr>
      in (cs2, if c_eip (cs2 newc) = SwitchLabel then switch_resume p5 else p5))"

lemmas context_defs = push_def pop_def Let_def switch_resume_def

section \<open>The stack of a new context\<close>

lemma word_minus_ne [simp]:
  "(a :: 32 word) - 4 \<noteq> a" "a - 8 \<noteq> a - 4" "a - 4 \<noteq> a - 8" "a - 12 \<noteq> a - 4" "a - 4 \<noteq> a - 12"
  "a - 12 \<noteq> a - 8" "a - 8 \<noteq> a - 12"
  by simp_all

text \<open>
  The function of a new context finds its own address and its two arguments in the three cells
  above the phony return address, and the stack pointer is 16 bytes below the top of the stack.
\<close>

lemma context_setup_stack:
  assumes "context_setup func a1 a2 k sz pd m = Some (c, m')"
  shows "c_esp c = k + sz - 16" and "c_ebp c = c_esp c" and "c_eip c = InitialFunc"
    and "m' (c_esp c + 4) = of_nat func" and "m' (c_esp c + 8) = a1" and "m' (c_esp c + 12) = a2"
    and "a \<notin> {k + sz - 4, k + sz - 8, k + sz - 12} \<Longrightarrow> m' a = m a"
    and "c_pdptr c = pd" and "pd \<noteq> 0"
  using assms
  by (auto simp: context_setup_def Let_def kassert_def diff_diff_eq split: if_splits)

section \<open>A switch away and back\<close>

text \<open>What a switch saves, and what it loads.\<close>

lemma context_switch_saves:
  assumes "context_switch enc oldc newc cs p = (cs', p')"
  shows "cs' = cs(oldc := (cs oldc)\<lparr>c_esp := esp p - 8, c_eip := SwitchLabel\<rparr>)"
  using assms by (auto simp: context_switch_def context_defs diff_diff_eq)

lemma context_switch_space:
  assumes "context_switch enc oldc newc cs p = (cs', p')"
  shows "cr3 p' = c_pdptr (cs newc)" and "tss_esp0 p' = c_kstack (cs newc) + c_kstacksz (cs newc)"
    and "eip p' = c_eip (cs' newc)"
  using assms by (auto simp: context_switch_def context_defs diff_diff_eq split: if_splits)

lemma context_switch_pushes:
  assumes "context_switch enc oldc newc cs p = (cs', p')"
    and "c_esp (cs' newc) - 4 \<noteq> esp p - 4" and "c_esp (cs' newc) - 4 \<noteq> esp p - 8"
  shows "stack_mem p' (esp p - 4) = eflags p" and "stack_mem p' (esp p - 8) = ebp p"
  using assms by (auto simp: context_switch_def context_defs diff_diff_eq split: if_splits)

lemma context_switch_loads:
  assumes "context_switch enc oldc newc cs p = (cs', p')" and "oldc \<noteq> newc"
    and "c_eip (cs newc) = SwitchLabel"
    and "c_esp (cs newc) \<notin> {esp p - 4, esp p - 8}" and "c_esp (cs newc) + 4 \<notin> {esp p - 4, esp p - 8}"
  shows "esp p' = c_esp (cs newc) + 8" and "ebp p' = stack_mem p (c_esp (cs newc))"
    and "eflags p' = stack_mem p (c_esp (cs newc) + 4)"
  using assms by (auto simp: context_switch_def context_defs diff_diff_eq)

text \<open>A thread that switches to itself goes on unchanged.\<close>

lemma context_switch_self:
  assumes "context_switch enc oldc oldc cs p = (cs', p')"
  shows "esp p' = esp p" and "ebp p' = ebp p" and "eflags p' = eflags p" and "eip p' = SwitchLabel"
proof -
  have ne: "esp p - 12 \<noteq> esp p - 8" "esp p - 12 \<noteq> esp p - 4" "esp p - 8 + 4 = esp p - 4"
    "esp p - 4 + 4 = esp p"
    by simp_all
  show "esp p' = esp p" and "ebp p' = ebp p" and "eflags p' = eflags p" and "eip p' = SwitchLabel"
    using assms by (auto simp: context_switch_def context_defs diff_diff_eq ne)
qed

text \<open>
  C36: a thread that is switched away from and later switched back to continues with its own stack
  pointer, frame pointer and flags, behind the switch, in its own address space, as long as its
  saved context and the two cells it saved its registers in were left alone meanwhile.
\<close>

theorem context_switch_resumes:
  assumes "context_switch enc oldc newc cs p = (cs1, p1)" and "oldc \<noteq> newc"
    and "c_esp (cs newc) \<notin> {esp p, esp p - 4}"
    and "cs2 oldc = cs1 oldc" and "stack_mem q (esp p - 4) = stack_mem p1 (esp p - 4)"
    and "stack_mem q (esp p - 8) = stack_mem p1 (esp p - 8)"
    and "esp q \<notin> {esp p + 4, esp p, esp p - 4}"
    and "context_switch enc other oldc cs2 q = (cs3, q')" and "other \<noteq> oldc"
  shows "esp q' = esp p \<and> ebp q' = ebp p \<and> eflags q' = eflags p \<and> eip q' = SwitchLabel
    \<and> cr3 q' = c_pdptr (cs oldc)"
proof -
  have o: "cs1 = cs(oldc := (cs oldc)\<lparr>c_esp := esp p - 8, c_eip := SwitchLabel\<rparr>)"
    using context_switch_saves [OF assms(1)] .
  have n: "c_esp (cs1 newc) - 4 \<noteq> esp p - 4" "c_esp (cs1 newc) - 4 \<noteq> esp p - 8"
    using assms(2,3) o by (auto simp: diff_eq_eq)
  note pushed = context_switch_pushes [OF assms(1) n]
  have "c_esp (cs2 oldc) \<notin> {esp q - 4, esp q - 8}"
    "c_esp (cs2 oldc) + 4 \<notin> {esp q - 4, esp q - 8}"
    using assms(4,7) o by (auto simp: diff_eq_eq eq_diff_eq add.commute)
  note loaded = context_switch_loads [OF assms(8,9) _ this]
  show ?thesis
    using loaded pushed assms(4-6,9) o context_switch_space(1,3) [OF assms(8)]
      context_switch_saves [OF assms(8)] by simp
qed

text \<open>A switch from a running thread to a fresh one, and back.\<close>

definition demo_ctxs :: "nat \<Rightarrow> context_t" where
  "demo_ctxs t = \<lparr>c_eip = InitialFunc, c_esp = 0x2000, c_ebp = 0x2000, c_pdptr = t,
                  c_kstack = 0x1000, c_kstacksz = 0x1000\<rparr>"

definition demo_cpu :: cpu where
  "demo_cpu = \<lparr>eip = Code 7, esp = 0x4000, ebp = 0x4040, eflags = 0x202, cr3 = 1,
               tss_esp0 = 0x5000, stack_mem = (\<lambda>_. 0)\<rparr>"

theorem context_switch_resumes_witness:
  "\<exists>cs1 p1 cs3 q'.
     context_switch (\<lambda>_. 9) 1 2 demo_ctxs demo_cpu = (cs1, p1)
     \<and> context_switch (\<lambda>_. 9) 2 1 cs1 p1 = (cs3, q') \<and> esp q' = 0x4000
     \<and> ebp q' = 0x4040 \<and> eflags q' = 0x202"
proof -
  obtain cs1 p1 where 1: "context_switch (\<lambda>_. 9) 1 2 demo_ctxs demo_cpu = (cs1, p1)"
    by fastforce
  obtain cs3 q' where 2: "context_switch (\<lambda>_. 9) 2 1 cs1 p1 = (cs3, q')"
    by fastforce
  have e: "esp demo_cpu = 0x4000" "c_esp (demo_ctxs 2) = 0x2000"
    by (simp_all add: demo_cpu_def demo_ctxs_def)
  have q: "esp p1 = 0x2000"
    using 1 by (auto simp: context_switch_def context_defs demo_cpu_def demo_ctxs_def)
  have "esp q' = 0x4000 \<and> ebp q' = 0x4040 \<and> eflags q' = 0x202"
    using context_switch_resumes [OF 1 _ _ refl refl refl _ 2] e q by (simp add: demo_cpu_def)
  with 1 2 show ?thesis by blast
qed

end
