(* ===== verification/Kstring.thy ===== *)
theory Kstring
  imports Weenix_Prelude
begin

text \<open>
  The string functions of \<^verbatim>\<open>kernel/util/string.c\<close>.  A pointer to characters is the list of the
  bytes from there to the end of its buffer; reading or writing past that end is a fault.  The
  string in a buffer is what stands before the first NUL byte.
\<close>

abbreviation NUL :: char where "NUL \<equiv> CHR 0x00"

definition cstr :: "string \<Rightarrow> string" where
  "cstr b = takeWhile (\<lambda>c. c \<noteq> NUL) b"

definition is_cstr :: "string \<Rightarrow> bool" where
  "is_cstr b \<longleftrightarrow> NUL \<in> set b"

fun strlen :: "string \<Rightarrow> nat option" where
  "strlen [] = None"
| "strlen (c # cs) = (if c = NUL then Some 0 else map_option Suc (strlen cs))"

fun strnlen :: "string \<Rightarrow> nat \<Rightarrow> nat option" where
  "strnlen s 0 = Some 0"
| "strnlen [] (Suc n) = None"
| "strnlen (c # cs) (Suc n) = (if c = NUL then Some 0 else map_option Suc (strnlen cs n))"

text \<open>
  Characters are signed, and the comparison functions keep the difference of two characters in a
  signed character.
\<close>

definition signed8 :: "int \<Rightarrow> int" where
  "signed8 x = (let y = x mod 256 in if y < 128 then y else y - 256)"

definition char_val :: "char \<Rightarrow> int" where
  "char_val c = signed8 (of_char c)"

definition char_diff :: "char \<Rightarrow> char \<Rightarrow> int" where
  "char_diff a b = signed8 (char_val a - char_val b)"

fun strncmp :: "string \<Rightarrow> string \<Rightarrow> nat \<Rightarrow> int option" where
  "strncmp cs ct 0 = Some 0"
| "strncmp (a # cs) (b # ct) (Suc n) =
     (if char_diff a b \<noteq> 0 \<or> a = NUL then Some (char_diff a b) else strncmp cs ct n)"
| "strncmp _ _ (Suc n) = None"

fun strcmp :: "string \<Rightarrow> string \<Rightarrow> int option" where
  "strcmp (a # cs) (b # ct) =
     (if char_diff a b \<noteq> 0 \<or> a = NUL then Some (char_diff a b) else strcmp cs ct)"
| "strcmp _ _ = None"

fun strcpy :: "string \<Rightarrow> string \<Rightarrow> string option" where
  "strcpy (d # dest) (c # src) =
     (if c = NUL then Some (c # dest) else map_option ((#) c) (strcpy dest src))"
| "strcpy _ _ = None"

fun strncpy :: "string \<Rightarrow> string \<Rightarrow> nat \<Rightarrow> string option" where
  "strncpy dest src 0 = Some dest"
| "strncpy (d # dest) (c # src) (Suc n) =
     (if c = NUL then Some (c # dest) else map_option ((#) c) (strncpy dest src n))"
| "strncpy _ _ (Suc n) = None"

fun strcat :: "string \<Rightarrow> string \<Rightarrow> string option" where
  "strcat [] src = None"
| "strcat (d # dest) src =
     (if d = NUL then strcpy (d # dest) src else map_option ((#) d) (strcat dest src))"

text \<open>The searching functions return the position of what they found, if anything.\<close>

fun strchr :: "string \<Rightarrow> char \<Rightarrow> nat option option" where
  "strchr [] c = None"
| "strchr (a # s) c =
     (if a = c then Some (Some 0) else if a = NUL then Some None
      else map_option (map_option Suc) (strchr s c))"

fun strrchr_from :: "string \<Rightarrow> char \<Rightarrow> nat \<Rightarrow> nat option \<Rightarrow> nat option option" where
  "strrchr_from [] c i r = None"
| "strrchr_from (a # s) c i r =
     (if a = NUL then Some r else strrchr_from s c (Suc i) (if a = c then Some i else r))"

definition strrchr :: "string \<Rightarrow> char \<Rightarrow> nat option option" where
  "strrchr s c = strrchr_from s c 0 None"

fun strspn :: "string \<Rightarrow> string \<Rightarrow> nat option" where
  "strspn [] charset = None"
| "strspn (q # s) charset =
     (if q = NUL then Some 0
      else if q \<in> set (cstr charset) then map_option Suc (strspn s charset) else Some 0)"

fun strpbrk :: "string \<Rightarrow> string \<Rightarrow> nat option option" where
  "strpbrk [] brkset = None"
| "strpbrk (a # s) brkset =
     (if a \<in> set (cstr brkset) then Some (Some 0)
      else if a = NUL then Some None else map_option (map_option Suc) (strpbrk s brkset))"

text \<open>
  \<^verbatim>\<open>strtok\<close> over one buffer: \<open>p\<close> is the position to start from, the argument on a first call and
  the saved pointer on a later one; the result is the position of the token, if there is one, with
  the buffer and the saved pointer it leaves behind.
\<close>

definition strtok :: "string \<Rightarrow> nat option \<Rightarrow> string \<Rightarrow> (nat option \<times> string \<times> nat option) option" where
  "strtok buf p sepset = (case p of
     None \<Rightarrow> Some (None, buf, None)
   | Some i \<Rightarrow> do {
       k \<leftarrow> strspn (drop i buf) sepset;
       let q = i + k;
       kassert (q < length buf);
       if buf ! q = NUL then Some (None, buf, p)
       else do {
         r \<leftarrow> strpbrk (drop q buf) sepset;
         case r of
           None \<Rightarrow> Some (Some q, buf, None)
         | Some j \<Rightarrow> Some (Some q, buf[q + j := NUL], Some (q + j + 1))
       }
     })"

definition strstr :: "string \<Rightarrow> string \<Rightarrow> nat option" where
  "strstr s1 s2 =
     (if s2 = [] then Some 0
      else List.find (\<lambda>i. take (length s2) (drop i s1) = s2) [0..<Suc (length s1 - length s2)])"

text \<open>\<^verbatim>\<open>name_match\<close> of \<^verbatim>\<open>fs/vfs.h\<close>: a terminated name against the first bytes of another.\<close>

definition name_match :: "string \<Rightarrow> string \<Rightarrow> nat \<Rightarrow> bool option" where
  "name_match fname name namelen = do {
     n \<leftarrow> strlen fname;
     if n = namelen then do { r \<leftarrow> strncmp fname name namelen; Some (r = 0) } else Some False
   }"

section \<open>What they compute\<close>

lemma strlen_cstr: "is_cstr b \<Longrightarrow> strlen b = Some (length (cstr b))"
  by (induction b) (auto simp: is_cstr_def cstr_def)

lemma signed8_range: "- 128 \<le> signed8 x" "signed8 x \<le> 127"
  using pos_mod_bound [of 256 x] pos_mod_sign [of 256 x] by (auto simp: signed8_def Let_def)

lemma signed8_zero:
  assumes "\<bar>x\<bar> < 256"
  shows "signed8 x = 0 \<longleftrightarrow> x = 0"
proof
  assume "signed8 x = 0"
  then have "x mod 256 = 0" using pos_mod_bound [of 256 x] by (auto simp: signed8_def Let_def split: if_splits)
  then have "256 dvd x" by (simp add: dvd_eq_mod_eq_0)
  then show "x = 0" using assms dvd_imp_le_int [of x 256] by fastforce
qed (simp add: signed8_def)

lemma char_val_eq: "char_val c = (if of_char c < (128 :: int) then of_char c else of_char c - 256)"
  by (simp add: char_val_def signed8_def Let_def of_char_mod_256)

lemma of_char_range: "0 \<le> (of_char c :: int)" "(of_char c :: int) < 256"
proof -
  have e: "(of_char c :: int) = int (of_char c)" by (rule of_nat_of_char [symmetric])
  show "0 \<le> (of_char c :: int)" "(of_char c :: int) < 256"
    using nat_of_char_less_256 [of c] unfolding e by linarith+
qed

lemma char_val_inj: "char_val a = char_val b \<longleftrightarrow> a = b"
proof
  assume "char_val a = char_val b"
  then have "(of_char a :: int) = of_char b"
    using of_char_range [of a] of_char_range [of b] by (simp add: char_val_eq split: if_splits)
  then show "a = b" by (simp only: of_char_eq_iff)
qed simp

lemma char_diff_zero: "char_diff a b = 0 \<longleftrightarrow> a = b"
proof -
  have "\<bar>char_val a - char_val b\<bar> < 256"
    using signed8_range [of "of_char a"] signed8_range [of "of_char b"] by (simp add: char_val_def)
  then show ?thesis unfolding char_diff_def by (simp add: signed8_zero char_val_inj)
qed

lemma strcmp_zero: "is_cstr a \<Longrightarrow> is_cstr b \<Longrightarrow> \<exists>r. strcmp a b = Some r \<and> (r = 0 \<longleftrightarrow> cstr a = cstr b)"
proof (induction a b rule: strcmp.induct)
  case (1 a cs b ct)
  then show ?case by (auto simp: char_diff_zero is_cstr_def cstr_def)
qed (auto simp: is_cstr_def)

lemma strncmp_zero:
  assumes "NUL \<notin> set x" and "NUL \<notin> set y" and "length x = n" and "length y = n"
  shows "\<exists>r. strncmp (x @ b) (y @ b') n = Some r \<and> (r = 0 \<longleftrightarrow> x = y)"
  using assms
proof (induction n arbitrary: x y)
  case (Suc n)
  then obtain a x' c y' where "x = a # x'" "y = c # y'" by (metis length_Suc_conv)
  with Suc show ?case by (auto simp: char_diff_zero)
qed simp


lemma cstr_split: "is_cstr b \<Longrightarrow> \<exists>r. b = cstr b @ NUL # r"
  by (induction b) (auto simp: is_cstr_def cstr_def)

lemma cstr_no_nul: "NUL \<notin> set (cstr b)"
  by (auto simp: cstr_def dest: set_takeWhileD)

lemma cstr_append_nul: "NUL \<notin> set x \<Longrightarrow> cstr (x @ NUL # r) = x"
  by (induction x) (auto simp: cstr_def)

lemma name_match_exact:
  assumes "is_cstr fname" and "NUL \<notin> set name"
  shows "name_match fname (name @ b) (length name) = Some (cstr fname = name)"
proof (cases "length (cstr fname) = length name")
  case True
  obtain r where r: "fname = cstr fname @ NUL # r" using cstr_split [OF assms(1)] by blast
  obtain v where "strncmp (cstr fname @ NUL # r) (name @ b) (length name) = Some v"
      "v = 0 \<longleftrightarrow> cstr fname = name"
    using strncmp_zero [OF cstr_no_nul assms(2) True refl] by blast
  moreover have "strncmp fname (name @ b) (length name) = strncmp (cstr fname @ NUL # r) (name @ b) (length name)"
    using arg_cong [OF r, of "\<lambda>x. strncmp x (name @ b) (length name)"] .
  ultimately show ?thesis
    using strlen_cstr [OF assms(1)] True by (simp add: name_match_def)
next
  case False
  then show ?thesis using strlen_cstr [OF assms(1)] by (auto simp: name_match_def)
qed

text \<open>Copying: the destination starts with the copied string; what lies behind it is kept.\<close>

lemma strcpy_copies:
  "NUL \<notin> set x \<Longrightarrow> length x < length dest \<Longrightarrow>
     strcpy dest (x @ NUL # r) = Some (x @ NUL # drop (Suc (length x)) dest)"
proof (induction x arbitrary: dest)
  case Nil
  then show ?case by (cases dest) auto
next
  case (Cons c x)
  then show ?case by (cases dest) auto
qed

lemma strcpy_overflows: "NUL \<notin> set x \<Longrightarrow> length dest \<le> length x \<Longrightarrow> strcpy dest (x @ NUL # r) = None"
proof (induction x arbitrary: dest)
  case Nil
  then show ?case by simp
next
  case (Cons c x)
  then show ?case by (cases dest) auto
qed

lemma strcat_appends:
  "NUL \<notin> set d \<Longrightarrow> NUL \<notin> set x \<Longrightarrow> length x \<le> length e \<Longrightarrow>
     strcat (d @ NUL # e) (x @ NUL # r) = Some (d @ x @ NUL # drop (length x) e)"
  by (induction d) (auto simp: strcpy_copies)

text \<open>
  Unlike the C standard's \<^verbatim>\<open>strncpy\<close>, this one stops behind the terminator instead of filling up.
\<close>

lemma strncpy_short:
  "NUL \<notin> set x \<Longrightarrow> length x < n \<Longrightarrow> length x < length dest \<Longrightarrow>
     strncpy dest (x @ NUL # r) n = Some (x @ NUL # drop (Suc (length x)) dest)"
proof (induction x arbitrary: dest n)
  case Nil
  then show ?case by (cases dest; cases n) auto
next
  case (Cons c x)
  then show ?case by (cases dest; cases n) auto
qed

lemma strncpy_long:
  "NUL \<notin> set x \<Longrightarrow> n \<le> length x \<Longrightarrow> n \<le> length dest \<Longrightarrow>
     strncpy dest (x @ b) n = Some (take n x @ drop n dest)"
proof (induction x arbitrary: dest n)
  case Nil
  then show ?case by simp
next
  case (Cons c x)
  then show ?case by (cases dest; cases n) auto
qed

lemma strchr_finds:
  "NUL \<notin> set x \<Longrightarrow> c \<notin> set x \<Longrightarrow> strchr (x @ c # r) c = Some (Some (length x))"
  by (induction x) auto

lemma strchr_missing:
  "NUL \<notin> set x \<Longrightarrow> c \<notin> set x \<Longrightarrow> c \<noteq> NUL \<Longrightarrow> strchr (x @ NUL # r) c = Some None"
  by (induction x) auto

lemma strrchr_from_last:
  "NUL \<notin> set x \<Longrightarrow> NUL \<notin> set y \<Longrightarrow> c \<notin> set y \<Longrightarrow> c \<noteq> NUL \<Longrightarrow>
     strrchr_from (x @ c # y @ NUL # r) c i acc = Some (Some (i + length x))"
proof (induction x arbitrary: i acc)
  case Nil
  have "strrchr_from (y @ NUL # r) c j b = Some b" for j b
    using Nil.prems by (induction y arbitrary: j) auto
  with Nil show ?case by simp
next
  case (Cons a x)
  then show ?case by auto
qed

lemma strrchr_last:
  "NUL \<notin> set x \<Longrightarrow> NUL \<notin> set y \<Longrightarrow> c \<notin> set y \<Longrightarrow> c \<noteq> NUL \<Longrightarrow>
     strrchr (x @ c # y @ NUL # r) c = Some (Some (length x))"
  using strrchr_from_last [of x y c r 0 None] by (simp add: strrchr_def)

end
