(* ===== verification/Kstrtok.thy ===== *)
theory Kstrtok
  imports Kstring
begin

text \<open>
  Taking a string apart with repeated calls of \<^verbatim>\<open>strtok\<close>, against a definition of the tokens of a
  string that has no buffer and no saved pointer.
\<close>

lemma token_shorter:
  assumes "dropWhile (\<lambda>c. c \<in> S) x \<noteq> []"
  shows "length (dropWhile (\<lambda>c. c \<notin> S) (dropWhile (\<lambda>c. c \<in> S) x)) < length x"
proof -
  obtain c y where y: "dropWhile (\<lambda>c. c \<in> S) x = c # y" using assms by (cases "dropWhile (\<lambda>c. c \<in> S) x") auto
  then have "c \<notin> S" using hd_dropWhile [OF assms] by simp
  then show ?thesis
    using y length_dropWhile_le [of "\<lambda>c. c \<notin> S" y] length_dropWhile_le [of "\<lambda>c. c \<in> S" x] by simp
qed

text \<open>The maximal runs of characters outside \<open>S\<close>.\<close>

function tokens :: "char set \<Rightarrow> string \<Rightarrow> string list" where
  "tokens S x =
     (if dropWhile (\<lambda>c. c \<in> S) x = [] then []
      else takeWhile (\<lambda>c. c \<notin> S) (dropWhile (\<lambda>c. c \<in> S) x)
        # tokens S (dropWhile (\<lambda>c. c \<notin> S) (dropWhile (\<lambda>c. c \<in> S) x)))"
  by pat_completeness auto
termination by (relation "measure (\<lambda>(S, x). length x)") (simp_all add: token_shorter del: dropWhile_eq_Nil_conv)

declare tokens.simps [simp del]

text \<open>A caller that takes tokens until there are no more, in at most \<open>n\<close> calls.\<close>

fun strtok_all :: "nat \<Rightarrow> string \<Rightarrow> nat option \<Rightarrow> string \<Rightarrow> string list option" where
  "strtok_all 0 buf p sepset = None"
| "strtok_all (Suc n) buf p sepset = do {
     (r, buf', p') \<leftarrow> strtok buf p sepset;
     case r of None \<Rightarrow> Some []
     | Some q \<Rightarrow> map_option ((#) (cstr (drop q buf'))) (strtok_all n buf' p' sepset)
   }"

lemma strspn_run:
  "NUL \<notin> set x \<Longrightarrow> strspn (x @ NUL # r) sepset = Some (length (takeWhile (\<lambda>c. c \<in> set (cstr sepset)) x))"
  by (induction x) auto

lemma strpbrk_stop:
  "NUL \<notin> set x \<Longrightarrow> strpbrk (x @ NUL # r) sepset
     = Some (if dropWhile (\<lambda>c. c \<notin> set (cstr sepset)) x = [] then None
             else Some (length (takeWhile (\<lambda>c. c \<notin> set (cstr sepset)) x)))"
  using cstr_no_nul [of sepset] by (induction x) auto

lemma tokens_sep: "c \<in> S \<Longrightarrow> tokens S (c # x) = tokens S x"
  by (subst (1 2) tokens.simps) simp

text \<open>One call: separators \<open>a\<close>, a token \<open>t\<close>, and the rest.\<close>

lemma strtok_first:
  assumes no: "NUL \<notin> set (a @ t @ y)" and a: "\<forall>c\<in>set a. c \<in> S" and t: "t \<noteq> []" "\<forall>c\<in>set t. c \<notin> S"
    and y: "y = [] \<or> hd y \<in> S" and S: "S = set (cstr sepset)"
  shows "strtok (pre @ a @ t @ y @ NUL # r) (Some (length pre)) sepset
    = Some (Some (length pre + length a), pre @ a @ t @ NUL # (if y = [] then r else tl y @ NUL # r),
        if y = [] then None else Some (length pre + length a + length t + 1))"
proof -
  have "takeWhile (\<lambda>c. c \<in> S) (a @ t @ y) = a" using a t by (cases t) (auto simp: takeWhile_append)
  then have sp: "strspn (a @ t @ y @ NUL # r) sepset = Some (length a)"
    using strspn_run [of "a @ t @ y" r sepset] no S by simp
  have "takeWhile (\<lambda>c. c \<notin> S) (t @ y) = t" "dropWhile (\<lambda>c. c \<notin> S) (t @ y) = y"
    using t(2) y by (cases y; auto simp: takeWhile_append dropWhile_append)+
  then have br: "strpbrk (t @ y @ NUL # r) sepset = Some (if y = [] then None else Some (length t))"
    using strpbrk_stop [of "t @ y" r sepset] no S by simp
  have "hd t \<noteq> NUL" "(pre @ a @ t @ y @ NUL # r) ! (length pre + length a) = hd t"
    using no t(1) by (cases t; auto simp: nth_append)+
  then show ?thesis using sp br t(1) by (cases y) (auto simp: strtok_def Let_def list_update_append add.assoc)
qed

lemma strtok_all_tokens:
  assumes S: "S = set (cstr sepset)"
  shows "NUL \<notin> set x \<Longrightarrow> length x < n \<Longrightarrow>
    strtok_all n (pre @ x @ NUL # r) (Some (length pre)) sepset = Some (tokens S x)"
proof (induction n arbitrary: pre x)
  case (Suc n)
  define a where "a = takeWhile (\<lambda>c. c \<in> S) x"
  define t where "t = takeWhile (\<lambda>c. c \<notin> S) (dropWhile (\<lambda>c. c \<in> S) x)"
  define y where "y = dropWhile (\<lambda>c. c \<notin> S) (dropWhile (\<lambda>c. c \<in> S) x)"
  have x: "x = a @ t @ y" by (simp add: a_def t_def y_def)
  show ?case
  proof (cases "dropWhile (\<lambda>c. c \<in> S) x = []")
    case True
    then have "length (takeWhile (\<lambda>c. c \<in> S) x) = length x" by (metis takeWhile_dropWhile_id append_Nil2)
    then have "strtok (pre @ x @ NUL # r) (Some (length pre)) sepset = Some (None, pre @ x @ NUL # r, Some (length pre))"
      using strspn_run [OF Suc.prems(1), of r sepset] S by (simp add: strtok_def Let_def nth_append)
    then show ?thesis using True by (subst tokens.simps) simp
  next
    case False
    have t: "t \<noteq> []" using False hd_dropWhile [OF False] unfolding t_def by (cases "dropWhile (\<lambda>c. c \<in> S) x") auto
    have tok: "tokens S x = t # tokens S y" using False by (subst tokens.simps) (simp add: t_def y_def Let_def)
    have y: "y = [] \<or> hd y \<in> S" using hd_dropWhile [of "\<lambda>c. c \<notin> S"] unfolding y_def by blast
    have st: "strtok (pre @ x @ NUL # r) (Some (length pre)) sepset
      = Some (Some (length pre + length a), pre @ a @ t @ NUL # (if y = [] then r else tl y @ NUL # r),
          if y = [] then None else Some (length pre + length a + length t + 1))"
    proof -
      have "\<forall>c\<in>set a. c \<in> S" "\<forall>c\<in>set t. c \<notin> S" by (auto simp: a_def t_def dest: set_takeWhileD)
      moreover have "NUL \<notin> set (a @ t @ y)" using Suc.prems(1) x by simp
      ultimately show ?thesis using strtok_first [OF _ _ t _ y S, of a pre r] x by simp
    qed
    have c: "cstr (t @ NUL # z) = t" for z using Suc.prems(1) x by (intro cstr_append_nul) auto
    show ?thesis
    proof (cases y)
      case Nil
      have "tokens S [] = []" by (subst tokens.simps) simp
      moreover obtain m where "n = Suc m" using Suc.prems(2) x t by (cases n) auto
      ultimately show ?thesis using st tok c Nil by (simp add: strtok_def)
    next
      case (Cons h z)
      have "strtok_all n ((pre @ a @ t @ [NUL]) @ z @ NUL # r) (Some (length (pre @ a @ t @ [NUL]))) sepset = Some (tokens S z)"
        using Suc.prems x Cons by (intro Suc.IH) auto
      moreover have "tokens S y = tokens S z" using y Cons tokens_sep by simp
      ultimately show ?thesis using st tok c Cons by (simp add: add.assoc)
    qed
  qed
qed simp

text \<open>
  C33: Taken together, the calls of \<^verbatim>\<open>strtok\<close> on a string split it as its reference does: the tokens are
  the maximal runs of characters that are not separators, in their order, whatever stands in the
  buffer behind the string; one call more than the string has characters is always enough, and the
  last one reports the end.
\<close>

theorem strtok_splits:
  assumes "NUL \<notin> set x" and "length x < n"
  shows "strtok_all n (x @ NUL # r) (Some 0) sepset = Some (tokens (set (cstr sepset)) x)"
  using strtok_all_tokens [OF refl assms, of "[]"] by simp

theorem strtok_splits_witness:
  "strtok_all 20 (''  ls -l  /dev'' @ [NUL]) (Some 0) ('' '' @ [NUL]) = Some [''ls'', ''-l'', ''/dev'']"
proof -
  have "tokens (set (cstr ('' '' @ [NUL]))) ''  ls -l  /dev'' = [''ls'', ''-l'', ''/dev'']" by code_simp
  then show ?thesis using strtok_splits [of "''  ls -l  /dev''" 20 "[]" "'' '' @ [NUL]"] by simp
qed

end
