(* ===== verification/Klist.thy ===== *)
theory Klist
  imports Weenix_Prelude
begin

text \<open>
  The intrusive circular doubly linked list of \<^verbatim>\<open>include/util/list.h\<close>, on which
  every queue and every table of the kernel is built. The links live in a heap, a map from
  addresses to \<^verbatim>\<open>list_link_t\<close> structures; each macro is a function on that heap
  that performs the macro's stores one after the other. The predicate \<open>is_list\<close> says
  which sequence of links a list head holds; the lemmas show what each macro does to that
  sequence and that it leaves every disjoint list alone.
\<close>

section \<open>The macros of list.h\<close>

record list_link =
  l_next :: nat
  l_prev :: nat

type_synonym lheap = "nat \<Rightarrow> list_link"

definition set_next :: "nat \<Rightarrow> nat \<Rightarrow> lheap \<Rightarrow> lheap" where
  "set_next p v h = h(p := (h p)\<lparr>l_next := v\<rparr>)"

definition set_prev :: "nat \<Rightarrow> nat \<Rightarrow> lheap \<Rightarrow> lheap" where
  "set_prev p v h = h(p := (h p)\<lparr>l_prev := v\<rparr>)"

definition list_link_init :: "nat \<Rightarrow> lheap \<Rightarrow> lheap" where
  "list_link_init link h = set_next link 0 (set_prev link 0 h)"

definition list_link_is_linked :: "nat \<Rightarrow> lheap \<Rightarrow> bool" where
  "list_link_is_linked link h \<longleftrightarrow> l_next (h link) \<noteq> 0 \<and> l_prev (h link) \<noteq> 0"

definition list_init :: "nat \<Rightarrow> lheap \<Rightarrow> lheap" where
  "list_init l h = set_next l l (set_prev l l h)"

definition list_empty :: "nat \<Rightarrow> lheap \<Rightarrow> bool" where
  "list_empty l h \<longleftrightarrow> l_next (h l) = l"

text \<open>
  \<^verbatim>\<open>list_insert_before(old, new)\<close>, with \<open>next\<close> and \<open>prev\<close> the
  macro's local names of \<open>old\<close> and \<open>new\<close>. The third store goes through
  \<^verbatim>\<open>next->l_prev\<close>, which faults when that link is null.
\<close>

definition list_insert_before :: "nat \<Rightarrow> nat \<Rightarrow> lheap \<Rightarrow> lheap option" where
  "list_insert_before old new h =
     (let prev = new; nxt = old;
          h1 = set_next prev nxt h;
          h2 = set_prev prev (l_prev (h1 nxt)) h1
      in do {
        kassert (l_prev (h2 nxt) \<noteq> 0);
        Some (set_prev nxt prev (set_next (l_prev (h2 nxt)) prev h2))
      })"

definition list_insert_head :: "nat \<Rightarrow> nat \<Rightarrow> lheap \<Rightarrow> lheap option" where
  "list_insert_head l link h = list_insert_before (l_next (h l)) link h"

definition list_insert_tail :: "nat \<Rightarrow> nat \<Rightarrow> lheap \<Rightarrow> lheap option" where
  "list_insert_tail l link h = list_insert_before l link h"

definition list_remove :: "nat \<Rightarrow> lheap \<Rightarrow> lheap option" where
  "list_remove link h =
     (let prev = l_prev (h link); nxt = l_next (h link)
      in do {
        kassert (prev \<noteq> 0 \<and> nxt \<noteq> 0);
        Some (set_next link 0 (set_prev link 0 (set_prev nxt prev (set_next prev nxt h))))
      })"

definition list_remove_head :: "nat \<Rightarrow> lheap \<Rightarrow> lheap option" where
  "list_remove_head l h = list_remove (l_next (h l)) h"

definition list_remove_tail :: "nat \<Rightarrow> lheap \<Rightarrow> lheap option" where
  "list_remove_tail l h = list_remove (l_prev (h l)) h"

text \<open>
  \<^verbatim>\<open>list_iterate_begin ... list_iterate_end\<close>: the next link is read before the
  body runs, so that the body may take the current link off the list. The body works on the
  heap and an accumulator and may stop the kernel. The number bounds the iterations; the
  lemmas below show that the length of the list is enough.
\<close>

fun list_iterate ::
  "nat \<Rightarrow> nat \<Rightarrow> (nat \<Rightarrow> lheap \<times> 'a \<Rightarrow> (lheap \<times> 'a) option) \<Rightarrow> nat \<Rightarrow> lheap \<times> 'a \<Rightarrow>
    (lheap \<times> 'a) option" where
  "list_iterate n l body link s =
     (if link = l then Some s
      else case n of
        0 \<Rightarrow> None
      | Suc m \<Rightarrow>
          (let nxt = l_next (fst s link)
           in do { s' \<leftarrow> body link s; list_iterate m l body nxt s' }))"

declare list_iterate.simps [simp del]

definition list_iterate_all ::
  "nat \<Rightarrow> nat \<Rightarrow> (nat \<Rightarrow> lheap \<times> 'a \<Rightarrow> (lheap \<times> 'a) option) \<Rightarrow> lheap \<times> 'a \<Rightarrow>
    (lheap \<times> 'a) option" where
  "list_iterate_all n l body s = list_iterate n l body (l_next (fst s l)) s"

section \<open>The sequence a list holds\<close>

fun dseg :: "lheap \<Rightarrow> nat \<Rightarrow> nat list \<Rightarrow> nat \<Rightarrow> bool" where
  "dseg h p [] q \<longleftrightarrow> l_next (h p) = q \<and> l_prev (h q) = p"
| "dseg h p (x # xs) q \<longleftrightarrow> l_next (h p) = x \<and> l_prev (h x) = p \<and> dseg h x xs q"

definition is_list :: "lheap \<Rightarrow> nat \<Rightarrow> nat list \<Rightarrow> bool" where
  "is_list h l xs \<longleftrightarrow> 0 \<notin> set (l # xs) \<and> distinct (l # xs) \<and> dseg h l xs l"

lemmas link_defs = set_next_def set_prev_def

lemma link_sel [simp]:
  "l_next (set_next p v h q) = (if q = p then v else l_next (h q))"
  "l_prev (set_next p v h q) = l_prev (h q)"
  "l_next (set_prev p v h q) = l_next (h q)"
  "l_prev (set_prev p v h q) = (if q = p then v else l_prev (h q))"
  by (simp_all add: link_defs)

lemma dseg_append:
  "dseg h p (xs @ y # ys) q \<longleftrightarrow> dseg h p xs y \<and> dseg h y ys q"
  by (induction xs arbitrary: p) auto

lemma dseg_set_next:
  "a \<noteq> p \<Longrightarrow> a \<notin> set xs \<Longrightarrow> dseg (set_next a v h) p xs q = dseg h p xs q"
  by (induction xs arbitrary: p) auto

lemma dseg_set_prev:
  "a \<noteq> q \<Longrightarrow> a \<notin> set xs \<Longrightarrow> dseg (set_prev a v h) p xs q = dseg h p xs q"
  by (induction xs arbitrary: p) auto

lemmas dseg_frame = dseg_set_next dseg_set_prev

lemma dseg_last: "dseg h p xs q \<Longrightarrow> l_prev (h q) = last (p # xs)"
  by (induction xs arbitrary: p) auto

lemma dseg_first: "dseg h p xs q \<Longrightarrow> l_next (h p) = hd (xs @ [q])"
  by (cases xs) auto


lemma is_list_links:
  assumes "is_list h l (xs @ y # ys)"
  shows "l_prev (h y) = last (l # xs)" and "l_next (h y) = hd (ys @ [l])"
  using assms by (auto simp: is_list_def dseg_append dest: dseg_last dseg_first)

lemma is_list_ends:
  assumes "is_list h l xs"
  shows "l_next (h l) = hd (xs @ [l])" and "l_prev (h l) = last (l # xs)"
  using assms by (auto simp: is_list_def dest: dseg_last dseg_first)

text \<open>Storing to a link that is not on the segment, or to a field the segment does not read.\<close>

lemma dseg_insert:
  assumes "dseg h p (xs @ ys) q" and "distinct (p # xs @ ys)" and "q \<notin> set (xs @ ys)"
    and "n \<notin> set (p # xs @ ys)" and "n \<noteq> q"
  shows "dseg (set_prev (hd (ys @ [q])) n
           (set_next (last (p # xs)) n (set_prev n (last (p # xs)) (set_next n (hd (ys @ [q])) h))))
         p (xs @ n # ys) q"
proof (cases ys)
  case Nil
  show ?thesis
  proof (cases xs rule: rev_cases)
    case Nil
    with \<open>ys = []\<close> assms show ?thesis by auto
  next
    case (snoc zs z)
    with Nil assms show ?thesis by (auto simp: dseg_append dseg_frame)
  qed
next
  case (Cons y ys')
  show ?thesis
  proof (cases xs rule: rev_cases)
    case Nil
    with Cons assms show ?thesis by (auto simp: dseg_frame)
  next
    case (snoc zs z)
    with Cons assms show ?thesis by (auto simp: dseg_append dseg_frame)
  qed
qed


lemma dseg_delete:
  assumes "dseg h p (xs @ y # ys) q" and "distinct (p # xs @ y # ys)"
    and "q \<notin> set (xs @ y # ys)"
  shows "dseg (set_next y 0 (set_prev y 0
           (set_prev (hd (ys @ [q])) (last (p # xs)) (set_next (last (p # xs)) (hd (ys @ [q])) h))))
         p (xs @ ys) q"
proof (cases ys)
  case Nil
  then show ?thesis
    using assms by (cases xs rule: rev_cases) (auto simp: dseg_append dseg_frame)
next
  case (Cons z zs)
  then show ?thesis
    using assms by (cases xs rule: rev_cases) (auto simp: dseg_append dseg_frame)
qed

section \<open>What the macros do to the sequence\<close>

lemma is_list_nz:
  assumes "is_list h l (xs @ ys)"
  shows "last (l # xs) \<noteq> 0" and "hd (ys @ [l]) \<noteq> 0"
proof -
  have "last (l # xs) \<in> set (l # xs)" by (rule last_in_set) simp
  moreover have "hd (ys @ [l]) \<in> set (ys @ [l])" by (rule hd_in_set) simp
  moreover have "0 \<notin> set (l # xs)" "0 \<notin> set (ys @ [l])"
    using assms by (simp_all add: is_list_def)
  ultimately show "last (l # xs) \<noteq> 0" "hd (ys @ [l]) \<noteq> 0" by metis+
qed

lemma list_init_is_list: "l \<noteq> 0 \<Longrightarrow> is_list (list_init l h) l []"
  by (simp add: is_list_def list_init_def)

lemma list_empty_iff: "is_list h l xs \<Longrightarrow> list_empty l h \<longleftrightarrow> xs = []"
  by (cases xs) (auto simp: is_list_def list_empty_def)

lemma list_insert_before_gen:
  assumes L: "is_list h l (xs @ ys)" and n: "n \<noteq> 0" "n \<notin> set (l # xs @ ys)"
  shows "\<exists>h'. list_insert_before (hd (ys @ [l])) n h = Some h' \<and> is_list h' l (xs @ n # ys)"
proof -
  have prev: "l_prev (h (hd (ys @ [l]))) = last (l # xs)"
    using L is_list_links(1) is_list_ends(2) by (cases ys) auto
  have ne: "n \<noteq> hd (ys @ [l])" using n by (cases ys) auto
  have nz: "last (l # xs) \<noteq> 0" using is_list_nz(1) [OF L] .
  let ?h = "set_prev (hd (ys @ [l])) n
           (set_next (last (l # xs)) n (set_prev n (last (l # xs)) (set_next n (hd (ys @ [l])) h)))"
  have "list_insert_before (hd (ys @ [l])) n h = Some ?h"
    using prev ne nz by (simp add: list_insert_before_def Let_def)
  moreover have "is_list ?h l (xs @ n # ys)"
    using L n dseg_insert [of h l xs ys l n] by (auto simp: is_list_def)
  ultimately show ?thesis by blast
qed

lemma list_insert_before_elem:
  assumes "is_list h l (xs @ y # ys)" and "n \<noteq> 0" and "n \<notin> set (l # xs @ y # ys)"
  shows "\<exists>h'. list_insert_before y n h = Some h' \<and> is_list h' l (xs @ n # y # ys)"
  using list_insert_before_gen [of h l xs "y # ys" n] assms by simp

lemma list_insert_head_Cons:
  assumes "is_list h l xs" and "n \<noteq> 0" and "n \<notin> set (l # xs)"
  shows "\<exists>h'. list_insert_head l n h = Some h' \<and> is_list h' l (n # xs)"
  using list_insert_before_gen [of h l "[]" xs n] assms is_list_ends(1) [of h l xs]
  by (simp add: list_insert_head_def)

lemma list_insert_tail_snoc:
  assumes "is_list h l xs" and "n \<noteq> 0" and "n \<notin> set (l # xs)"
  shows "\<exists>h'. list_insert_tail l n h = Some h' \<and> is_list h' l (xs @ [n])"
  using list_insert_before_gen [of h l xs "[]" n] assms
  by (simp add: list_insert_tail_def)

lemma list_remove_elem:
  assumes L: "is_list h l (xs @ y # ys)"
  shows "\<exists>h'. list_remove y h = Some h' \<and> is_list h' l (xs @ ys)
           \<and> \<not> list_link_is_linked y h'"
proof -
  have links: "l_prev (h y) = last (l # xs)" "l_next (h y) = hd (ys @ [l])"
    using is_list_links [OF L] by simp_all
  have nz: "last (l # xs) \<noteq> 0" "hd (ys @ [l]) \<noteq> 0"
    using is_list_nz(1) [of h l xs "y # ys"] is_list_nz(2) [of h l "xs @ [y]" ys] L by simp_all
  let ?h = "set_next y 0 (set_prev y 0
           (set_prev (hd (ys @ [l])) (last (l # xs)) (set_next (last (l # xs)) (hd (ys @ [l])) h)))"
  have "list_remove y h = Some ?h"
    using links nz by (simp add: list_remove_def Let_def)
  moreover have "is_list ?h l (xs @ ys)"
    using L dseg_delete [of h l xs y ys l] by (auto simp: is_list_def)
  moreover have "\<not> list_link_is_linked y ?h"
    by (simp add: list_link_is_linked_def)
  ultimately show ?thesis by blast
qed

lemma list_remove_head_tl:
  assumes "is_list h l (x # xs)"
  shows "\<exists>h'. list_remove_head l h = Some h' \<and> is_list h' l xs"
  using list_remove_elem [of h l "[]" x xs] assms is_list_ends(1) [OF assms]
  by (auto simp: list_remove_head_def)

lemma list_remove_tail_butlast:
  assumes "is_list h l (xs @ [x])"
  shows "\<exists>h'. list_remove_tail l h = Some h' \<and> is_list h' l xs"
  using list_remove_elem [of h l xs x "[]"] assms is_list_ends(2) [OF assms]
  by (auto simp: list_remove_tail_def)


section \<open>Separation\<close>

lemma dseg_cong:
  "(\<And>a. a \<in> set (p # q # xs) \<Longrightarrow> h' a = h a) \<Longrightarrow> dseg h' p xs q = dseg h p xs q"
  by (induction xs arbitrary: p) auto

lemma is_list_cong:
  "(\<And>a. a \<in> set (l # xs) \<Longrightarrow> h' a = h a) \<Longrightarrow> is_list h' l xs = is_list h l xs"
  using dseg_cong [of l l xs h' h] by (simp add: is_list_def)

lemma list_insert_before_frame:
  assumes "list_insert_before old new h = Some h'" and "new \<noteq> old"
    and "a \<notin> {new, old, l_prev (h old)}"
  shows "h' a = h a"
  using assms by (auto simp: list_insert_before_def Let_def set_next_def set_prev_def)

lemma list_remove_frame:
  assumes "list_remove link h = Some h'" and "a \<notin> {link, l_prev (h link), l_next (h link)}"
  shows "h' a = h a"
  using assms by (auto simp: list_remove_def Let_def set_next_def set_prev_def)

text \<open>Inserting into one list, or removing from it, leaves every disjoint list as it was.\<close>

lemma list_insert_head_separate:
  assumes "is_list h l xs" and "n \<notin> set (l # xs)" and "list_insert_head l n h = Some h'"
    and "is_list h k zs" and "set (k # zs) \<inter> set (n # l # xs) = {}"
  shows "is_list h' k zs"
proof -
  have "h' a = h a" if "a \<in> set (k # zs)" for a
  proof (rule list_insert_before_frame)
    show "list_insert_before (l_next (h l)) n h = Some h'"
      using assms(3) by (simp add: list_insert_head_def)
    have nx: "l_next (h l) = hd (xs @ [l])" using is_list_ends(1) [OF assms(1)] .
    show "n \<noteq> l_next (h l)" using assms(2) nx by (cases xs) auto
    have "l_prev (h (l_next (h l))) = l"
      using assms(1) nx is_list_links(1) [of h l "[]"] is_list_ends(2) [of h l "[]"]
      by (cases xs) auto
    then show "a \<notin> {n, l_next (h l), l_prev (h (l_next (h l)))}"
      using that assms(5) nx by (cases xs) auto
  qed
  then have "is_list h' k zs = is_list h k zs" by (rule is_list_cong)
  with assms(4) show ?thesis by simp
qed

lemma list_remove_separate:
  assumes "is_list h l (xs @ y # ys)" and "list_remove y h = Some h'"
    and "is_list h k zs" and "set (k # zs) \<inter> set (l # xs @ y # ys) = {}"
  shows "is_list h' k zs"
proof -
  have "h' a = h a" if "a \<in> set (k # zs)" for a
  proof (rule list_remove_frame [OF assms(2)])
    have "last (l # xs) \<in> set (l # xs)" "hd (ys @ [l]) \<in> set (ys @ [l])"
      by (rule last_in_set, simp) (rule hd_in_set, simp)
    moreover have "a \<notin> set (l # xs @ y # ys)" using that assms(4) by blast
    ultimately show "a \<notin> {y, l_prev (h y), l_next (h y)}"
      using is_list_links [OF assms(1)] by auto
  qed
  then have "is_list h' k zs = is_list h k zs" by (rule is_list_cong)
  with assms(3) show ?thesis by simp
qed

section \<open>Iteration\<close>

lemma list_iterate_visits:
  assumes "dseg h p xs l" and "l \<notin> set xs" and "length xs \<le> n"
    and "\<And>x a. x \<in> set xs \<Longrightarrow> body x (h, a) = Some (h, f x a)"
  shows "list_iterate n l body (l_next (h p)) (h, a) = Some (h, fold f xs a)"
  using assms
proof (induction xs arbitrary: p n a)
  case Nil
  then show ?case by (simp add: list_iterate.simps)
next
  case (Cons x xs)
  from Cons.prems(3) obtain m where m: "n = Suc m" "length xs \<le> m" by (cases n) auto
  have "list_iterate m l body (l_next (h x)) (h, f x a) = Some (h, fold f xs (f x a))"
    using Cons.prems m(2) by (intro Cons.IH) auto
  then show ?case
    using Cons.prems m by (subst list_iterate.simps) auto
qed

definition remove_current :: "nat \<Rightarrow> lheap \<times> nat list \<Rightarrow> (lheap \<times> nat list) option" where
  "remove_current link s = do { h' \<leftarrow> list_remove link (fst s); Some (h', snd s @ [link]) }"

lemma list_iterate_removes:
  assumes "is_list h l xs" and "length xs \<le> n"
  shows "\<exists>h'. list_iterate n l remove_current (l_next (h l)) (h, acc) = Some (h', acc @ xs)
           \<and> is_list h' l []"
  using assms
proof (induction xs arbitrary: h acc n)
  case Nil
  then show ?case using is_list_ends(1) [OF Nil(1)] by (simp add: list_iterate.simps)
next
  case (Cons x xs)
  from Cons.prems(2) obtain m where m: "n = Suc m" "length xs \<le> m" by (cases n) auto
  from list_remove_elem [of h l "[]" x xs] Cons.prems(1) obtain h1
    where h1: "list_remove x h = Some h1" "is_list h1 l xs" by auto
  have nx: "l_next (h l) = x" using is_list_ends(1) [OF Cons.prems(1)] by simp
  have "l_next (h x) = hd (xs @ [l])"
    using is_list_links(2) [of h l "[]" x xs] Cons.prems(1) by simp
  then have "l_next (h x) = l_next (h1 l)" using is_list_ends(1) [OF h1(2)] by simp
  with Cons.IH [OF h1(2) m(2), of "acc @ [x]"] obtain h2 where
    "list_iterate m l remove_current (l_next (h x)) (h1, acc @ [x]) = Some (h2, (acc @ [x]) @ xs)"
    "is_list h2 l []" by auto
  moreover have "x \<noteq> l" using Cons.prems(1) by (auto simp: is_list_def)
  ultimately show ?case
    using nx h1(1) m by (subst list_iterate.simps) (auto simp: remove_current_def)
qed


section \<open>The contract of a list\<close>

text \<open>
  What a user of one list relies on; \<open>holds h xs\<close> says that the list contains \<open>xs\<close>, and
  \<open>fresh n\<close> that \<open>n\<close> may be put on it.
\<close>

fun drain :: "('h \<Rightarrow> nat) \<Rightarrow> (nat \<Rightarrow> 'h \<Rightarrow> 'h option) \<Rightarrow> nat \<Rightarrow> 'h \<Rightarrow> (nat list \<times> 'h) option" where
  "drain end_of rem 0 h = Some ([], h)"
| "drain end_of rem (Suc n) h = do {
     let x = end_of h;
     h1 \<leftarrow> rem x h;
     (xs, h2) \<leftarrow> drain end_of rem n h1;
     Some (x # xs, h2)
   }"

locale link_list =
  fixes holds :: "'h \<Rightarrow> nat list \<Rightarrow> bool"
    and fresh :: "nat \<Rightarrow> bool"
    and ins_head :: "nat \<Rightarrow> 'h \<Rightarrow> 'h option"
    and ins_tail :: "nat \<Rightarrow> 'h \<Rightarrow> 'h option"
    and rem :: "nat \<Rightarrow> 'h \<Rightarrow> 'h option"
    and first :: "'h \<Rightarrow> nat"
    and final :: "'h \<Rightarrow> nat"
  assumes ins_head_law: "holds h xs \<Longrightarrow> fresh n \<Longrightarrow> n \<notin> set xs \<Longrightarrow>
      \<exists>h'. ins_head n h = Some h' \<and> holds h' (n # xs)"
    and ins_tail_law: "holds h xs \<Longrightarrow> fresh n \<Longrightarrow> n \<notin> set xs \<Longrightarrow>
      \<exists>h'. ins_tail n h = Some h' \<and> holds h' (xs @ [n])"
    and rem_law: "holds h (xs @ x # ys) \<Longrightarrow> \<exists>h'. rem x h = Some h' \<and> holds h' (xs @ ys)"
    and first_law: "holds h (x # xs) \<Longrightarrow> first h = x"
    and final_law: "holds h (xs @ [x]) \<Longrightarrow> final h = x"
begin

lemma push_all_head:
  "holds h xs \<Longrightarrow> distinct (ns @ xs) \<Longrightarrow> \<forall>n\<in>set ns. fresh n \<Longrightarrow>
     \<exists>h'. foldM ins_head ns h = Some h' \<and> holds h' (rev ns @ xs)"
proof (induction ns arbitrary: h xs)
  case Nil
  then show ?case by simp
next
  case (Cons n ns)
  from ins_head_law [OF Cons.prems(1), of n] Cons.prems obtain h1
    where 1: "ins_head n h = Some h1" "holds h1 (n # xs)" by auto
  from Cons.IH [OF 1(2)] Cons.prems obtain h2
    where "foldM ins_head ns h1 = Some h2" "holds h2 (rev ns @ n # xs)" by auto
  with 1 show ?case by simp
qed

lemma drain_final:
  "holds h xs \<Longrightarrow> \<exists>h'. drain final rem (length xs) h = Some (rev xs, h') \<and> holds h' []"
proof (induction xs arbitrary: h rule: rev_induct)
  case Nil
  then show ?case by simp
next
  case (snoc x xs)
  from rem_law [of h xs x "[]"] snoc.prems obtain h1
    where 1: "rem x h = Some h1" "holds h1 xs" by auto
  from snoc.IH [OF 1(2)] obtain h2
    where "drain final rem (length xs) h1 = Some (rev xs, h2)" "holds h2 []" by blast
  with 1 show ?case using final_law [OF snoc.prems] by simp
qed

lemma drain_first:
  "holds h xs \<Longrightarrow> \<exists>h'. drain first rem (length xs) h = Some (xs, h') \<and> holds h' []"
proof (induction xs arbitrary: h)
  case Nil
  then show ?case by simp
next
  case (Cons x xs)
  from rem_law [of h "[]" x xs] Cons.prems obtain h1
    where 1: "rem x h = Some h1" "holds h1 xs" by auto
  from Cons.IH [OF 1(2)] obtain h2
    where "drain first rem (length xs) h1 = Some (xs, h2)" "holds h2 []" by blast
  with 1 show ?case using first_law [OF Cons.prems] by simp
qed

end

interpretation kl: link_list "\<lambda>h. is_list h l" "\<lambda>n. n \<noteq> 0 \<and> n \<noteq> l" "list_insert_head l"
  "list_insert_tail l" list_remove "\<lambda>h. l_next (h l)" "\<lambda>h. l_prev (h l)" for l :: nat
proof
  fix h xs ys and n x :: nat
  show "\<exists>h'. list_insert_head l n h = Some h' \<and> is_list h' l (n # xs)"
    if "is_list h l xs" "n \<noteq> 0 \<and> n \<noteq> l" "n \<notin> set xs"
    using list_insert_head_Cons [OF that(1), of n] that(2,3) by auto
  show "\<exists>h'. list_insert_tail l n h = Some h' \<and> is_list h' l (xs @ [n])"
    if "is_list h l xs" "n \<noteq> 0 \<and> n \<noteq> l" "n \<notin> set xs"
    using list_insert_tail_snoc [OF that(1), of n] that(2,3) by auto
  show "\<exists>h'. list_remove x h = Some h' \<and> is_list h' l (xs @ ys)" if "is_list h l (xs @ x # ys)"
    using list_remove_elem [OF that] by blast
  show "l_next (h l) = x" if "is_list h l (x # xs)" using is_list_ends(1) [OF that] by simp
  show "l_prev (h l) = x" if "is_list h l (xs @ [x])" using is_list_ends(2) [OF that] by simp
qed

section \<open>Properties\<close>

text \<open>
  C37: links put at the head of an empty list one after the other and then taken from its tail come
  out in the order in which they went in, and the list is empty and well linked again.
\<close>

theorem list_head_tail_fifo:
  assumes "l \<noteq> 0" and "distinct ns" and "\<forall>n\<in>set ns. n \<noteq> 0 \<and> n \<noteq> l"
  shows "\<exists>h1 h2. foldM (list_insert_head l) ns (list_init l h) = Some h1
    \<and> drain (\<lambda>h. l_prev (h l)) list_remove (length ns) h1 = Some (ns, h2)
    \<and> is_list h1 l (rev ns) \<and> is_list h2 l [] \<and> list_empty l h2"
proof -
  have "is_list (list_init l h) l []" using list_init_is_list [OF assms(1)] .
  from kl.push_all_head [OF this] assms(2,3) obtain h1
    where 1: "foldM (list_insert_head l) ns (list_init l h) = Some h1" "is_list h1 l (rev ns)" by auto
  from kl.drain_final [OF 1(2)] obtain h2
    where 2: "drain (\<lambda>h. l_prev (h l)) list_remove (length ns) h1 = Some (ns, h2)" "is_list h2 l []"
    by auto
  moreover have "list_empty l h2" using list_empty_iff [OF 2(2)] by simp
  ultimately show ?thesis using 1 by blast
qed

theorem list_head_tail_fifo_witness:
  "\<exists>h1 h2. foldM (list_insert_head 1) [5, 3, 8] (list_init 1 (\<lambda>_. \<lparr>l_next = 0, l_prev = 0\<rparr>)) = Some h1
    \<and> drain (\<lambda>h. l_prev (h 1)) list_remove 3 h1 = Some ([5, 3, 8], h2) \<and> list_empty 1 h2"
  using list_head_tail_fifo [of 1 "[5, 3, 8]" "\<lambda>_. \<lparr>l_next = 0, l_prev = 0\<rparr>"]
  by (force simp: numeral_3_eq_3)

text \<open>
  C38: the iteration macro reads the next link before it runs its body, so a body that takes the
  current link off the list is safe: the loop ends, has visited every link exactly once and in
  order, and leaves an empty list.
\<close>

theorem list_iterate_remove_safe:
  assumes "is_list h l xs" and "length xs \<le> n"
  shows "\<exists>h'. list_iterate_all n l remove_current (h, []) = Some (h', xs) \<and> is_list h' l []"
  using list_iterate_removes [OF assms, of "[]"] by (simp add: list_iterate_all_def)

theorem list_iterate_remove_safe_witness:
  "\<exists>h h'. is_list h 1 [4, 7] \<and> list_iterate_all 2 1 remove_current (h, []) = Some (h', [4, 7])
     \<and> is_list h' 1 []"
proof -
  let ?h = "(\<lambda>_. \<lparr>l_next = 0, l_prev = 0\<rparr>)(1 := \<lparr>l_next = 4, l_prev = 7\<rparr>,
    4 := \<lparr>l_next = 7, l_prev = 1\<rparr>, 7 := \<lparr>l_next = 1, l_prev = 4\<rparr>)"
  have "is_list ?h 1 [4, 7]" by (simp add: is_list_def)
  with list_iterate_remove_safe [OF this, of 2] show ?thesis by auto
qed

end
