(* ===== verification/Sched.thy ===== *)
theory Sched
  imports Klist Context
begin

text \<open>
  The scheduler (\<^verbatim>\<open>kernel/proc/sched.c\<close>).  Threads and queues are named by the address of the
  link they put on a list: a thread by its \<^verbatim>\<open>kt_qlink\<close>, a queue by its \<^verbatim>\<open>tq_list\<close>, so that
  \<^verbatim>\<open>list_item\<close> is the identity.  The links of all queues are one heap \<open>qh\<close>.  Three things are
  arguments of the operations that reach them: \<open>intr_wait\<close>, what the interrupt handlers do to the
  state while the processor halts; \<open>do_exit\<close>, defined later with the processes; and the encoding of
  code addresses.  An operation that gives the processor away ends in the state in which another
  thread starts to run.  A thread's return value is a pointer that is null or points to an integer.
\<close>

datatype kt_state_t = KT_NO_STATE | KT_RUN | KT_SLEEP | KT_SLEEP_CANCELLABLE | KT_EXITED

record kthread =
  kt_ctx :: context_t
  kt_kstack :: nat
  kt_retval :: "int option"
  kt_errno :: int
  kt_proc :: nat
  kt_cancelled :: int
  kt_wchan :: nat
  kt_state :: kt_state_t

record sched =
  kt :: "nat \<Rightarrow> kthread"
  qh :: lheap
  tq_size :: "nat \<Rightarrow> int"
  curthr :: nat
  curproc :: nat
  ipl :: nat
  cpu_st :: cpu
  runq_fresh :: bool

definition kt_runq :: nat where "kt_runq = 1"
definition IPL_LOW :: nat where "IPL_LOW = 0"
definition IPL_HIGH :: nat where "IPL_HIGH = 255"

definition upd_kt :: "nat \<Rightarrow> (kthread \<Rightarrow> kthread) \<Rightarrow> 'a sched_scheme \<Rightarrow> 'a sched_scheme" where
  "upd_kt t f s = s\<lparr>kt := (kt s)(t := f (kt s t))\<rparr>"

definition set_state :: "nat \<Rightarrow> kt_state_t \<Rightarrow> 'a sched_scheme \<Rightarrow> 'a sched_scheme" where
  "set_state t st = upd_kt t (\<lambda>k. k\<lparr>kt_state := st\<rparr>)"

definition set_wchan :: "nat \<Rightarrow> nat \<Rightarrow> 'a sched_scheme \<Rightarrow> 'a sched_scheme" where
  "set_wchan t q = upd_kt t (\<lambda>k. k\<lparr>kt_wchan := q\<rparr>)"

definition add_size :: "nat \<Rightarrow> int \<Rightarrow> 'a sched_scheme \<Rightarrow> 'a sched_scheme" where
  "add_size q d s = s\<lparr>tq_size := (tq_size s)(q := tq_size s q + d)\<rparr>"

section \<open>Queues\<close>

definition ktqueue_enqueue :: "nat \<Rightarrow> nat \<Rightarrow> 'a sched_scheme \<Rightarrow> 'a sched_scheme option" where
  "ktqueue_enqueue q thr s = do {
     kassert (thr \<noteq> 0);
     kassert (kt_wchan (kt s thr) = 0);
     h \<leftarrow> list_insert_head q thr (qh s);
     Some (add_size q 1 (set_wchan thr q (s\<lparr>qh := h\<rparr>)))
   }"

definition ktqueue_dequeue :: "nat \<Rightarrow> 'a sched_scheme \<Rightarrow> (nat \<times> 'a sched_scheme) option" where
  "ktqueue_dequeue q s =
     (if list_empty q (qh s) then Some (0, s)
      else let thr = l_prev (qh s q) in do {
        h \<leftarrow> list_remove thr (qh s);
        Some (thr, add_size q (-1) (set_wchan thr 0 (s\<lparr>qh := h\<rparr>)))
      })"

definition ktqueue_remove :: "nat \<Rightarrow> nat \<Rightarrow> 'a sched_scheme \<Rightarrow> 'a sched_scheme option" where
  "ktqueue_remove q thr s = do {
     kassert (l_next (qh s thr) \<noteq> 0 \<and> l_prev (qh s thr) \<noteq> 0);
     h \<leftarrow> list_remove thr (qh s);
     kassert (q \<noteq> 0);
     Some (add_size q (-1) (set_wchan thr 0 (s\<lparr>qh := h\<rparr>)))
   }"

definition sched_queue_init :: "nat \<Rightarrow> 'a sched_scheme \<Rightarrow> 'a sched_scheme" where
  "sched_queue_init q s = s\<lparr>qh := list_init q (qh s), tq_size := (tq_size s)(q := 0)\<rparr>"

definition sched_queue_empty :: "nat \<Rightarrow> 'a sched_scheme \<Rightarrow> bool" where
  "sched_queue_empty q s = list_empty q (qh s)"

section \<open>Switching\<close>

definition switch_to ::
  "(code_ptr \<Rightarrow> 32 word) \<Rightarrow> nat \<Rightarrow> nat \<Rightarrow> 'a sched_scheme \<Rightarrow> 'a sched_scheme" where
  "switch_to enc old new s =
     (let (cs, p) = context_switch enc old new (\<lambda>t. kt_ctx (kt s t)) (cpu_st s)
      in (upd_kt old (\<lambda>k. k\<lparr>kt_ctx := cs old\<rparr>) s)\<lparr>cpu_st := p\<rparr>)"

text \<open>
  The inner loop of \<^verbatim>\<open>sched_switch\<close>: dequeue until a thread that has not exited comes up.  An
  empty queue makes \<^verbatim>\<open>curthr\<close> a null pointer, which the next line dereferences.
\<close>

partial_function (option) sched_pick :: "'a sched_scheme \<Rightarrow> 'a sched_scheme option" where
  [code]: "sched_pick s =
     ktqueue_dequeue kt_runq s \<bind> (\<lambda>(thr, s1).
     kassert (thr \<noteq> 0) \<bind> (\<lambda>_.
     let s2 = s1\<lparr>curthr := thr, curproc := kt_proc (kt s1 thr)\<rparr>
     in if kt_state (kt s2 thr) = KT_EXITED then sched_pick s2 else Some s2))"

partial_function (option) sched_switch ::
  "(code_ptr \<Rightarrow> 32 word) \<Rightarrow> ('a sched_scheme \<Rightarrow> 'a sched_scheme) \<Rightarrow>
   ('a sched_scheme \<Rightarrow> 'a sched_scheme option) \<Rightarrow> 'a sched_scheme \<Rightarrow> 'a sched_scheme option" where
  [code]: "sched_switch enc intr_wait do_exit s =
     (let lvl = ipl s; s1 = s\<lparr>ipl := IPL_HIGH\<rparr> in
      if list_empty kt_runq (qh s1)
      then sched_switch enc intr_wait do_exit ((intr_wait (s1\<lparr>ipl := IPL_LOW\<rparr>))\<lparr>ipl := lvl\<rparr>)
      else if tq_size s1 kt_runq > 0
      then sched_pick s1 \<bind> (\<lambda>s2.
        if kt_cancelled (kt s2 (curthr s2)) = 1 then do_exit s2
        else Some (switch_to enc (curthr s1) (curthr s2) (s2\<lparr>ipl := lvl\<rparr>)))
      else sched_switch enc intr_wait do_exit s1)"

text \<open>
  The argument \<open>switch\<close> of the operations that sleep is their call of \<^verbatim>\<open>sched_switch\<close> as the caller
  sees it: it returns, if at all, when the caller runs again.
\<close>

definition sched_sleep_on ::
  "('a sched_scheme \<Rightarrow> 'a sched_scheme option) \<Rightarrow> nat \<Rightarrow> 'a sched_scheme \<Rightarrow> 'a sched_scheme option" where
  "sched_sleep_on switch q s = do {
     let temp = curthr s;
     s1 \<leftarrow> ktqueue_enqueue q temp (set_state temp KT_SLEEP s);
     switch s1
   }"

definition sched_cancellable_sleep_on ::
  "('a sched_scheme \<Rightarrow> 'a sched_scheme option) \<Rightarrow> nat \<Rightarrow> 'a sched_scheme \<Rightarrow> (int \<times> 'a sched_scheme) option"
  where
  "sched_cancellable_sleep_on switch q s =
     (let temp = curthr s; s1 = set_state temp KT_SLEEP_CANCELLABLE s in
      if kt_cancelled (kt s1 temp) = 1 then Some (- EINTR, s1)
      else do {
        s2 \<leftarrow> ktqueue_enqueue q temp s1;
        s3 \<leftarrow> switch s2;
        Some (0, s3)
      })"

section \<open>Waking\<close>

definition sched_wakeup_on :: "nat \<Rightarrow> 'a sched_scheme \<Rightarrow> (nat \<times> 'a sched_scheme) option" where
  "sched_wakeup_on q s =
     (if list_empty q (qh s) then Some (0, s)
      else do {
        (thr, s1) \<leftarrow> ktqueue_dequeue q s;
        kassert (kt_state (kt s1 thr) = KT_SLEEP \<or> kt_state (kt s1 thr) = KT_SLEEP_CANCELLABLE);
        s2 \<leftarrow> ktqueue_enqueue kt_runq thr (set_state thr KT_RUN s1);
        Some (thr, s2)
      })"

partial_function (option) broadcast_loop ::
  "nat \<Rightarrow> 'a sched_scheme \<Rightarrow> 'a sched_scheme option" where
  [code]: "broadcast_loop q s =
     (if list_empty q (qh s) then Some s
      else ktqueue_dequeue q s \<bind> (\<lambda>(temp, s1).
           ktqueue_enqueue kt_runq temp (set_state temp KT_RUN s1) \<bind> broadcast_loop q))"

definition sched_broadcast_on :: "nat \<Rightarrow> 'a sched_scheme \<Rightarrow> 'a sched_scheme option" where
  "sched_broadcast_on q s = do { s1 \<leftarrow> broadcast_loop q s; Some (sched_queue_init q s1) }"

definition sched_cancel :: "nat \<Rightarrow> 'a sched_scheme \<Rightarrow> 'a sched_scheme option" where
  "sched_cancel kthr s =
     (if kt_state (kt s kthr) = KT_SLEEP_CANCELLABLE then do {
        let s1 = set_state kthr KT_RUN (upd_kt kthr (\<lambda>k. k\<lparr>kt_cancelled := 1\<rparr>) s);
        s2 \<leftarrow> ktqueue_remove (kt_wchan (kt s1 kthr)) kthr s1;
        ktqueue_enqueue kt_runq kthr s2
      } else Some s)"

definition sched_make_runnable ::
  "(nat \<Rightarrow> int) \<Rightarrow> nat \<Rightarrow> 'a sched_scheme \<Rightarrow> 'a sched_scheme option" where
  "sched_make_runnable p_pid thr s = do {
     kassert (kt_wchan (kt s thr) \<noteq> kt_runq);
     let s1 = (if p_pid (kt_proc (kt s thr)) = 0 \<and> runq_fresh s
               then (sched_queue_init kt_runq s)\<lparr>runq_fresh := False\<rparr> else s);
     let lvl = ipl s1;
     let s2 = set_state thr KT_RUN (s1\<lparr>ipl := IPL_HIGH\<rparr>);
     s3 \<leftarrow> ktqueue_enqueue kt_runq thr s2;
     Some (s3\<lparr>ipl := lvl\<rparr>)
   }"


section \<open>Framing\<close>

text \<open>The operations on queues leave everything outside the scheduler as it is.\<close>

lemma sched_upd_more [simp]:
  "sched.more (upd_kt t f s) = sched.more s" "sched.more (set_state t st s) = sched.more s"
  "sched.more (set_wchan t q s) = sched.more s" "sched.more (add_size q d s) = sched.more s"
  "sched.more (sched_queue_init q s) = sched.more s"
  by (simp_all add: upd_kt_def set_state_def set_wchan_def add_size_def sched_queue_init_def)

lemma ktqueue_enqueue_more: "ktqueue_enqueue q t s = Some s' \<Longrightarrow> sched.more s' = sched.more s"
  by (auto simp: ktqueue_enqueue_def kassert_def split: if_splits Option.bind_splits)

lemma ktqueue_dequeue_more: "ktqueue_dequeue q s = Some (t, s') \<Longrightarrow> sched.more s' = sched.more s"
  by (auto simp: ktqueue_dequeue_def Let_def split: if_splits Option.bind_splits)

lemma ktqueue_remove_more: "ktqueue_remove q t s = Some s' \<Longrightarrow> sched.more s' = sched.more s"
  by (auto simp: ktqueue_remove_def kassert_def split: if_splits Option.bind_splits)

lemma broadcast_loop_more:
  fixes s :: "'a sched_scheme"
  assumes "broadcast_loop q s = Some s'"
  shows "sched.more s' = sched.more s"
proof (rule broadcast_loop.raw_induct [where P = "\<lambda>q s s'. sched.more s' = sched.more s", OF _ assms])
  fix loop :: "nat \<Rightarrow> 'a sched_scheme \<Rightarrow> 'a sched_scheme option" and q s s'
  assume IH: "\<And>q s s'. loop q s = Some s' \<Longrightarrow> sched.more s' = sched.more s"
    and body: "(if list_empty q (qh s) then Some s
      else ktqueue_dequeue q s \<bind> (\<lambda>(temp, s1).
           ktqueue_enqueue kt_runq temp (set_state temp KT_RUN s1) \<bind> loop q)) = Some s'"
  show "sched.more s' = sched.more s"
  proof (cases "list_empty q (qh s)")
    case True
    then show ?thesis using body by simp
  next
    case False
    with body obtain x where x: "ktqueue_dequeue q s = Some x"
      "ktqueue_enqueue kt_runq (fst x) (set_state (fst x) KT_RUN (snd x)) \<bind> loop q = Some s'"
      by (cases "ktqueue_dequeue q s") (simp_all add: case_prod_beta)
    then obtain s2 where s2: "ktqueue_enqueue kt_runq (fst x) (set_state (fst x) KT_RUN (snd x)) = Some s2"
      "loop q s2 = Some s'"
      by (cases "ktqueue_enqueue kt_runq (fst x) (set_state (fst x) KT_RUN (snd x))") simp_all
    have "sched.more s' = sched.more s2" using IH [OF s2(2)] .
    also have "\<dots> = sched.more (snd x)" using ktqueue_enqueue_more [OF s2(1)] by simp
    also have "\<dots> = sched.more s" using ktqueue_dequeue_more [of q s "fst x" "snd x"] x(1) by simp
    finally show ?thesis .
  qed
qed

lemma sched_broadcast_on_more: "sched_broadcast_on q s = Some s' \<Longrightarrow> sched.more s' = sched.more s"
  by (auto simp: sched_broadcast_on_def broadcast_loop_more split: Option.bind_splits)

lemma sched_wakeup_on_more: "sched_wakeup_on q s = Some (t, s') \<Longrightarrow> sched.more s' = sched.more s"
  by (auto simp: sched_wakeup_on_def kassert_def ktqueue_dequeue_more
      dest!: ktqueue_enqueue_more split: if_splits Option.bind_splits)

lemma sched_cancel_more: "sched_cancel t s = Some s' \<Longrightarrow> sched.more s' = sched.more s"
  by (auto simp: sched_cancel_def Let_def dest!: ktqueue_enqueue_more ktqueue_remove_more
      split: if_splits Option.bind_splits)

section \<open>The queue abstraction\<close>

text \<open>
  \<open>sched_ok L Q s\<close>: \<open>L\<close> are the queues in use, \<open>Q\<close> their threads from the most recently to the
  least recently enqueued one.  Every queue's links form that list, its size is the list's length,
  and a thread is on a queue exactly when \<^verbatim>\<open>kt_wchan\<close> says so.
\<close>

definition sched_ok :: "nat set \<Rightarrow> (nat \<Rightarrow> nat list) \<Rightarrow> 'a sched_scheme \<Rightarrow> bool" where
  "sched_ok L Q s \<longleftrightarrow> 0 \<notin> L \<and> kt_runq \<in> L \<and>
     (\<forall>q\<in>L. is_list (qh s) q (Q q) \<and> tq_size s q = int (length (Q q)) \<and> set (Q q) \<inter> L = {}) \<and>
     (\<forall>q\<in>L. \<forall>t. t \<in> set (Q q) \<longleftrightarrow> kt_wchan (kt s t) = q)"

lemmas sched_upd_defs = upd_kt_def set_state_def set_wchan_def add_size_def

lemma sched_upd_sel [simp]:
  "qh (upd_kt t f s) = qh s" "tq_size (upd_kt t f s) = tq_size s"
  "curthr (upd_kt t f s) = curthr s" "curproc (upd_kt t f s) = curproc s" "ipl (upd_kt t f s) = ipl s"
  "cpu_st (upd_kt t f s) = cpu_st s" "runq_fresh (upd_kt t f s) = runq_fresh s"
  "kt (upd_kt t f s) = (kt s)(t := f (kt s t))"
  "qh (set_state t st s) = qh s" "tq_size (set_state t st s) = tq_size s"
  "curthr (set_state t st s) = curthr s" "curproc (set_state t st s) = curproc s"
  "ipl (set_state t st s) = ipl s" "cpu_st (set_state t st s) = cpu_st s"
  "runq_fresh (set_state t st s) = runq_fresh s"
  "kt (set_state t st s) = (kt s)(t := (kt s t)\<lparr>kt_state := st\<rparr>)"
  "qh (set_wchan t q s) = qh s" "tq_size (set_wchan t q s) = tq_size s"
  "curthr (set_wchan t q s) = curthr s" "curproc (set_wchan t q s) = curproc s"
  "ipl (set_wchan t q s) = ipl s" "cpu_st (set_wchan t q s) = cpu_st s"
  "runq_fresh (set_wchan t q s) = runq_fresh s"
  "kt (set_wchan t q s) = (kt s)(t := (kt s t)\<lparr>kt_wchan := q\<rparr>)"
  "qh (add_size q d s) = qh s" "tq_size (add_size q d s) = (tq_size s)(q := tq_size s q + d)"
  "curthr (add_size q d s) = curthr s" "curproc (add_size q d s) = curproc s"
  "ipl (add_size q d s) = ipl s" "cpu_st (add_size q d s) = cpu_st s"
  "runq_fresh (add_size q d s) = runq_fresh s" "kt (add_size q d s) = kt s"
  by (simp_all add: sched_upd_defs)

lemma sched_ok_cong:
  assumes "qh s' = qh s" and "tq_size s' = tq_size s"
    and "\<And>t. kt_wchan (kt s' t) = kt_wchan (kt s t)"
  shows "sched_ok L Q s' = sched_ok L Q s"
  using assms by (simp add: sched_ok_def)

lemma sched_ok_set_state [simp]: "sched_ok L Q (set_state t st s) = sched_ok L Q s"
  by (rule sched_ok_cong) auto

lemma sched_ok_runq: "sched_ok L Q s \<Longrightarrow> kt_runq \<in> L"
  by (simp add: sched_ok_def)

lemma sched_ok_list: "sched_ok L Q s \<Longrightarrow> q \<in> L \<Longrightarrow> is_list (qh s) q (Q q)"
  by (simp add: sched_ok_def)

lemma sched_ok_empty:
  "sched_ok L Q s \<Longrightarrow> q \<in> L \<Longrightarrow> list_empty q (qh s) \<longleftrightarrow> Q q = []"
  by (simp add: sched_ok_def list_empty_iff)

lemma sched_ok_member:
  assumes "sched_ok L Q s" and "q \<in> L" and "t \<in> set (Q q)"
  shows "t \<noteq> 0" and "t \<notin> L" and "kt_wchan (kt s t) = q" and "q' \<in> L \<Longrightarrow> q' \<noteq> q \<Longrightarrow> t \<notin> set (Q q')"
proof -
  show "t \<noteq> 0" using sched_ok_list [OF assms(1,2)] assms(3)
    by (intro notI) (auto simp: is_list_def)
qed (use assms in \<open>auto simp: sched_ok_def\<close>)

lemma sched_ok_distinct: "sched_ok L Q s \<Longrightarrow> q \<in> L \<Longrightarrow> distinct (Q q)"
  by (simp add: sched_ok_def is_list_def)

text \<open>The lists of two different queues share no link.\<close>

lemma sched_ok_apart:
  assumes "sched_ok L Q s" and "q \<in> L" and "q' \<in> L" and "q \<noteq> q'"
  shows "set (q # Q q) \<inter> set (q' # Q q') = {}"
proof -
  have "set (Q q) \<inter> set (Q q') = {}"
  proof (rule ccontr)
    assume "set (Q q) \<inter> set (Q q') \<noteq> {}"
    then obtain t where "t \<in> set (Q q)" "t \<in> set (Q q')" by blast
    then show False using assms by (auto simp: sched_ok_def)
  qed
  moreover have "q \<notin> set (Q q')" "q' \<notin> set (Q q)"
    using assms by (auto simp: sched_ok_def)
  ultimately show ?thesis using assms(4) by auto
qed

lemma sched_ok_enqueue:
  assumes ok: "sched_ok L Q s" and q: "q \<in> L" and t: "t \<noteq> 0" "t \<notin> L" "kt_wchan (kt s t) = 0"
  shows "\<exists>h. ktqueue_enqueue q t s = Some (add_size q 1 (set_wchan t q (s\<lparr>qh := h\<rparr>)))
           \<and> sched_ok L (Q(q := t # Q q)) (add_size q 1 (set_wchan t q (s\<lparr>qh := h\<rparr>)))"
proof -
  have il: "is_list (qh s) q (Q q)" using ok q by (simp add: sched_ok_def)
  have nin: "t \<notin> set (Q q')" if "q' \<in> L" for q'
    using ok t(3) that by (auto simp: sched_ok_def)
  then have nq: "t \<notin> set (q # Q q)" using q t(2) by auto
  from list_insert_head_Cons [OF il t(1) nq] obtain h
    where h: "list_insert_head q t (qh s) = Some h" "is_list h q (t # Q q)" by blast
  have other: "is_list h q' (Q q')" if "q' \<in> L" "q' \<noteq> q" for q'
  proof (rule list_insert_head_separate [OF il nq h(1)])
    show "is_list (qh s) q' (Q q')" using ok that by (simp add: sched_ok_def)
    show "set (q' # Q q') \<inter> set (t # q # Q q) = {}"
      using sched_ok_apart [OF ok that(1) q that(2)] nin [OF that(1)] that(1) t(2) by auto
  qed
  have "sched_ok L (Q(q := t # Q q)) (add_size q 1 (set_wchan t q (s\<lparr>qh := h\<rparr>)))"
    using ok h(2) other t nin q unfolding sched_ok_def by auto
  with h(1) t show ?thesis by (auto simp: ktqueue_enqueue_def)
qed

text \<open>Taking any thread off its queue; dequeuing takes the oldest.\<close>

lemma sched_ok_unlink:
  assumes ok: "sched_ok L Q s" and q: "q \<in> L" and Q: "Q q = xs @ t # ys"
  shows "\<exists>h. list_remove t (qh s) = Some h
           \<and> sched_ok L (Q(q := xs @ ys)) (add_size q (-1) (set_wchan t 0 (s\<lparr>qh := h\<rparr>)))"
proof -
  have il: "is_list (qh s) q (xs @ t # ys)" using sched_ok_list [OF ok q] Q by simp
  from list_remove_elem [OF il] obtain h
    where h: "list_remove t (qh s) = Some h" "is_list h q (xs @ ys)" by blast
  have other: "is_list h q' (Q q')" if "q' \<in> L" "q' \<noteq> q" for q'
  proof (rule list_remove_separate [OF il h(1)])
    show "is_list (qh s) q' (Q q')" using ok that by (simp add: sched_ok_def)
    show "set (q' # Q q') \<inter> set (q # xs @ t # ys) = {}"
      using sched_ok_apart [OF ok that(1) q that(2)] Q by simp
  qed
  have nin: "t \<notin> set (Q q')" if "q' \<in> L" "q' \<noteq> q" for q'
    using sched_ok_member(4) [OF ok q _ that] Q by auto
  have on: "\<forall>t'. t' \<in> set (xs @ t # ys) \<longleftrightarrow> kt_wchan (kt s t') = q" "set (xs @ t # ys) \<inter> L = {}"
    "tq_size s q = int (length (xs @ t # ys))"
    using ok q unfolding sched_ok_def Q [symmetric] by auto
  have "t \<notin> set (xs @ ys)" using sched_ok_distinct [OF ok q] Q by simp
  then have "sched_ok L (Q(q := xs @ ys)) (add_size q (-1) (set_wchan t 0 (s\<lparr>qh := h\<rparr>)))"
    using ok h(2) other nin q on unfolding sched_ok_def by auto
  with h(1) show ?thesis by blast
qed

lemma sched_ok_dequeue:
  assumes "sched_ok L Q s" and "q \<in> L" and "Q q = xs @ [t]"
  shows "\<exists>h. ktqueue_dequeue q s = Some (t, add_size q (-1) (set_wchan t 0 (s\<lparr>qh := h\<rparr>)))
           \<and> sched_ok L (Q(q := xs)) (add_size q (-1) (set_wchan t 0 (s\<lparr>qh := h\<rparr>)))"
proof -
  have "l_prev (qh s q) = t"
    using is_list_ends(2) [OF sched_ok_list [OF assms(1,2)]] assms(3) by simp
  moreover have "\<not> list_empty q (qh s)" using assms by (simp add: sched_ok_empty)
  ultimately show ?thesis
    using sched_ok_unlink [OF assms(1,2), of xs t "[]"] assms(3)
    by (auto simp: ktqueue_dequeue_def Let_def)
qed

lemma sched_ok_remove:
  assumes "sched_ok L Q s" and "q \<in> L" and "Q q = xs @ t # ys"
  shows "\<exists>h. ktqueue_remove q t s = Some (add_size q (-1) (set_wchan t 0 (s\<lparr>qh := h\<rparr>)))
           \<and> sched_ok L (Q(q := xs @ ys)) (add_size q (-1) (set_wchan t 0 (s\<lparr>qh := h\<rparr>)))"
proof -
  have il: "is_list (qh s) q (xs @ t # ys)" using sched_ok_list [OF assms(1,2)] assms(3) by simp
  moreover have "q \<noteq> 0" using il by (simp add: is_list_def)
  moreover have "l_next (qh s t) \<noteq> 0" "l_prev (qh s t) \<noteq> 0"
    using is_list_links [OF il] is_list_nz(1) [OF il] is_list_nz(2) [of "qh s" q "xs @ [t]" ys] il
    by auto
  ultimately show ?thesis
    using sched_ok_unlink [OF assms] by (auto simp: ktqueue_remove_def)
qed


section \<open>The contract of the queues\<close>

text \<open>
  What the callers of the queues rely on: \<open>rel Q s\<close> ties the queues' contents to the state,
  \<open>off t s\<close> says that a thread is on no queue, \<open>fits q t s\<close> that its state suits queue \<open>q\<close>.
\<close>

locale thread_queue =
  fixes rel :: "(nat \<Rightarrow> nat list) \<Rightarrow> 's \<Rightarrow> bool"
    and live :: "nat set"
    and run :: nat
    and is_empty :: "nat \<Rightarrow> 's \<Rightarrow> bool"
    and enq :: "nat \<Rightarrow> nat \<Rightarrow> 's \<Rightarrow> 's option"
    and deq :: "nat \<Rightarrow> 's \<Rightarrow> (nat \<times> 's) option"
    and mark :: "nat \<Rightarrow> 's \<Rightarrow> 's"
    and off :: "nat \<Rightarrow> 's \<Rightarrow> bool"
    and fits :: "nat \<Rightarrow> nat \<Rightarrow> 's \<Rightarrow> bool"
  assumes run_live: "rel Q s \<Longrightarrow> run \<in> live"
    and empty_law: "rel Q s \<Longrightarrow> q \<in> live \<Longrightarrow> is_empty q s \<longleftrightarrow> Q q = []"
    and deq_law: "rel Q s \<Longrightarrow> q \<in> live \<Longrightarrow> Q q = xs @ [t] \<Longrightarrow>
      \<exists>s'. deq q s = Some (t, s') \<and> rel (Q(q := xs)) s' \<and> off t s' \<and> fits q t s'"
    and enq_law: "rel Q s \<Longrightarrow> q \<in> live \<Longrightarrow> off t s \<Longrightarrow> fits q t s \<Longrightarrow>
      \<exists>s'. enq q t s = Some s' \<and> rel (Q(q := t # Q q)) s'"
    and mark_law: "rel Q s \<Longrightarrow> off t s \<Longrightarrow> rel Q (mark t s) \<and> off t (mark t s) \<and> fits run t (mark t s)"
begin

lemma transfer_oldest:
  assumes "rel Q s" and "q \<in> live" and "q \<noteq> run" and "Q q = xs @ [t]"
  shows "\<exists>s1 s'. deq q s = Some (t, s1) \<and> fits q t s1 \<and> enq run t (mark t s1) = Some s'
           \<and> rel (Q(q := xs, run := t # Q run)) s'"
proof -
  from deq_law [OF assms(1,2,4)] obtain s1
    where 1: "deq q s = Some (t, s1)" "rel (Q(q := xs)) s1" "off t s1" "fits q t s1" by blast
  from mark_law [OF 1(2,3)] have "rel (Q(q := xs)) (mark t s1)" "off t (mark t s1)"
    "fits run t (mark t s1)" by auto
  from enq_law [OF this(1) run_live [OF this(1)] this(2,3)] 1(1,4) assms(3) show ?thesis by auto
qed

lemma transfer_all:
  assumes step: "\<And>s. F s = (if is_empty q s then Some s
                         else deq q s \<bind> (\<lambda>(t, s1). enq run t (mark t s1) \<bind> F))"
    and q: "q \<in> live" "q \<noteq> run"
  shows "rel Q s \<Longrightarrow> \<exists>s'. F s = Some s' \<and> rel (Q(q := [], run := Q q @ Q run)) s'"
proof (induction "Q q" arbitrary: Q s rule: rev_induct)
  case Nil
  then have e: "Q(q := [], run := Q q @ Q run) = Q" by auto
  have "F s = Some s" using step [of s] empty_law [OF Nil(2) q(1)] Nil(1) by simp
  then show ?case unfolding e using Nil(2) by simp
next
  case (snoc t xs)
  let ?Q = "Q(q := xs, run := t # Q run)"
  have Qq: "Q q = xs @ [t]" using snoc.hyps(2) by simp
  from transfer_oldest [OF snoc.prems q Qq] obtain s1 s2
    where 1: "deq q s = Some (t, s1)" "enq run t (mark t s1) = Some s2" "rel ?Q s2" by blast
  have "xs = ?Q q" using q(2) by simp
  from snoc.hyps(1) [OF this 1(3)] obtain s'
    where 2: "F s2 = Some s'" "rel (?Q(q := [], run := ?Q q @ ?Q run)) s'" by blast
  have "?Q(q := [], run := ?Q q @ ?Q run) = Q(q := [], run := Q q @ Q run)"
    using q(2) Qq by auto
  moreover have "\<not> is_empty q s" using empty_law [OF snoc.prems q(1)] Qq by simp
  ultimately show ?case using 1 2 step [of s] by auto
qed

end

text \<open>
  The full invariant adds the thread states: runnable on the run queue, asleep on any other.
\<close>

definition fits_state :: "nat \<Rightarrow> nat \<Rightarrow> 'a sched_scheme \<Rightarrow> bool" where
  "fits_state q t s \<longleftrightarrow> (if q = kt_runq then kt_state (kt s t) = KT_RUN
     else kt_state (kt s t) = KT_SLEEP \<or> kt_state (kt s t) = KT_SLEEP_CANCELLABLE)"

definition sched_inv :: "nat set \<Rightarrow> (nat \<Rightarrow> nat list) \<Rightarrow> 'a sched_scheme \<Rightarrow> bool" where
  "sched_inv L Q s \<longleftrightarrow> sched_ok L Q s \<and> (\<forall>q\<in>L. \<forall>t\<in>set (Q q). fits_state q t s)"

definition off_queue :: "nat set \<Rightarrow> nat \<Rightarrow> 'a sched_scheme \<Rightarrow> bool" where
  "off_queue L t s \<longleftrightarrow> t \<noteq> 0 \<and> t \<notin> L \<and> kt_wchan (kt s t) = 0"

lemma sched_inv_ok: "sched_inv L Q s \<Longrightarrow> sched_ok L Q s"
  by (simp add: sched_inv_def)

lemma fits_state_cong: "kt_state (kt s' t) = kt_state (kt s t) \<Longrightarrow> fits_state q t s' = fits_state q t s"
  by (simp add: fits_state_def)

lemma off_queue_not_on: "sched_ok L Q s \<Longrightarrow> off_queue L t s \<Longrightarrow> q \<in> L \<Longrightarrow> t \<notin> set (Q q)"
  by (auto simp: sched_ok_def off_queue_def)

lemma sched_inv_enqueue:
  assumes "sched_inv L Q s" and "q \<in> L" and "off_queue L t s" and "fits_state q t s"
  shows "\<exists>h. ktqueue_enqueue q t s = Some (add_size q 1 (set_wchan t q (s\<lparr>qh := h\<rparr>)))
           \<and> sched_inv L (Q(q := t # Q q)) (add_size q 1 (set_wchan t q (s\<lparr>qh := h\<rparr>)))"
proof -
  from sched_ok_enqueue [OF sched_inv_ok [OF assms(1)] assms(2)] assms(3) obtain h where
    h: "ktqueue_enqueue q t s = Some (add_size q 1 (set_wchan t q (s\<lparr>qh := h\<rparr>)))"
      "sched_ok L (Q(q := t # Q q)) (add_size q 1 (set_wchan t q (s\<lparr>qh := h\<rparr>)))"
    by (auto simp: off_queue_def)
  have "fits_state q' u (add_size q 1 (set_wchan t q (s\<lparr>qh := h\<rparr>))) = fits_state q' u s" for q' u
    by (rule fits_state_cong) simp
  then show ?thesis using h assms by (auto simp: sched_inv_def)
qed

lemma sched_inv_dequeue:
  assumes "sched_inv L Q s" and "q \<in> L" and "Q q = xs @ [t]"
  shows "\<exists>h. ktqueue_dequeue q s = Some (t, add_size q (-1) (set_wchan t 0 (s\<lparr>qh := h\<rparr>)))
           \<and> sched_inv L (Q(q := xs)) (add_size q (-1) (set_wchan t 0 (s\<lparr>qh := h\<rparr>)))
           \<and> off_queue L t (add_size q (-1) (set_wchan t 0 (s\<lparr>qh := h\<rparr>)))
           \<and> fits_state q t (add_size q (-1) (set_wchan t 0 (s\<lparr>qh := h\<rparr>)))"
proof -
  from sched_ok_dequeue [OF sched_inv_ok [OF assms(1)] assms(2,3)] obtain h where
    h: "ktqueue_dequeue q s = Some (t, add_size q (-1) (set_wchan t 0 (s\<lparr>qh := h\<rparr>)))"
      "sched_ok L (Q(q := xs)) (add_size q (-1) (set_wchan t 0 (s\<lparr>qh := h\<rparr>)))" by blast
  have fit: "fits_state q' u (add_size q (-1) (set_wchan t 0 (s\<lparr>qh := h\<rparr>))) = fits_state q' u s"
    for q' u by (rule fits_state_cong) simp
  have "t \<in> set (Q q)" using assms(3) by simp
  note m = sched_ok_member [OF sched_inv_ok [OF assms(1)] assms(2) this]
  show ?thesis using h assms m(1,2) by (auto simp: sched_inv_def fit off_queue_def)
qed

lemma sched_inv_off_update:
  assumes "sched_inv L Q s" and "off_queue L t s" and "\<And>k. kt_wchan (f k) = kt_wchan k"
  shows "sched_inv L Q (upd_kt t f s)"
proof -
  have "sched_ok L Q (upd_kt t f s)"
    using sched_inv_ok [OF assms(1)] by (subst sched_ok_cong [of _ s]) (auto simp: assms(3))
  moreover have "fits_state q u (upd_kt t f s)" if "q \<in> L" "u \<in> set (Q q)" for q u
  proof -
    have "u \<noteq> t" using off_queue_not_on [OF sched_inv_ok [OF assms(1)] assms(2) that(1)] that(2) by blast
    then have "fits_state q u (upd_kt t f s) = fits_state q u s" by (intro fits_state_cong) simp
    then show ?thesis using assms(1) that by (simp add: sched_inv_def)
  qed
  ultimately show ?thesis by (simp add: sched_inv_def)
qed


interpretation rq: thread_queue "sched_inv L" L kt_runq "\<lambda>q s. list_empty q (qh s)"
  ktqueue_enqueue ktqueue_dequeue "\<lambda>t. set_state t KT_RUN" "off_queue L" fits_state
  for L :: "nat set"
proof
  fix Q and s :: "'a sched_scheme" and q t :: nat and xs
  assume inv: "sched_inv L Q s"
  then show "kt_runq \<in> L" using sched_ok_runq sched_inv_ok by blast
  show "list_empty q (qh s) = (Q q = [])" if "q \<in> L"
    using sched_ok_empty [OF sched_inv_ok [OF inv] that] .
  show "\<exists>s'. ktqueue_dequeue q s = Some (t, s') \<and> sched_inv L (Q(q := xs)) s' \<and> off_queue L t s'
      \<and> fits_state q t s'" if "q \<in> L" "Q q = xs @ [t]"
    using sched_inv_dequeue [OF inv that] by blast
  show "\<exists>s'. ktqueue_enqueue q t s = Some s' \<and> sched_inv L (Q(q := t # Q q)) s'"
    if "q \<in> L" "off_queue L t s" "fits_state q t s"
    using sched_inv_enqueue [OF inv that] by blast
  show "sched_inv L Q (set_state t KT_RUN s) \<and> off_queue L t (set_state t KT_RUN s)
      \<and> fits_state kt_runq t (set_state t KT_RUN s)" if "off_queue L t s"
    using sched_inv_off_update [OF inv that, of "\<lambda>k. k\<lparr>kt_state := KT_RUN\<rparr>"] that
    by (simp add: set_state_def off_queue_def fits_state_def)
qed

section \<open>Waking up\<close>

lemma sched_wakeup_on_inv:
  assumes "sched_inv L Q s" and "q \<in> L" and "q \<noteq> kt_runq" and "Q q = xs @ [t]"
  shows "\<exists>s'. sched_wakeup_on q s = Some (t, s')
           \<and> sched_inv L (Q(q := xs, kt_runq := t # Q kt_runq)) s'"
proof -
  from rq.transfer_oldest [OF assms] obtain s1 s'
    where "ktqueue_dequeue q s = Some (t, s1)" "fits_state q t s1"
      "ktqueue_enqueue kt_runq t (set_state t KT_RUN s1) = Some s'"
      "sched_inv L (Q(q := xs, kt_runq := t # Q kt_runq)) s'" by blast
  moreover have "\<not> list_empty q (qh s)"
    using sched_ok_empty [OF sched_inv_ok [OF assms(1)] assms(2)] assms(4) by simp
  ultimately show ?thesis using assms(3) by (auto simp: sched_wakeup_on_def fits_state_def)
qed

lemma sched_ok_queue_init:
  assumes "sched_ok L Q s" and "q \<in> L" and "Q q = []"
  shows "sched_ok L Q (sched_queue_init q s)"
proof -
  have "is_list (list_init q (qh s)) q' (Q q')" if "q' \<in> L" for q'
  proof (cases "q' = q")
    case True
    have "q \<noteq> 0" using sched_ok_list [OF assms(1,2)] by (simp add: is_list_def)
    then show ?thesis using True assms(3) list_init_is_list by simp
  next
    case False
    have "list_init q (qh s) a = qh s a" if "a \<in> set (q' # Q q')" for a
      using sched_ok_apart [OF assms(1) \<open>q' \<in> L\<close> assms(2) False] that
      by (auto simp: list_init_def link_defs)
    then show ?thesis using is_list_cong sched_ok_list [OF assms(1) \<open>q' \<in> L\<close>] by blast
  qed
  then show ?thesis using assms by (auto simp: sched_ok_def sched_queue_init_def)
qed

lemma sched_broadcast_on_inv:
  assumes "sched_inv L Q s" and "q \<in> L" and "q \<noteq> kt_runq"
  shows "\<exists>s'. sched_broadcast_on q s = Some s'
           \<and> sched_inv L (Q(q := [], kt_runq := Q q @ Q kt_runq)) s'"
proof -
  let ?Q = "Q(q := [], kt_runq := Q q @ Q kt_runq)"
  from rq.transfer_all [OF broadcast_loop.simps assms(2,3,1)]
  obtain s1 where s1: "broadcast_loop q s = Some s1" "sched_inv L ?Q s1" by blast
  have "sched_ok L ?Q (sched_queue_init q s1)"
    using sched_ok_queue_init [OF sched_inv_ok [OF s1(2)] assms(2)] assms(3) by simp
  moreover have "fits_state q' t (sched_queue_init q s1) = fits_state q' t s1" for q' t
    by (rule fits_state_cong) (simp add: sched_queue_init_def)
  ultimately have "sched_inv L ?Q (sched_queue_init q s1)"
    using s1(2) by (simp add: sched_inv_def)
  then show ?thesis using s1(1) by (simp add: sched_broadcast_on_def)
qed


section \<open>Cancelling and making runnable\<close>

lemma sched_inv_remove:
  assumes "sched_inv L Q s" and "q \<in> L" and "Q q = xs @ t # ys"
  shows "\<exists>s'. ktqueue_remove q t s = Some s' \<and> sched_inv L (Q(q := xs @ ys)) s' \<and> off_queue L t s'
           \<and> (\<forall>u. kt s' u = (if u = t then (kt s u)\<lparr>kt_wchan := 0\<rparr> else kt s u))"
proof -
  from sched_ok_remove [OF sched_inv_ok [OF assms(1)] assms(2,3)] obtain h where
    h: "ktqueue_remove q t s = Some (add_size q (-1) (set_wchan t 0 (s\<lparr>qh := h\<rparr>)))"
      "sched_ok L (Q(q := xs @ ys)) (add_size q (-1) (set_wchan t 0 (s\<lparr>qh := h\<rparr>)))" by blast
  have fit: "fits_state q' u (add_size q (-1) (set_wchan t 0 (s\<lparr>qh := h\<rparr>))) = fits_state q' u s"
    for q' u by (rule fits_state_cong) simp
  have "t \<in> set (Q q)" using assms(3) by simp
  note m = sched_ok_member [OF sched_inv_ok [OF assms(1)] assms(2) this]
  show ?thesis using h assms m(1,2) by (auto simp: sched_inv_def fit off_queue_def)
qed

text \<open>
  The flag and the state a cancelled thread gets are written while it is still linked; removing it
  right after makes the order irrelevant.
\<close>

lemma ktqueue_remove_upd:
  assumes "\<And>k w. f (k\<lparr>kt_wchan := w\<rparr>) = (f k)\<lparr>kt_wchan := w\<rparr>"
  shows "ktqueue_remove q t (upd_kt t f s) = map_option (upd_kt t f) (ktqueue_remove q t s)"
proof -
  have "add_size q d (set_wchan t 0 ((upd_kt t f s)\<lparr>qh := h\<rparr>))
      = upd_kt t f (add_size q d (set_wchan t 0 (s\<lparr>qh := h\<rparr>)))" for d h
    by (simp add: sched_upd_defs assms)
  then show ?thesis
    by (simp add: ktqueue_remove_def kassert_def map_option_case split: option.split Option.bind_split)
qed

definition cancelled_run :: "kthread \<Rightarrow> kthread" where
  "cancelled_run k = k\<lparr>kt_cancelled := 1, kt_state := KT_RUN\<rparr>"

lemma set_state_cancelled: "set_state t KT_RUN (upd_kt t (\<lambda>k. k\<lparr>kt_cancelled := 1\<rparr>) s) = upd_kt t cancelled_run s"
  by (simp add: sched_upd_defs cancelled_run_def)

lemma sched_cancel_inv:
  assumes "sched_inv L Q s" and "q \<in> L" and "q \<noteq> kt_runq" and "Q q = xs @ t # ys"
    and "kt_state (kt s t) = KT_SLEEP_CANCELLABLE"
  shows "\<exists>s'. sched_cancel t s = Some s'
           \<and> sched_inv L (Q(q := xs @ ys, kt_runq := t # Q kt_runq)) s'
           \<and> kt s' = (kt s)(t := (kt s t)\<lparr>kt_cancelled := 1, kt_state := KT_RUN, kt_wchan := kt_runq\<rparr>)"
proof -
  from sched_inv_remove [OF assms(1,2,4)] obtain s1 where
    1: "ktqueue_remove q t s = Some s1" "sched_inv L (Q(q := xs @ ys)) s1" "off_queue L t s1"
      "\<And>u. kt s1 u = (if u = t then (kt s u)\<lparr>kt_wchan := 0\<rparr> else kt s u)" by blast
  let ?s2 = "upd_kt t cancelled_run s1"
  have 2: "sched_inv L (Q(q := xs @ ys)) ?s2"
    by (rule sched_inv_off_update [OF 1(2,3)]) (simp add: cancelled_run_def)
  have 3: "off_queue L t ?s2" "fits_state kt_runq t ?s2"
    using 1(3) by (simp_all add: off_queue_def fits_state_def cancelled_run_def)
  from sched_inv_enqueue [OF 2 rq.run_live [OF assms(1)] 3] obtain h where
    4: "ktqueue_enqueue kt_runq t ?s2 = Some (add_size kt_runq 1 (set_wchan t kt_runq (?s2\<lparr>qh := h\<rparr>)))"
      "sched_inv L (Q(q := xs @ ys, kt_runq := t # Q kt_runq))
         (add_size kt_runq 1 (set_wchan t kt_runq (?s2\<lparr>qh := h\<rparr>)))"
    using assms(3) by auto
  have "kt_wchan (kt s t) = q"
    using sched_ok_member(3) [OF sched_inv_ok [OF assms(1)] assms(2)] assms(4) by simp
  then have "ktqueue_remove (kt_wchan (kt (upd_kt t cancelled_run s) t)) t (upd_kt t cancelled_run s)
      = Some ?s2"
    using 1(1) by (subst ktqueue_remove_upd) (simp_all add: cancelled_run_def)
  then have "sched_cancel t s = Some (add_size kt_runq 1 (set_wchan t kt_runq (?s2\<lparr>qh := h\<rparr>)))"
    using 4(1) assms(5) by (simp add: sched_cancel_def set_state_cancelled)
  with 4(2) show ?thesis by (auto simp: 1(4) cancelled_run_def fun_eq_iff)
qed

text \<open>
  The very first thread to be made runnable belongs to the idle process and initialises the run
  queue; from then on the queue is kept.
\<close>

lemma sched_make_runnable_inv:
  assumes "sched_inv L Q s" and "off_queue L t s" and "\<not> runq_fresh s"
  shows "\<exists>s'. sched_make_runnable pid t s = Some s' \<and> sched_inv L (Q(kt_runq := t # Q kt_runq)) s'
           \<and> ipl s' = ipl s \<and> curthr s' = curthr s"
proof -
  let ?s1 = "set_state t KT_RUN (s\<lparr>ipl := IPL_HIGH\<rparr>)"
  have inv0: "sched_inv L Q (s\<lparr>ipl := i\<rparr>) = sched_inv L Q s" for Q i and s :: "'a sched_scheme"
    by (simp add: sched_inv_def sched_ok_def fits_state_def)
  have "sched_inv L Q ?s1" and off: "off_queue L t ?s1" and fit: "fits_state kt_runq t ?s1"
    using rq.mark_law [of L Q "s\<lparr>ipl := IPL_HIGH\<rparr>" t] assms(1,2) inv0
    by (simp_all add: off_queue_def)
  from sched_inv_enqueue [OF this(1) rq.run_live [OF assms(1)] off fit] obtain h where
    h: "ktqueue_enqueue kt_runq t ?s1 = Some (add_size kt_runq 1 (set_wchan t kt_runq (?s1\<lparr>qh := h\<rparr>)))"
      "sched_inv L (Q(kt_runq := t # Q kt_runq)) (add_size kt_runq 1 (set_wchan t kt_runq (?s1\<lparr>qh := h\<rparr>)))"
    by blast
  moreover have "kt_wchan (kt s t) \<noteq> kt_runq" using assms(2) by (simp add: off_queue_def kt_runq_def)
  ultimately show ?thesis
    using assms(3) by (simp add: sched_make_runnable_def inv0)
qed


section \<open>Switching\<close>

lemma sched_pick_finds:
  assumes "sched_ok L Q s" and "Q kt_runq = xs @ t # ys"
    and "\<forall>u\<in>set ys. kt_state (kt s u) = KT_EXITED" and "kt_state (kt s t) \<noteq> KT_EXITED"
  shows "\<exists>s'. sched_pick s = Some s' \<and> curthr s' = t \<and> curproc s' = kt_proc (kt s t)
    \<and> sched_ok L (Q(kt_runq := xs)) s' \<and> ipl s' = ipl s \<and> cpu_st s' = cpu_st s
    \<and> (\<forall>u. kt s' u = (if u \<in> set (t # ys) then (kt s u)\<lparr>kt_wchan := 0\<rparr> else kt s u))"
  using assms
proof (induction ys arbitrary: Q s rule: rev_induct)
  case Nil
  let ?s1 = "\<lambda>h. add_size kt_runq (-1) (set_wchan t 0 (s\<lparr>qh := h\<rparr>))"
  have runq: "kt_runq \<in> L" using sched_ok_runq [OF Nil(1)] .
  from sched_ok_dequeue [OF Nil(1) runq Nil(2)] obtain h where
    h: "ktqueue_dequeue kt_runq s = Some (t, ?s1 h)" "sched_ok L (Q(kt_runq := xs)) (?s1 h)" by blast
  have "t \<noteq> 0" using sched_ok_member(1) [OF Nil(1) runq] Nil(2) by simp
  moreover have "sched_ok L (Q(kt_runq := xs)) ((?s1 h)\<lparr>curthr := t, curproc := p\<rparr>)" for p
    using h(2) by (subst sched_ok_cong [of _ "?s1 h"]) auto
  ultimately show ?case using h(1) Nil(4) by (subst sched_pick.simps) auto
next
  case (snoc u ys)
  let ?s1 = "\<lambda>h. add_size kt_runq (-1) (set_wchan u 0 (s\<lparr>qh := h\<rparr>))"
  let ?s2 = "\<lambda>h. (?s1 h)\<lparr>curthr := u, curproc := kt_proc (kt s u)\<rparr>"
  have runq: "kt_runq \<in> L" using sched_ok_runq [OF snoc.prems(1)] .
  from sched_ok_dequeue [OF snoc.prems(1) runq, of "xs @ t # ys" u] snoc.prems(2) obtain h where
    h: "ktqueue_dequeue kt_runq s = Some (u, ?s1 h)" "sched_ok L (Q(kt_runq := xs @ t # ys)) (?s1 h)"
    by auto
  have u: "u \<noteq> 0" using sched_ok_member(1) [OF snoc.prems(1) runq] snoc.prems(2) by simp
  have d: "u \<noteq> t" "u \<notin> set ys"
    using sched_ok_distinct [OF snoc.prems(1) runq] snoc.prems(2) by auto
  have ok2: "sched_ok L (Q(kt_runq := xs @ t # ys)) (?s2 h)"
    using h(2) by (subst sched_ok_cong [of _ "?s1 h"]) auto
  have Q2: "(Q(kt_runq := xs @ t # ys)) kt_runq = xs @ t # ys" by simp
  have ex: "\<forall>v\<in>set ys. kt_state (kt (?s2 h) v) = KT_EXITED"
    and live: "kt_state (kt (?s2 h) t) \<noteq> KT_EXITED"
    using snoc.prems(3,4) d by auto
  have eqs: "(Q(kt_runq := xs @ t # ys))(kt_runq := xs) = Q(kt_runq := xs)"
    "kt_proc (kt (?s2 h) t) = kt_proc (kt s t)" "ipl (?s2 h) = ipl s" "cpu_st (?s2 h) = cpu_st s"
    using d by auto
  from snoc.IH [OF ok2 Q2 ex live, unfolded eqs] obtain s' where s':
    "sched_pick (?s2 h) = Some s'" "curthr s' = t" "curproc s' = kt_proc (kt s t)"
    "sched_ok L (Q(kt_runq := xs)) s'" "ipl s' = ipl s" "cpu_st s' = cpu_st s"
    "\<forall>v. kt s' v = (if v \<in> set (t # ys) then (kt (?s2 h) v)\<lparr>kt_wchan := 0\<rparr> else kt (?s2 h) v)"
    by blast
  have "sched_pick s = Some s'"
    using h(1) u snoc.prems(3) s'(1) by (subst sched_pick.simps) auto
  moreover have "\<forall>v. kt s' v = (if v \<in> set (t # ys @ [u]) then (kt s v)\<lparr>kt_wchan := 0\<rparr> else kt s v)"
    using s'(7) d by auto
  ultimately show ?case using s'(2-6) by blast
qed

lemma switch_to_sel [simp]:
  "qh (switch_to enc a b s) = qh s" "tq_size (switch_to enc a b s) = tq_size s"
  "curthr (switch_to enc a b s) = curthr s" "curproc (switch_to enc a b s) = curproc s"
  "ipl (switch_to enc a b s) = ipl s"
  "kt_wchan (kt (switch_to enc a b s) t) = kt_wchan (kt s t)"
  "kt_state (kt (switch_to enc a b s) t) = kt_state (kt s t)"
  "kt_proc (kt (switch_to enc a b s) t) = kt_proc (kt s t)"
  "cpu_st (switch_to enc a b s) = snd (context_switch enc a b (\<lambda>t. kt_ctx (kt s t)) (cpu_st s))"
  "kt_ctx (kt (switch_to enc a b s) a) = fst (context_switch enc a b (\<lambda>t. kt_ctx (kt s t)) (cpu_st s)) a"
  by (simp_all add: switch_to_def split: prod.split)

lemma sched_switch_runs:
  assumes "sched_ok L Q s" and "Q kt_runq = xs @ t # ys"
    and "\<forall>u\<in>set ys. kt_state (kt s u) = KT_EXITED" and "kt_state (kt s t) \<noteq> KT_EXITED"
    and "kt_cancelled (kt s t) \<noteq> 1"
  shows "\<exists>s'. sched_switch enc iw ex s = Some s' \<and> curthr s' = t \<and> curproc s' = kt_proc (kt s t)
    \<and> ipl s' = ipl s \<and> sched_ok L (Q(kt_runq := xs)) s'
    \<and> cpu_st s' = snd (context_switch enc (curthr s) t (\<lambda>u. kt_ctx (kt s u)) (cpu_st s))
    \<and> kt_ctx (kt s' (curthr s)) = fst (context_switch enc (curthr s) t (\<lambda>u. kt_ctx (kt s u)) (cpu_st s)) (curthr s)"
proof -
  let ?s1 = "s\<lparr>ipl := IPL_HIGH\<rparr>"
  have ok1: "sched_ok L Q ?s1" using assms(1) by (subst sched_ok_cong [of _ s]) auto
  from sched_pick_finds [OF ok1 assms(2)] assms(3,4) obtain s2 where
    s2: "sched_pick ?s1 = Some s2" "curthr s2 = t" "curproc s2 = kt_proc (kt s t)"
      "sched_ok L (Q(kt_runq := xs)) s2" "cpu_st s2 = cpu_st s"
      "\<And>u. kt s2 u = (if u \<in> set (t # ys) then (kt s u)\<lparr>kt_wchan := 0\<rparr> else kt s u)"
    by auto
  let ?s3 = "switch_to enc (curthr s) t (s2\<lparr>ipl := ipl s\<rparr>)"
  have ctxs: "(\<lambda>u. kt_ctx (kt s2 u)) = (\<lambda>u. kt_ctx (kt s u))" by (simp add: s2(6) fun_eq_iff)
  have "kt_runq \<in> L" using sched_ok_runq [OF assms(1)] .
  then have "\<not> list_empty kt_runq (qh s)" "tq_size s kt_runq > 0"
    using sched_ok_empty [OF assms(1)] assms(1,2) by (auto simp: sched_ok_def)
  then have "sched_switch enc iw ex s = Some ?s3"
    using s2(1,2,6) assms(5) by (subst sched_switch.simps) (simp add: Let_def)
  moreover have "sched_ok L (Q(kt_runq := xs)) ?s3"
    using s2(4) by (subst sched_ok_cong [of _ s2]) auto
  ultimately show ?thesis using s2(2,3,5) by (simp add: ctxs)
qed

text \<open>One turn of waiting: interrupts are let in, and the caller's level is put back.\<close>

definition wait_turn ::
  "('a sched_scheme \<Rightarrow> 'a sched_scheme) \<Rightarrow> 'a sched_scheme \<Rightarrow> 'a sched_scheme" where
  "wait_turn intr_wait s = (intr_wait (s\<lparr>ipl := IPL_LOW\<rparr>))\<lparr>ipl := ipl s\<rparr>"

lemma sched_switch_waits:
  "(\<forall>k<n. list_empty kt_runq (qh ((wait_turn iw ^^ k) s))) \<Longrightarrow>
   sched_switch enc iw ex s = sched_switch enc iw ex ((wait_turn iw ^^ n) s)"
proof (induction n arbitrary: s)
  case 0
  then show ?case by simp
next
  case (Suc n)
  have "list_empty kt_runq (qh s)" using Suc.prems by (metis zero_less_Suc funpow_0)
  then have "sched_switch enc iw ex s = sched_switch enc iw ex (wait_turn iw s)"
    by (subst sched_switch.simps) (simp add: wait_turn_def Let_def)
  also have "\<dots> = sched_switch enc iw ex ((wait_turn iw ^^ n) (wait_turn iw s))"
    using Suc.prems by (intro Suc.IH) (metis Suc_less_eq comp_apply funpow_Suc_right)
  finally show ?case by (simp only: funpow_Suc_right comp_apply)
qed


section \<open>The scheduler as a transition system\<close>

lemma sched_inv_cong:
  assumes "qh s' = qh s" and "tq_size s' = tq_size s"
    and "\<And>t. kt_wchan (kt s' t) = kt_wchan (kt s t)" and "\<And>t. kt_state (kt s' t) = kt_state (kt s t)"
  shows "sched_inv L Q s' = sched_inv L Q s"
  using sched_ok_cong [of s' s L Q] assms by (simp add: sched_inv_def fits_state_def)

lemma sched_pick_inv:
  assumes "sched_inv L Q s" and "sched_pick s = Some s'"
  shows "\<exists>Q'. sched_inv L Q' s'"
proof (cases "Q kt_runq" rule: rev_cases)
  case Nil
  then have "list_empty kt_runq (qh s)"
    using sched_ok_empty [OF sched_inv_ok [OF assms(1)] rq.run_live [OF assms(1)]] by simp
  then show ?thesis using assms(2) by (subst (asm) sched_pick.simps) (simp add: ktqueue_dequeue_def)
next
  case (snoc xs t)
  then have run: "kt_state (kt s t) \<noteq> KT_EXITED"
    using assms(1) rq.run_live [OF assms(1)] by (auto simp: sched_inv_def fits_state_def)
  from sched_pick_finds [OF sched_inv_ok [OF assms(1)] snoc _ run] assms(2) have
    s': "sched_ok L (Q(kt_runq := xs)) s'"
      "\<And>u. kt s' u = (if u \<in> {t} then (kt s u)\<lparr>kt_wchan := 0\<rparr> else kt s u)" by auto
  have "fits_state q u s' = fits_state q u s" for q u by (rule fits_state_cong) (simp add: s'(2))
  then have "sched_inv L (Q(kt_runq := xs)) s'" using assms(1) s'(1) snoc by (auto simp: sched_inv_def)
  then show ?thesis by blast
qed

text \<open>
  Interrupt handlers and the exit of a process keep the queues in order; this is asked of the two
  arguments.
\<close>

definition keeps_inv :: "nat set \<Rightarrow> ('a sched_scheme \<Rightarrow> 'a sched_scheme) \<Rightarrow> ('a sched_scheme \<Rightarrow> 'a sched_scheme option) \<Rightarrow> bool" where
  "keeps_inv L iw ex \<longleftrightarrow>
     (\<forall>Q s. sched_inv L Q s \<longrightarrow> (\<exists>Q'. sched_inv L Q' (iw s))) \<and>
     (\<forall>Q s s'. sched_inv L Q s \<longrightarrow> ex s = Some s' \<longrightarrow> (\<exists>Q'. sched_inv L Q' s'))"

lemma sched_switch_inv_step:
  assumes IH: "\<And>s s'. switch s = Some s' \<Longrightarrow> \<exists>Q. sched_inv L Q s \<Longrightarrow> \<exists>Q'. sched_inv L Q' s'"
    and body: "(let lvl = ipl s; s1 = s\<lparr>ipl := IPL_HIGH\<rparr> in
      if list_empty kt_runq (qh s1) then switch ((iw (s1\<lparr>ipl := IPL_LOW\<rparr>))\<lparr>ipl := lvl\<rparr>)
      else if tq_size s1 kt_runq > 0
      then sched_pick s1 \<bind> (\<lambda>s2.
        if kt_cancelled (kt s2 (curthr s2)) = 1 then ex s2
        else Some (switch_to enc (curthr s1) (curthr s2) (s2\<lparr>ipl := lvl\<rparr>)))
      else switch s1) = Some s'"
    and keeps: "keeps_inv L iw ex" and Q: "sched_inv L Q s"
  shows "\<exists>Q'. sched_inv L Q' s'"
proof -
  let ?s1 = "s\<lparr>ipl := IPL_HIGH\<rparr>"
  have inv1: "sched_inv L Q (s\<lparr>ipl := i\<rparr>)" for i
    using Q by (subst sched_inv_cong [of _ s]) auto
  show ?thesis
  proof (cases "list_empty kt_runq (qh s)")
    case True
    then have wait: "switch ((iw (?s1\<lparr>ipl := IPL_LOW\<rparr>))\<lparr>ipl := ipl s\<rparr>) = Some s'"
      using body by (simp add: Let_def)
    have "sched_inv L Q (?s1\<lparr>ipl := IPL_LOW\<rparr>)"
      using Q by (subst sched_inv_cong [of _ s]) auto
    then obtain Q1 where "sched_inv L Q1 (iw (?s1\<lparr>ipl := IPL_LOW\<rparr>))"
      using keeps unfolding keeps_inv_def by blast
    then have "sched_inv L Q1 ((iw (?s1\<lparr>ipl := IPL_LOW\<rparr>))\<lparr>ipl := ipl s\<rparr>)"
      by (subst sched_inv_cong [of _ "iw (?s1\<lparr>ipl := IPL_LOW\<rparr>)"]) auto
    then show ?thesis using IH [OF wait] by blast
  next
    case nonempty: False
    show ?thesis
    proof (cases "tq_size s kt_runq > 0")
      case True
      then obtain s2 where pick: "sched_pick ?s1 = Some s2"
        "(if kt_cancelled (kt s2 (curthr s2)) = 1 then ex s2
          else Some (switch_to enc (curthr ?s1) (curthr s2) (s2\<lparr>ipl := ipl s\<rparr>))) = Some s'"
        using body nonempty by (cases "sched_pick ?s1") (simp_all add: Let_def)
      from sched_pick_inv [OF inv1 pick(1)] obtain Q2 where Q2: "sched_inv L Q2 s2" by blast
      then have "sched_inv L Q2 (switch_to enc (curthr ?s1) (curthr s2) (s2\<lparr>ipl := ipl s\<rparr>))"
        by (subst sched_inv_cong [of _ s2]) auto
      moreover have "ex s2 = Some s' \<Longrightarrow> \<exists>Q'. sched_inv L Q' s'"
        using Q2 keeps unfolding keeps_inv_def by blast
      ultimately show ?thesis using pick(2) by (metis option.inject)
    next
      case False
      then have again: "switch ?s1 = Some s'" using body nonempty by (simp add: Let_def)
      show ?thesis using IH [OF again] inv1 by blast
    qed
  qed
qed

lemma sched_switch_inv:
  fixes s :: "'a sched_scheme"
  assumes "sched_switch enc iw ex s = Some s'" and "keeps_inv L iw ex" and "\<exists>Q. sched_inv L Q s"
  shows "\<exists>Q'. sched_inv L Q' s'"
proof -
  let ?P = "\<lambda>enc iw ex s s'. keeps_inv L iw ex \<longrightarrow> (\<exists>Q. sched_inv L Q s) \<longrightarrow> (\<exists>Q'. sched_inv L Q' s')"
  have "?P enc iw ex s s'"
  proof (rule sched_switch.raw_induct [where P = ?P, OF _ assms(1)], intro impI)
    fix f :: "(code_ptr \<Rightarrow> 32 word) \<Rightarrow> ('a sched_scheme \<Rightarrow> 'a sched_scheme) \<Rightarrow>
        ('a sched_scheme \<Rightarrow> 'a sched_scheme option) \<Rightarrow> 'a sched_scheme \<Rightarrow> 'a sched_scheme option"
      and enc iw ex s s'
    assume IH: "\<And>enc iw ex s s'. f enc iw ex s = Some s' \<Longrightarrow> ?P enc iw ex s s'"
    assume body: "(let lvl = ipl s; s1 = s\<lparr>ipl := IPL_HIGH\<rparr> in
      if list_empty kt_runq (qh s1) then f enc iw ex ((iw (s1\<lparr>ipl := IPL_LOW\<rparr>))\<lparr>ipl := lvl\<rparr>)
      else if tq_size s1 kt_runq > 0
      then sched_pick s1 \<bind> (\<lambda>s2.
        if kt_cancelled (kt s2 (curthr s2)) = 1 then ex s2
        else Some (switch_to enc (curthr s1) (curthr s2) (s2\<lparr>ipl := lvl\<rparr>)))
      else f enc iw ex s1) = Some s'"
    assume keeps: "keeps_inv L iw ex" and "\<exists>Q. sched_inv L Q s"
    then obtain Q where Q: "sched_inv L Q s" by blast
    show "\<exists>Q'. sched_inv L Q' s'"
      by (rule sched_switch_inv_step [OF _ body keeps Q]) (use IH keeps in blast)
  qed
  with assms(2,3) show ?thesis by blast
qed

text \<open>What the rest of the kernel may do with threads and queues in use.\<close>

inductive sched_step for L enc iw ex pid where
  wakeup: "q \<in> L \<Longrightarrow> q \<noteq> kt_runq \<Longrightarrow> sched_wakeup_on q s = Some (t, s') \<Longrightarrow> sched_step L enc iw ex pid s s'"
| broadcast: "q \<in> L \<Longrightarrow> q \<noteq> kt_runq \<Longrightarrow> sched_broadcast_on q s = Some s' \<Longrightarrow> sched_step L enc iw ex pid s s'"
| cancel: "kt_wchan (kt s t) \<in> L \<Longrightarrow> sched_cancel t s = Some s' \<Longrightarrow> sched_step L enc iw ex pid s s'"
| runnable: "off_queue L t s \<Longrightarrow> \<not> runq_fresh s \<Longrightarrow> sched_make_runnable pid t s = Some s' \<Longrightarrow>
    sched_step L enc iw ex pid s s'"
| sleep: "q \<in> L \<Longrightarrow> q \<noteq> kt_runq \<Longrightarrow> off_queue L (curthr s) s \<Longrightarrow>
    sched_sleep_on (sched_switch enc iw ex) q s = Some s' \<Longrightarrow> sched_step L enc iw ex pid s s'"
| cancellable_sleep: "q \<in> L \<Longrightarrow> q \<noteq> kt_runq \<Longrightarrow> off_queue L (curthr s) s \<Longrightarrow>
    sched_cancellable_sleep_on (sched_switch enc iw ex) q s = Some (r, s') \<Longrightarrow> sched_step L enc iw ex pid s s'"
| switch: "sched_switch enc iw ex s = Some s' \<Longrightarrow> sched_step L enc iw ex pid s s'"

lemma sched_inv_sleep:
  assumes "sched_inv L Q s" and "q \<in> L" and "q \<noteq> kt_runq" and "off_queue L t s"
    and "st = KT_SLEEP \<or> st = KT_SLEEP_CANCELLABLE" and "ktqueue_enqueue q t (set_state t st s) = Some s'"
  shows "sched_inv L (Q(q := t # Q q)) s'"
proof -
  have "sched_inv L Q (set_state t st s)"
    unfolding set_state_def by (rule sched_inv_off_update [OF assms(1,4)]) simp
  moreover have "off_queue L t (set_state t st s)" "fits_state q t (set_state t st s)"
    using assms(3-5) by (auto simp: off_queue_def fits_state_def)
  ultimately obtain h where "ktqueue_enqueue q t (set_state t st s)
      = Some (add_size q 1 (set_wchan t q ((set_state t st s)\<lparr>qh := h\<rparr>)))"
    "sched_inv L (Q(q := t # Q q)) (add_size q 1 (set_wchan t q ((set_state t st s)\<lparr>qh := h\<rparr>)))"
    using sched_inv_enqueue [OF _ assms(2)] by blast
  with assms(6) show ?thesis by (metis option.inject)
qed

lemma sched_step_inv:
  assumes "sched_step L enc iw ex pid s s'" and "keeps_inv L iw ex" and "sched_inv L Q s"
  shows "\<exists>Q'. sched_inv L Q' s'"
  using assms
proof (cases rule: sched_step.cases)
  case (wakeup q t)
  show ?thesis
  proof (cases "Q q" rule: rev_cases)
    case Nil
    then have "s' = s"
      using wakeup(3) sched_ok_empty [OF sched_inv_ok [OF assms(3)] wakeup(1)] by (simp add: sched_wakeup_on_def)
    with assms(3) show ?thesis by blast
  next
    case (snoc xs u)
    from Some_pair_exD [OF sched_wakeup_on_inv [OF assms(3) wakeup(1,2) snoc] wakeup(3)]
    show ?thesis by blast
  qed
next
  case (broadcast q)
  from Some_exD [OF sched_broadcast_on_inv [OF assms(3) broadcast(1,2)] broadcast(3)]
  show ?thesis by blast
next
  case (cancel t)
  show ?thesis
  proof (cases "kt_state (kt s t) = KT_SLEEP_CANCELLABLE")
    case True
    have on: "t \<in> set (Q (kt_wchan (kt s t)))"
      using sched_inv_ok [OF assms(3)] cancel(1) by (simp add: sched_ok_def)
    then obtain xs ys where Q: "Q (kt_wchan (kt s t)) = xs @ t # ys" by (meson split_list)
    have "kt_wchan (kt s t) \<noteq> kt_runq"
      using assms(3) cancel(1) on True by (auto simp: sched_inv_def fits_state_def)
    from Some_exD [OF sched_cancel_inv [OF assms(3) cancel(1) this Q True] cancel(2)]
    show ?thesis by blast
  next
    case False
    then show ?thesis using cancel(2) assms(3) by (auto simp: sched_cancel_def)
  qed
next
  case (runnable t)
  from Some_exD [OF sched_make_runnable_inv [OF assms(3) runnable(1,2), of pid] runnable(3)]
  show ?thesis by blast
next
  case (sleep q)
  then obtain s1 where s1: "ktqueue_enqueue q (curthr s) (set_state (curthr s) KT_SLEEP s) = Some s1"
    "sched_switch enc iw ex s1 = Some s'" by (auto simp: sched_sleep_on_def Let_def split: Option.bind_splits)
  have "sched_inv L (Q(q := curthr s # Q q)) s1"
    using sched_inv_sleep [OF assms(3) sleep(1-3) _ s1(1)] by simp
  then show ?thesis using sched_switch_inv [OF s1(2) assms(2)] by blast
next
  case (cancellable_sleep q r)
  let ?s1 = "set_state (curthr s) KT_SLEEP_CANCELLABLE s"
  have inv1: "sched_inv L Q ?s1"
    unfolding set_state_def by (rule sched_inv_off_update [OF assms(3) cancellable_sleep(3)]) simp
  consider (now) "s' = ?s1" | (later) s1 where "ktqueue_enqueue q (curthr s) ?s1 = Some s1"
      "sched_switch enc iw ex s1 = Some s'"
    using cancellable_sleep(4)
    by (auto simp: sched_cancellable_sleep_on_def Let_def split: if_splits Option.bind_splits)
  then show ?thesis
  proof cases
    case now
    with inv1 show ?thesis by blast
  next
    case later
    have "sched_inv L (Q(q := curthr s # Q q)) s1"
      using sched_inv_sleep [OF assms(3) cancellable_sleep(1-3) _ later(1)] by simp
    then show ?thesis using sched_switch_inv [OF later(2) assms(2)] by blast
  qed
next
  case switch
  then show ?thesis using sched_switch_inv assms(2,3) by blast
qed


section \<open>Properties\<close>

text \<open>A small system: the run queue is empty, threads 10 and then 11 went to sleep on queue 2.\<close>

definition demo_thread :: "nat \<Rightarrow> nat \<Rightarrow> kt_state_t \<Rightarrow> kthread" where
  "demo_thread t q st = \<lparr>kt_ctx = demo_ctxs t, kt_kstack = 4096, kt_retval = None, kt_errno = 0,
     kt_proc = t + 100, kt_cancelled = 0, kt_wchan = q, kt_state = st\<rparr>"

definition demo_sched :: sched where
  "demo_sched = \<lparr>kt = (\<lambda>t. demo_thread t 0 KT_NO_STATE)(10 := demo_thread 10 2 KT_SLEEP_CANCELLABLE,
       11 := demo_thread 11 2 KT_SLEEP),
     qh = (\<lambda>_. \<lparr>l_next = 0, l_prev = 0\<rparr>)(1 := \<lparr>l_next = 1, l_prev = 1\<rparr>,
       2 := \<lparr>l_next = 11, l_prev = 10\<rparr>, 11 := \<lparr>l_next = 10, l_prev = 2\<rparr>,
       10 := \<lparr>l_next = 2, l_prev = 11\<rparr>),
     tq_size = (\<lambda>_. 0)(2 := 2), curthr = 12, curproc = 112, ipl = 0, cpu_st = demo_cpu,
     runq_fresh = False\<rparr>"

definition demo_queues :: "nat \<Rightarrow> nat list" where
  "demo_queues = (\<lambda>_. [])(2 := [11, 10])"

lemma demo_sched_inv: "sched_inv {1, 2} demo_queues demo_sched"
  by (auto simp: sched_inv_def sched_ok_def kt_runq_def demo_queues_def demo_sched_def
      demo_thread_def is_list_def fits_state_def)

text \<open>
  \<^verbatim>\<open>sched_wakeup_on\<close> returns no thread and changes nothing on an empty queue; otherwise it
  returns the thread that has slept longest, which leaves the queue and becomes the last to run in
  the run queue, with all queues in order; its assertion on the thread's state never fails.
\<close>

theorem sched_wakeup_on_oldest:
  assumes "sched_inv L Q s" and "q \<in> L" and "q \<noteq> kt_runq"
  shows "(Q q = [] \<longrightarrow> sched_wakeup_on q s = Some (0, s)) \<and>
    (\<forall>xs t. Q q = xs @ [t] \<longrightarrow> (\<exists>s'. sched_wakeup_on q s = Some (t, s')
       \<and> sched_inv L (Q(q := xs, kt_runq := t # Q kt_runq)) s'))"
  using sched_wakeup_on_inv [OF assms] sched_ok_empty [OF sched_inv_ok [OF assms(1)] assms(2)]
  by (auto simp: sched_wakeup_on_def)

theorem sched_wakeup_on_oldest_witness:
  "\<exists>s'. sched_wakeup_on 2 demo_sched = Some (10, s')
     \<and> sched_inv {1, 2} (demo_queues(2 := [11], kt_runq := [10])) s'"
  using sched_wakeup_on_oldest [OF demo_sched_inv, of 2]
  by (simp add: kt_runq_def demo_queues_def)

text \<open>
  C35: \<^verbatim>\<open>sched_broadcast_on\<close> ends, leaves the queue empty and puts every thread that slept on it
  on the run queue, behind those that were there, in the order in which they went to sleep.
\<close>

theorem sched_broadcast_on_all:
  assumes "sched_inv L Q s" and "q \<in> L" and "q \<noteq> kt_runq"
  shows "\<exists>s'. sched_broadcast_on q s = Some s'
    \<and> sched_inv L (Q(q := [], kt_runq := Q q @ Q kt_runq)) s'
    \<and> (\<forall>t\<in>set (Q q). kt_state (kt s' t) = KT_RUN \<and> kt_wchan (kt s' t) = kt_runq)"
proof -
  from sched_broadcast_on_inv [OF assms] obtain s' where
    s': "sched_broadcast_on q s = Some s'" "sched_inv L (Q(q := [], kt_runq := Q q @ Q kt_runq)) s'"
    by blast
  have "kt_state (kt s' t) = KT_RUN \<and> kt_wchan (kt s' t) = kt_runq" if "t \<in> set (Q q)" for t
    using s'(2) rq.run_live [OF assms(1)] that by (fastforce simp: sched_inv_def sched_ok_def fits_state_def)
  with s' show ?thesis by blast
qed

theorem sched_broadcast_on_all_witness:
  "\<exists>s'. sched_broadcast_on 2 demo_sched = Some s' \<and> kt_state (kt s' 10) = KT_RUN
     \<and> sched_inv {1, 2} (demo_queues(2 := [], kt_runq := [11, 10])) s'"
  using sched_broadcast_on_all [OF demo_sched_inv, of 2]
  by (force simp: kt_runq_def demo_queues_def)

text \<open>
  cancelling a thread in a cancellable sleep marks it cancelled and moves it, and only it, from
  the queue it sleeps on to the run queue; a thread in any other state is left alone.
\<close>

theorem sched_cancel_moves:
  assumes "sched_inv L Q s" and "q \<in> L" and "t \<in> set (Q q)"
  shows "if kt_state (kt s t) = KT_SLEEP_CANCELLABLE
    then \<exists>s'. sched_cancel t s = Some s'
      \<and> sched_inv L (Q(q := remove1 t (Q q), kt_runq := t # Q kt_runq)) s'
      \<and> kt s' = (kt s)(t := (kt s t)\<lparr>kt_cancelled := 1, kt_state := KT_RUN, kt_wchan := kt_runq\<rparr>)
    else sched_cancel t s = Some s"
proof (cases "kt_state (kt s t) = KT_SLEEP_CANCELLABLE")
  case True
  from assms(3) obtain xs ys where Q: "Q q = xs @ t # ys" by (meson split_list)
  then have r: "remove1 t (Q q) = xs @ ys"
    using sched_ok_distinct [OF sched_inv_ok [OF assms(1)] assms(2)] by (simp add: remove1_append)
  have "q \<noteq> kt_runq" using assms True by (auto simp: sched_inv_def fits_state_def)
  from sched_cancel_inv [OF assms(1,2) this Q True] show ?thesis unfolding r using True by simp
qed (simp add: sched_cancel_def)

theorem sched_cancel_moves_witness:
  "\<exists>s'. sched_cancel 10 demo_sched = Some s' \<and> kt_cancelled (kt s' 10) = 1
     \<and> sched_inv {1, 2} (demo_queues(2 := [11], kt_runq := [10])) s'"
proof -
  have "kt_state (kt demo_sched 10) = KT_SLEEP_CANCELLABLE" by (simp add: demo_sched_def demo_thread_def)
  moreover have "10 \<in> set (demo_queues 2)" "remove1 10 (demo_queues 2) = [11]" "demo_queues kt_runq = []"
    by (simp_all add: demo_queues_def kt_runq_def)
  ultimately show ?thesis using sched_cancel_moves [OF demo_sched_inv, of 2 10] by auto
qed


lemma wait_turn_ipl: "ipl ((wait_turn iw ^^ n) s) = ipl s"
  by (induction n) (simp_all add: wait_turn_def)


text \<open>An interrupt that wakes the oldest sleeper of queue 2 ends the wait.\<close>

definition demo_intr :: "sched \<Rightarrow> sched" where
  "demo_intr s = (case sched_wakeup_on 2 s of Some (_, s') \<Rightarrow> s' | None \<Rightarrow> s)"


text \<open>
  C2: whatever sequence of wake-ups, broadcasts, cancellations, sleeps and switches the kernel runs,
  the queues stay in order: each is a well-linked list of the recorded length, a thread is on a
  queue exactly when its wait channel says so, threads on the run queue are runnable and threads
  on any other queue are asleep.
\<close>

theorem sched_reachable_inv:
  assumes "(sched_step L enc iw ex pid)\<^sup>*\<^sup>* s s'" and "keeps_inv L iw ex" and "\<exists>Q. sched_inv L Q s"
  shows "\<exists>Q. sched_inv L Q s'"
  using assms by (induction rule: rtranclp_induct) (use sched_step_inv in blast)+

theorem sched_reachable_inv_witness:
  "\<exists>s'. sched_broadcast_on 2 demo_sched = Some s' \<and> (\<exists>Q. sched_inv {1, 2} Q s')"
proof -
  from sched_broadcast_on_inv [OF demo_sched_inv, of 2] obtain s'
    where s': "sched_broadcast_on 2 demo_sched = Some s'" by (auto simp: kt_runq_def)
  have "sched_step {1, 2} (\<lambda>_. 9) id (\<lambda>_. None) (\<lambda>_. 1) demo_sched s'"
    by (rule sched_step.broadcast [OF _ _ s']) (simp_all add: kt_runq_def)
  then have "(sched_step {1, 2} (\<lambda>_. 9) id (\<lambda>_. None) (\<lambda>_. 1))\<^sup>*\<^sup>* demo_sched s'" by blast
  moreover have "keeps_inv {1, 2} (id :: sched \<Rightarrow> sched) (\<lambda>_. None)" by (auto simp: keeps_inv_def)
  ultimately show ?thesis
    using sched_reachable_inv [of "{1, 2}" "\<lambda>_. 9" id "\<lambda>_. None" "\<lambda>_. 1" demo_sched s'] demo_sched_inv s'
    by blast
qed

end
