(* ===== verification/Kmutex.thy ===== *)
theory Kmutex
  imports Sched
begin

text \<open>
  Kernel mutexes (\<^verbatim>\<open>kernel/proc/kmutex.c\<close>).  A mutex is named by its wait queue; the holder is a
  map from mutexes to threads.  A lock that sleeps gives the processor away; \<open>switch\<close> is that
  call of \<^verbatim>\<open>sched_switch\<close>, which returns when the sleeper runs again.
\<close>

record ksync = sched +
  km_holder :: "nat \<Rightarrow> nat"

definition set_holder :: "nat \<Rightarrow> nat \<Rightarrow> 'a ksync_scheme \<Rightarrow> 'a ksync_scheme" where
  "set_holder m t s = s\<lparr>km_holder := (km_holder s)(m := t)\<rparr>"

definition kmutex_init :: "nat \<Rightarrow> 'a ksync_scheme \<Rightarrow> 'a ksync_scheme option" where
  "kmutex_init mtx s = (if mtx \<noteq> 0 then Some (set_holder mtx 0 (sched_queue_init mtx s)) else None)"

definition kmutex_lock ::
  "('a ksync_scheme \<Rightarrow> 'a ksync_scheme option) \<Rightarrow> nat \<Rightarrow> 'a ksync_scheme \<Rightarrow> 'a ksync_scheme option" where
  "kmutex_lock switch mtx s = do {
     let lvl = ipl s;
     let s1 = s\<lparr>ipl := IPL_HIGH\<rparr>;
     kassert (curthr s1 \<noteq> 0 \<and> curthr s1 \<noteq> km_holder s1 mtx);
     s2 \<leftarrow> (if km_holder s1 mtx = 0 then Some (set_holder mtx (curthr s1) s1)
           else sched_sleep_on switch mtx s1);
     Some (s2\<lparr>ipl := lvl\<rparr>)
   }"

definition kmutex_lock_cancellable ::
  "('a ksync_scheme \<Rightarrow> 'a ksync_scheme option) \<Rightarrow> nat \<Rightarrow> 'a ksync_scheme \<Rightarrow> (int \<times> 'a ksync_scheme) option"
  where
  "kmutex_lock_cancellable switch mtx s = do {
     let lvl = ipl s;
     let s1 = s\<lparr>ipl := IPL_HIGH\<rparr>;
     kassert (curthr s1 \<noteq> 0 \<and> curthr s1 \<noteq> km_holder s1 mtx);
     s2 \<leftarrow> (if km_holder s1 mtx = 0 then Some (set_holder mtx (curthr s1) s1)
           else map_option snd (sched_cancellable_sleep_on switch mtx s1));
     Some (0, s2\<lparr>ipl := lvl\<rparr>)
   }"

definition kmutex_unlock :: "nat \<Rightarrow> 'a ksync_scheme \<Rightarrow> 'a ksync_scheme option" where
  "kmutex_unlock mtx s = do {
     let lvl = ipl s;
     let s1 = s\<lparr>ipl := IPL_HIGH\<rparr>;
     kassert (curthr s1 \<noteq> 0 \<and> curthr s1 = km_holder s1 mtx);
     if km_holder s1 mtx = 0 then Some (s1\<lparr>ipl := lvl\<rparr>)
     else do {
       (thr, s2) \<leftarrow> sched_wakeup_on mtx s1;
       let s3 = (set_holder mtx thr s2)\<lparr>ipl := lvl\<rparr>;
       kassert (curthr s3 \<noteq> km_holder s3 mtx);
       Some s3
     }
   }"

section \<open>The contract\<close>

text \<open>
  The abstract mutex: its holder, and the threads waiting for it from the first to the last to
  arrive.
\<close>

type_synonym amutex = "nat \<times> nat list"

fun alock :: "nat \<Rightarrow> amutex \<Rightarrow> amutex" where
  "alock t (h, ws) = (if h = 0 then (t, ws) else (h, ws @ [t]))"

fun aunlock :: "amutex \<Rightarrow> amutex" where
  "aunlock (h, []) = (0, [])"
| "aunlock (h, w # ws) = (w, ws)"

definition mutex_abs :: "(nat \<Rightarrow> nat list) \<Rightarrow> nat \<Rightarrow> 'a ksync_scheme \<Rightarrow> amutex" where
  "mutex_abs Q m s = (km_holder s m, rev (Q m))"

text \<open>A free mutex has no waiters, and nobody waits for a mutex that is already theirs.\<close>

definition mutex_inv :: "nat set \<Rightarrow> nat set \<Rightarrow> (nat \<Rightarrow> nat list) \<Rightarrow> 'a ksync_scheme \<Rightarrow> bool" where
  "mutex_inv L M Q s \<longleftrightarrow> sched_inv L Q s \<and> M \<subseteq> L - {kt_runq} \<and>
     (\<forall>m\<in>M. (km_holder s m = 0 \<longrightarrow> Q m = []) \<and> km_holder s m \<notin> set (Q m))"

lemma mutex_inv_mutex:
  assumes "mutex_inv L M Q s" and "m \<in> M"
  shows "sched_inv L Q s" and "m \<in> L" and "m \<noteq> kt_runq" and "km_holder s m = 0 \<Longrightarrow> Q m = []"
    and "km_holder s m \<notin> set (Q m)"
  using assms by (auto simp: mutex_inv_def)

text \<open>Only a mutex operation changes a holder.\<close>

lemma ktqueue_enqueue_keeps:
  assumes "ktqueue_enqueue q t s = Some s'"
  shows "km_holder s' = km_holder s" and "curthr s' = curthr s" and "ipl s' = ipl s"
  using assms by (auto simp: ktqueue_enqueue_def sched_upd_defs kassert_def split: if_splits Option.bind_splits)

lemma sched_wakeup_on_keeps:
  assumes "sched_wakeup_on q s = Some (t, s')"
  shows "km_holder s' = km_holder s" and "curthr s' = curthr s" and "ipl s' = ipl s"
  using assms
  by (auto simp: sched_wakeup_on_def ktqueue_enqueue_def ktqueue_dequeue_def sched_upd_defs kassert_def
      Let_def split: if_splits Option.bind_splits)

lemma mutex_inv_ipl: "mutex_inv L M Q (s\<lparr>ipl := i\<rparr>) = mutex_inv L M Q s"
  unfolding mutex_inv_def by (subst sched_inv_cong [of _ s]) auto

text \<open>Unlocking: the first waiter, if there is one, becomes the holder and is runnable.\<close>

lemma kmutex_unlock_refines:
  assumes inv: "mutex_inv L M Q s" and m: "m \<in> M" and cur: "curthr s = km_holder s m" "curthr s \<noteq> 0"
  shows "\<exists>s' Q'. kmutex_unlock m s = Some s' \<and> mutex_inv L M Q' s'
    \<and> mutex_abs Q' m s' = aunlock (mutex_abs Q m s)
    \<and> (\<forall>m'\<in>M - {m}. mutex_abs Q' m' s' = mutex_abs Q m' s) \<and> curthr s' = curthr s \<and> ipl s' = ipl s
    \<and> Q' kt_runq = (if Q m = [] then Q kt_runq else last (Q m) # Q kt_runq)"
proof (cases "Q m" rule: rev_cases)
  case Nil
  let ?s' = "set_holder m 0 s"
  have "list_empty m (qh s)"
    using sched_ok_empty [OF sched_inv_ok [OF mutex_inv_mutex(1) [OF inv m]] mutex_inv_mutex(2) [OF inv m]]
      Nil by simp
  then have "kmutex_unlock m s = Some ?s'"
    using cur by (simp add: kmutex_unlock_def sched_wakeup_on_def set_holder_def Let_def)
  moreover have "sched_inv L Q ?s'"
    using mutex_inv_mutex(1) [OF inv m] by (subst sched_inv_cong [of _ s]) (auto simp: set_holder_def)
  then have "mutex_inv L M Q ?s'" using inv Nil by (auto simp: mutex_inv_def set_holder_def)
  ultimately show ?thesis using Nil by (auto simp: mutex_abs_def set_holder_def)
next
  case (snoc xs t)
  note mm = mutex_inv_mutex [OF inv m]
  let ?s1 = "s\<lparr>ipl := IPL_HIGH\<rparr>" and ?Q = "Q(m := xs, kt_runq := t # Q kt_runq)"
  have "sched_inv L Q ?s1" using mm(1) by (subst sched_inv_cong [of _ s]) auto
  from sched_wakeup_on_inv [OF this mm(2,3) snoc] obtain s2
    where w: "sched_wakeup_on m ?s1 = Some (t, s2)" "sched_inv L ?Q s2" by blast
  note k = sched_wakeup_on_keeps [OF w(1)]
  let ?s' = "(set_holder m t s2)\<lparr>ipl := ipl s\<rparr>"
  have t: "t \<in> set (Q m)" using snoc by simp
  then have "t \<noteq> curthr s" using mm(5) cur(1) by auto
  then have "kmutex_unlock m s = Some ?s'"
    using w(1) cur k by (simp add: kmutex_unlock_def set_holder_def Let_def)
  moreover have "sched_inv L ?Q ?s'"
    using w(2) by (subst sched_inv_cong [of _ s2]) (auto simp: set_holder_def)
  moreover have "km_holder ?s' = (km_holder s)(m := t)" using k(1) by (simp add: set_holder_def)
  moreover have "t \<noteq> 0" using sched_ok_member(1) [OF sched_inv_ok [OF mm(1)] mm(2) t] .
  moreover have "t \<notin> set xs" using sched_ok_distinct [OF sched_inv_ok [OF mm(1)] mm(2)] snoc by simp
  ultimately have "kmutex_unlock m s = Some ?s'" and inv': "mutex_inv L M ?Q ?s'"
    and h: "km_holder ?s' = (km_holder s)(m := t)"
    using inv by (auto simp: mutex_inv_def)
  moreover have "kt_runq \<notin> M" using inv by (auto simp: mutex_inv_def)
  ultimately show ?thesis
    using snoc m k mm(3) by (intro exI [of _ ?s'] exI [of _ ?Q]) (auto simp: mutex_abs_def set_holder_def)
qed


text \<open>
  Locking a free mutex takes it on the spot; locking a held one puts the caller behind the
  other waiters before the processor is given away.
\<close>

lemma kmutex_lock_free:
  assumes "mutex_inv L M Q s" and "m \<in> M" and "km_holder s m = 0" and "off_queue L (curthr s) s"
  shows "kmutex_lock switch m s = Some (set_holder m (curthr s) s)"
    and "mutex_inv L M Q (set_holder m (curthr s) s)"
proof -
  have "curthr s \<noteq> 0" using assms(4) by (simp add: off_queue_def)
  then show "kmutex_lock switch m s = Some (set_holder m (curthr s) s)"
    using assms(3) by (simp add: kmutex_lock_def Let_def set_holder_def)
  have "sched_inv L Q (set_holder m (curthr s) s)"
    using mutex_inv_mutex(1) [OF assms(1,2)] by (subst sched_inv_cong [of _ s]) (auto simp: set_holder_def)
  then show "mutex_inv L M Q (set_holder m (curthr s) s)"
    using assms \<open>curthr s \<noteq> 0\<close> by (auto simp: mutex_inv_def set_holder_def)
qed

lemma kmutex_lock_held:
  assumes "mutex_inv L M Q s" and "m \<in> M" and "km_holder s m \<noteq> 0" and "off_queue L (curthr s) s"
    and "curthr s \<noteq> km_holder s m"
  shows "\<exists>s1. mutex_inv L M (Q(m := curthr s # Q m)) s1 \<and> km_holder s1 = km_holder s \<and> curthr s1 = curthr s
    \<and> kmutex_lock switch m s
      = switch s1 \<bind> (\<lambda>s2. Some (s2\<lparr>ipl := ipl s\<rparr>))"
proof -
  let ?t = "curthr s" and ?s1 = "set_state (curthr s) KT_SLEEP (s\<lparr>ipl := IPL_HIGH\<rparr>)"
  note mm = mutex_inv_mutex [OF assms(1,2)]
  have "sched_inv L Q (s\<lparr>ipl := IPL_HIGH\<rparr>)" using mm(1) by (subst sched_inv_cong [of _ s]) auto
  moreover have "off_queue L ?t (s\<lparr>ipl := IPL_HIGH\<rparr>)" using assms(4) by (simp add: off_queue_def)
  ultimately have hi: "sched_inv L Q (s\<lparr>ipl := IPL_HIGH\<rparr>)" "off_queue L ?t (s\<lparr>ipl := IPL_HIGH\<rparr>)" .
  have "sched_inv L Q ?s1"
    unfolding set_state_def by (rule sched_inv_off_update [OF hi]) simp
  moreover have "off_queue L ?t ?s1" "fits_state m ?t ?s1"
    using assms(4) mm(3) by (auto simp: off_queue_def fits_state_def)
  ultimately obtain s1 where s1: "ktqueue_enqueue m ?t ?s1 = Some s1" "sched_inv L (Q(m := ?t # Q m)) s1"
    using rq.enq_law [OF _ mm(2)] by blast
  have h: "km_holder s1 = km_holder s" using ktqueue_enqueue_keeps(1) [OF s1(1)] by (simp add: set_state_def upd_kt_def)
  have "mutex_inv L M (Q(m := ?t # Q m)) s1"
    using s1(2) assms(1,3,5) by (auto simp: mutex_inv_def h)
  moreover have "kmutex_lock switch m s
      = switch s1 \<bind> (\<lambda>s2. Some (s2\<lparr>ipl := ipl s\<rparr>))"
    using assms(3,5) s1(1) assms(4)
    by (simp add: kmutex_lock_def sched_sleep_on_def off_queue_def Let_def)
  ultimately show ?thesis using h ktqueue_enqueue_keeps(2) [OF s1(1)] by auto
qed

text \<open>Each holder in turn unlocks the mutex; the list of the holders that follow.\<close>

fun handoffs :: "nat \<Rightarrow> nat \<Rightarrow> 'a ksync_scheme \<Rightarrow> nat list option" where
  "handoffs 0 m s = Some []"
| "handoffs (Suc n) m s = do {
     s1 \<leftarrow> kmutex_unlock m (s\<lparr>curthr := km_holder s m\<rparr>);
     ts \<leftarrow> handoffs n m s1;
     Some (km_holder s1 m # ts)
   }"

lemma mutex_inv_curthr: "mutex_inv L M Q (s\<lparr>curthr := t\<rparr>) = mutex_inv L M Q s"
  unfolding mutex_inv_def by (subst sched_inv_cong [of _ s]) auto

lemma handoffs_waiters:
  assumes "mutex_inv L M Q s" and "m \<in> M" and "km_holder s m \<noteq> 0" and "rev (Q m) = ws"
  shows "handoffs (Suc (length ws)) m s = Some (ws @ [0])"
  using assms
proof (induction ws arbitrary: Q s)
  case Nil
  let ?s = "s\<lparr>curthr := km_holder s m\<rparr>"
  have "mutex_inv L M Q ?s" using Nil.prems(1) by (simp add: mutex_inv_curthr)
  from kmutex_unlock_refines [OF this Nil.prems(2)] Nil.prems(3,4)
  show ?case by (auto simp: mutex_abs_def)
next
  case (Cons w ws)
  let ?s = "s\<lparr>curthr := km_holder s m\<rparr>"
  have inv: "mutex_inv L M Q ?s" using Cons.prems(1) by (simp add: mutex_inv_curthr)
  from kmutex_unlock_refines [OF this Cons.prems(2)] Cons.prems(3,4) obtain s1 Q1 where
    1: "kmutex_unlock m ?s = Some s1" "mutex_inv L M Q1 s1" "mutex_abs Q1 m s1 = (w, ws)"
    by (auto simp: mutex_abs_def)
  have "w \<in> set (Q m)" using Cons.prems(4) by (metis list.set_intros(1) set_rev)
  then have "w \<noteq> 0"
    using sched_ok_member(1) [OF sched_inv_ok [OF mutex_inv_mutex(1) [OF Cons.prems(1,2)]]
        mutex_inv_mutex(2) [OF Cons.prems(1,2)]] by blast
  with Cons.IH [OF 1(2) Cons.prems(2)] 1(3) have "handoffs (Suc (length ws)) m s1 = Some (ws @ [0])"
    by (auto simp: mutex_abs_def)
  then have "handoffs (Suc (Suc (length ws))) m s = Some (w # ws @ [0])"
    using 1 by (subst handoffs.simps(2)) (simp add: mutex_abs_def del: handoffs.simps)
  then show ?case by simp
qed


section \<open>Properties\<close>

text \<open>Thread 12 holds mutex 2; threads 10 and then 11 wait for it.\<close>

definition demo_mutex :: ksync where
  "demo_mutex = \<lparr>kt = kt demo_sched, qh = qh demo_sched, tq_size = tq_size demo_sched, curthr = 12,
     curproc = 112, ipl = 0, cpu_st = demo_cpu, runq_fresh = False, km_holder = (\<lambda>_. 0)(2 := 12)\<rparr>"

lemma demo_mutex_inv: "mutex_inv {1, 2} {2} demo_queues demo_mutex"
proof -
  have "sched_inv {1, 2} demo_queues demo_mutex"
    by (auto simp: sched_inv_def sched_ok_def kt_runq_def demo_queues_def demo_mutex_def demo_sched_def
        demo_thread_def is_list_def fits_state_def)
  then show ?thesis by (simp add: mutex_inv_def demo_mutex_def demo_queues_def kt_runq_def)
qed

text \<open>
  C8: unlocking hands the mutex over.  The kernel's mutex implements the abstract one, whose holder
  becomes the first waiter, or nobody: the new holder is put on the run queue, every other mutex is
  as before, no assertion fails, and the operation does not block.
\<close>

theorem kmutex_unlock_hands_over:
  assumes "mutex_inv L M Q s" and "m \<in> M" and "curthr s = km_holder s m" and "curthr s \<noteq> 0"
  shows "\<exists>s' Q'. kmutex_unlock m s = Some s' \<and> mutex_inv L M Q' s'
    \<and> mutex_abs Q' m s' = aunlock (mutex_abs Q m s)
    \<and> (\<forall>m'\<in>M - {m}. mutex_abs Q' m' s' = mutex_abs Q m' s) \<and> curthr s' = curthr s \<and> ipl s' = ipl s
    \<and> Q' kt_runq = (if Q m = [] then Q kt_runq else last (Q m) # Q kt_runq)"
  using kmutex_unlock_refines [OF assms] .

theorem kmutex_unlock_hands_over_witness:
  "\<exists>s' Q'. kmutex_unlock 2 demo_mutex = Some s' \<and> mutex_abs Q' 2 s' = (10, [11]) \<and> Q' kt_runq = [10]"
  using kmutex_unlock_hands_over [OF demo_mutex_inv, of 2]
  by (auto simp: demo_mutex_def demo_queues_def kt_runq_def mutex_abs_def)

text \<open>
  C9: locking a free mutex makes the caller its holder at once; locking a held one leaves the holder
  and queues the caller behind all who wait already, before the processor is given away.
\<close>

theorem kmutex_lock_refines:
  assumes "mutex_inv L M Q s" and "m \<in> M" and "off_queue L (curthr s) s" and "curthr s \<noteq> km_holder s m"
  shows "\<exists>s1 Q1. mutex_inv L M Q1 s1 \<and> mutex_abs Q1 m s1 = alock (curthr s) (mutex_abs Q m s)
    \<and> (\<forall>m'\<in>M - {m}. mutex_abs Q1 m' s1 = mutex_abs Q m' s)
    \<and> kmutex_lock switch m s
      = (if km_holder s m = 0 then Some s1
         else switch s1 \<bind> (\<lambda>s2. Some (s2\<lparr>ipl := ipl s\<rparr>)))"
proof (cases "km_holder s m = 0")
  case True
  show ?thesis
    using kmutex_lock_free(1) [OF assms(1,2) True assms(3), of switch]
      kmutex_lock_free(2) [OF assms(1,2) True assms(3)] True
    by (intro exI [of _ "set_holder m (curthr s) s"] exI [of _ Q]) (auto simp: mutex_abs_def set_holder_def)
next
  case False
  from kmutex_lock_held [OF assms(1,2) False assms(3,4), of switch] obtain s1 where
    "mutex_inv L M (Q(m := curthr s # Q m)) s1" "km_holder s1 = km_holder s"
    "kmutex_lock switch m s
      = switch s1 \<bind> (\<lambda>s2. Some (s2\<lparr>ipl := ipl s\<rparr>))" by blast
  then show ?thesis
    using False by (intro exI [of _ s1] exI [of _ "Q(m := curthr s # Q m)"]) (auto simp: mutex_abs_def)
qed

theorem kmutex_lock_refines_witness:
  "\<exists>s1 Q1. mutex_inv {1, 2} {2} Q1 s1 \<and> mutex_abs Q1 2 s1 = (12, [10, 11, 13])
    \<and> kmutex_lock (sched_switch (\<lambda>_. 9) id (\<lambda>_. None)) 2 (demo_mutex\<lparr>curthr := 13\<rparr>)
      = sched_switch (\<lambda>_. 9) id (\<lambda>_. None) s1 \<bind> (\<lambda>s2. Some (s2\<lparr>ipl := 0\<rparr>))"
proof -
  let ?s = "demo_mutex\<lparr>curthr := 13\<rparr>"
  have "mutex_inv {1, 2} {2} demo_queues ?s" using demo_mutex_inv by (simp only: mutex_inv_curthr)
  from kmutex_lock_refines [OF this, of 2 "sched_switch (\<lambda>_. 9) id (\<lambda>_. None)"] show ?thesis
    by (auto simp: demo_mutex_def demo_sched_def demo_thread_def demo_queues_def off_queue_def mutex_abs_def)
qed

text \<open>
  C34: mutexes are fair.  If each holder in turn unlocks the mutex, it goes to the waiting threads in
  the order in which they arrived, and after the last of them it is free.
\<close>

theorem kmutex_fair:
  assumes "mutex_inv L M Q s" and "m \<in> M" and "km_holder s m \<noteq> 0"
  shows "handoffs (Suc (length (Q m))) m s = Some (rev (Q m) @ [0])"
  using handoffs_waiters [OF assms refl] by simp

theorem kmutex_fair_witness: "handoffs 3 2 demo_mutex = Some [10, 11, 0]"
  using kmutex_fair [OF demo_mutex_inv, of 2]
  by (simp add: demo_mutex_def demo_queues_def numeral_3_eq_3)

text \<open>
  C39: a cancelled thread that calls \<^verbatim>\<open>kmutex_lock_cancellable\<close> on a mutex held by another is told
  that it succeeded (the return value is 0), but the mutex still belongs to the other thread.
\<close>

theorem kmutex_lock_cancellable_unowned:
  assumes "km_holder s m \<noteq> 0" and "curthr s \<noteq> 0" and "curthr s \<noteq> km_holder s m"
    and "kt_cancelled (kt s (curthr s)) = 1"
  shows "\<exists>s'. kmutex_lock_cancellable switch m s = Some (0, s')
    \<and> km_holder s' m = km_holder s m \<and> curthr s' = curthr s
    \<and> kt_state (kt s' (curthr s)) = KT_SLEEP_CANCELLABLE"
  using assms
  by (simp add: kmutex_lock_cancellable_def sched_cancellable_sleep_on_def Let_def set_state_def upd_kt_def)

theorem kmutex_lock_cancellable_unowned_witness:
  "\<exists>s'. kmutex_lock_cancellable Some 2
      (upd_kt 13 (\<lambda>k. k\<lparr>kt_cancelled := 1\<rparr>) (demo_mutex\<lparr>curthr := 13\<rparr>)) = Some (0, s')
    \<and> km_holder s' 2 = 12 \<and> curthr s' = 13"
  using kmutex_lock_cancellable_unowned [of "upd_kt 13 (\<lambda>k. k\<lparr>kt_cancelled := 1\<rparr>) (demo_mutex\<lparr>curthr := 13\<rparr>)"
      2 Some]
  by (auto simp: demo_mutex_def upd_kt_def)

end
