(* ===== verification/Kstate.thy ===== *)
theory Kstate
  imports Kmutex Kstring
begin

text \<open>
  The state of the whole kernel: processes, devices, vnodes, open files and the RAM file system, on
  top of the scheduler and the mutexes.  Objects are named by their addresses, 0 is NULL.  The
  lists of processes, children, threads, devices and vnodes are given by their contents, which is
  what the list macros make of them.  Memory comes from \<open>answers\<close>, the addresses the allocators
  return next, with 0 or the end of the list for an exhausted memory; what is given back is
  recorded in \<open>freed\<close>.
\<close>

definition NFILES :: nat where "NFILES = 32"
definition NAME_LEN :: nat where "NAME_LEN = 28"
definition MAXPATHLEN :: nat where "MAXPATHLEN = 1024"
definition PAGE_SIZE :: nat where "PAGE_SIZE = 4096"
definition RAMFS_MAX_FILES :: nat where "RAMFS_MAX_FILES = 64"
definition RAMFS_MAX_DIRENT :: nat where "RAMFS_MAX_DIRENT = 128"
definition DIRENT_SIZE :: int where "DIRENT_SIZE = 32"

lemmas kernel_consts = NFILES_def NAME_LEN_def MAXPATHLEN_def PAGE_SIZE_def RAMFS_MAX_FILES_def
  RAMFS_MAX_DIRENT_def DIRENT_SIZE_def

datatype proc_state = PROC_RUNNING | PROC_DEAD

record proc =
  p_pid :: int
  p_comm :: string
  p_pproc :: nat
  p_status :: int
  p_state :: proc_state
  p_pagedir :: nat
  p_files :: "nat list"
  p_cwd :: nat

record kprocs = ksync +
  procs :: "nat \<Rightarrow> proc"
  proc_list :: "nat list"
  p_threads :: "nat \<Rightarrow> nat list"
  p_children :: "nat \<Rightarrow> nat list"
  next_pid :: int
  proc_initproc :: nat
  pt_current :: nat
  answers :: "nat list"
  freed :: "nat list"

section \<open>File system objects\<close>

datatype vops = NullVops | RamfsDir | RamfsFile | BytedevSpec | BlockdevSpec

record vnode =
  vn_fs :: nat
  vn_ops :: vops
  vn_vno :: nat
  vn_mode :: nat
  vn_len :: int
  vn_i :: nat
  vn_devid :: nat
  vn_cdev :: nat
  vn_bdev :: nat
  vn_busy :: bool
  vn_refcount :: int
  vn_respages :: "nat list"

record file_t =
  f_pos :: int
  f_mode :: nat
  f_refcount :: int
  f_vnode :: nat

record ramfs_dirent =
  rd_ino :: nat
  rd_name :: string

text \<open>
  The memory of an inode is a page of bytes, a page of directory entries, or, for a device file,
  the device number in place of a pointer.
\<close>

datatype rfmem = DataPage nat "8 word list" | DirPage nat "ramfs_dirent list" | DevId nat

datatype rftype = RAMFS_TYPE_DATA | RAMFS_TYPE_DIR | RAMFS_TYPE_CHR | RAMFS_TYPE_BLK

record ramfs_inode =
  rf_size :: int
  rf_ino :: nat
  rf_mem :: rfmem
  rf_mode :: rftype
  rf_linkcount :: int

datatype fsops = NullFsOps | RamfsOps

record fs =
  fs_dev :: string
  fs_type :: string
  fs_op :: fsops
  fs_root :: nat
  fs_i :: nat

record kstate = kprocs +
  vnodes :: "nat \<Rightarrow> vnode"
  vnode_inuse_list :: "nat list"
  files :: "nat \<Rightarrow> file_t"
  inodes :: "nat \<Rightarrow> ramfs_inode"
  ramfss :: "nat \<Rightarrow> nat list"
  fss :: "nat \<Rightarrow> fs"
  vfs_root_vn :: nat
  bytedevs :: "nat list"
  blockdevs :: "nat list"
  dev_id :: "nat \<Rightarrow> nat"
  dev_ops :: "nat \<Rightarrow> bool"

text \<open>
  What the file system reaches outside itself: \<open>e_switch\<close>, a call of \<^verbatim>\<open>sched_switch\<close> that returns
  when the caller runs again; \<open>e_undef\<close>, the value a function hands back that ends without a
  return statement; and the read and write operations of the byte devices.
\<close>

record env =
  e_switch :: "kstate \<Rightarrow> kstate option"
  e_undef :: int
  e_dev_read :: "nat \<Rightarrow> int \<Rightarrow> nat \<Rightarrow> kstate \<Rightarrow> (int \<times> 8 word list \<times> kstate) option"
  e_dev_write :: "nat \<Rightarrow> int \<Rightarrow> 8 word list \<Rightarrow> nat \<Rightarrow> kstate \<Rightarrow> (int \<times> kstate) option"

section \<open>Access\<close>

definition upd_vnode :: "nat \<Rightarrow> (vnode \<Rightarrow> vnode) \<Rightarrow> kstate \<Rightarrow> kstate" where
  "upd_vnode v f s = s\<lparr>vnodes := (vnodes s)(v := f (vnodes s v))\<rparr>"

definition upd_inode :: "nat \<Rightarrow> (ramfs_inode \<Rightarrow> ramfs_inode) \<Rightarrow> kstate \<Rightarrow> kstate" where
  "upd_inode i f s = s\<lparr>inodes := (inodes s)(i := f (inodes s i))\<rparr>"

definition upd_file :: "nat \<Rightarrow> (file_t \<Rightarrow> file_t) \<Rightarrow> kstate \<Rightarrow> kstate" where
  "upd_file a f s = s\<lparr>files := (files s)(a := f (files s a))\<rparr>"

definition upd_fs :: "nat \<Rightarrow> (fs \<Rightarrow> fs) \<Rightarrow> kstate \<Rightarrow> kstate" where
  "upd_fs a f s = s\<lparr>fss := (fss s)(a := f (fss s a))\<rparr>"

definition upd_proc :: "nat \<Rightarrow> (proc \<Rightarrow> proc) \<Rightarrow> 'a kprocs_scheme \<Rightarrow> 'a kprocs_scheme" where
  "upd_proc p f s = s\<lparr>procs := (procs s)(p := f (procs s p))\<rparr>"

definition alloc :: "'a kprocs_scheme \<Rightarrow> nat \<times> 'a kprocs_scheme" where
  "alloc s = (case answers s of [] \<Rightarrow> (0, s) | a # as \<Rightarrow> (a, s\<lparr>answers := as\<rparr>))"

definition free_obj :: "nat \<Rightarrow> 'a kprocs_scheme \<Rightarrow> 'a kprocs_scheme" where
  "free_obj a s = s\<lparr>freed := a # freed s\<rparr>"

text \<open>A vnode may be looked at as long as it is on the list of vnodes in use.\<close>

definition vnode_at :: "nat \<Rightarrow> kstate \<Rightarrow> vnode option" where
  "vnode_at v s = (if v \<in> set (vnode_inuse_list s) then Some (vnodes s v) else None)"

section \<open>File types\<close>

definition S_IFCHR :: nat where "S_IFCHR = 0x0100"
definition S_IFDIR :: nat where "S_IFDIR = 0x0200"
definition S_IFBLK :: nat where "S_IFBLK = 0x0400"
definition S_IFREG :: nat where "S_IFREG = 0x0800"

definition S_TYPE :: "nat \<Rightarrow> nat" where "S_TYPE m = (m div 256) mod 256 * 256"

definition S_ISCHR :: "nat \<Rightarrow> bool" where "S_ISCHR m \<longleftrightarrow> S_TYPE m = S_IFCHR"
definition S_ISDIR :: "nat \<Rightarrow> bool" where "S_ISDIR m \<longleftrightarrow> S_TYPE m = S_IFDIR"
definition S_ISBLK :: "nat \<Rightarrow> bool" where "S_ISBLK m \<longleftrightarrow> S_TYPE m = S_IFBLK"

lemmas mode_defs = S_IFCHR_def S_IFDIR_def S_IFBLK_def S_IFREG_def S_TYPE_def S_ISCHR_def S_ISDIR_def
  S_ISBLK_def

section \<open>Device tables\<close>

text \<open>
  \<^verbatim>\<open>drivers/bytedev.c\<close> and \<^verbatim>\<open>drivers/blockdev.c\<close>: registration and lookup of devices by number;
  \<open>dev_ops\<close> says whether a device has its table of operations.
\<close>

definition bytedev_register :: "nat \<Rightarrow> kstate \<Rightarrow> int \<times> kstate" where
  "bytedev_register dev s =
     (if dev = 0 \<or> dev_id s dev = 0 \<or> \<not> dev_ops s dev then (-1, s)
      else if \<exists>cd\<in>set (bytedevs s). dev_id s dev = dev_id s cd then (-1, s)
      else (0, s\<lparr>bytedevs := bytedevs s @ [dev]\<rparr>))"

fun dev_find :: "(nat \<Rightarrow> nat) \<Rightarrow> nat \<Rightarrow> nat list \<Rightarrow> nat" where
  "dev_find did i [] = 0"
| "dev_find did i (d # ds) = (if i = did d then d else dev_find did i ds)"

fun bytedev_find :: "(nat \<Rightarrow> nat) \<Rightarrow> nat \<Rightarrow> nat list \<Rightarrow> nat option" where
  "bytedev_find did i [] = Some 0"
| "bytedev_find did i (d # ds) =
     (if did d = 0 then None else if i = did d then Some d else bytedev_find did i ds)"

definition bytedev_lookup :: "nat \<Rightarrow> kstate \<Rightarrow> nat option" where
  "bytedev_lookup i s = bytedev_find (dev_id s) i (bytedevs s)"

definition blockdev_register :: "nat \<Rightarrow> kstate \<Rightarrow> int \<times> kstate" where
  "blockdev_register dev s =
     (if dev = 0 \<or> dev_id s dev = 0 \<or> \<not> dev_ops s dev then (-1, s)
      else if \<exists>bd\<in>set (blockdevs s). dev_id s dev = dev_id s bd then (-1, s)
      else (0, s\<lparr>blockdevs := blockdevs s @ [dev]\<rparr>))"

definition blockdev_lookup :: "nat \<Rightarrow> kstate \<Rightarrow> nat" where
  "blockdev_lookup i s = dev_find (dev_id s) i (blockdevs s)"

text \<open>The device tables never hold a null device or two devices of one number.\<close>

definition devs_ok :: "kstate \<Rightarrow> nat list \<Rightarrow> bool" where
  "devs_ok s ds \<longleftrightarrow> 0 \<notin> set ds \<and> distinct (map (dev_id s) ds) \<and> (\<forall>d\<in>set ds. dev_id s d \<noteq> 0)"

lemma dev_find_mem: "distinct (map did ds) \<Longrightarrow> d \<in> set ds \<Longrightarrow> dev_find did (did d) ds = d"
  by (induction ds) (auto simp: image_iff)

lemma dev_find_none: "(\<forall>d\<in>set ds. did d \<noteq> i) \<Longrightarrow> dev_find did i ds = 0"
  by (induction ds) auto

lemma bytedev_find_eq: "\<forall>d\<in>set ds. did d \<noteq> 0 \<Longrightarrow> bytedev_find did i ds = Some (dev_find did i ds)"
  by (induction ds) auto

end
