(* ===== verification/Vnode.thy ===== *)
theory Vnode
  imports Kstate
begin

text \<open>
  Vnodes (\<^verbatim>\<open>kernel/fs/vnode.c\<close>) and the entry points of the RAM file system they call
  (\<^verbatim>\<open>kernel/fs/ramfs/ramfs.c\<close>).  A vnode's wait queue is named by the vnode's address, its mutex
  by an address inside the structure.  No page of a file is ever resident in this configuration,
  because the page cache has no way to bring one in, so the loop of \<^verbatim>\<open>vput\<close> over the resident pages
  is only given for a vnode without any.
\<close>

definition vn_waitq :: "nat \<Rightarrow> nat" where "vn_waitq vn = vn"
definition vn_mutex :: "nat \<Rightarrow> nat" where "vn_mutex vn = vn + 64"

definition vn_nrespages :: "vnode \<Rightarrow> int" where "vn_nrespages v = int (length (vn_respages v))"

section \<open>Inodes\<close>

fun mem_addr :: "rfmem \<Rightarrow> nat" where
  "mem_addr (DataPage p _) = p"
| "mem_addr (DirPage p _) = p"
| "mem_addr (DevId d) = d"

definition ramfs_alloc_inode :: "nat \<Rightarrow> rftype \<Rightarrow> nat \<Rightarrow> kstate \<Rightarrow> int \<times> kstate" where
  "ramfs_alloc_inode f type devid s =
     (let rfs = fs_i (fss s f) in
      case find_idx (\<lambda>a. a = 0) (ramfss s rfs) of
        None \<Rightarrow> (- ENOSPC, s)
      | Some i \<Rightarrow>
          (let (inode, s1) = alloc s in
           if inode = 0 then (- ENOSPC, s1)
           else
             let (ok, mem, s2) =
               (if type = RAMFS_TYPE_CHR \<or> type = RAMFS_TYPE_BLK then (True, DevId devid, s1)
                else let (page, s') = alloc s1 in
                  (page \<noteq> 0,
                   if type = RAMFS_TYPE_DIR
                   then DirPage page (replicate RAMFS_MAX_DIRENT \<lparr>rd_ino = 0, rd_name = []\<rparr>)
                   else DataPage page (replicate PAGE_SIZE 0), s'))
             in if \<not> ok then (- ENOSPC, free_obj inode s2)
                else (int i, s2\<lparr>inodes := (inodes s2)(inode := \<lparr>rf_size = 0, rf_ino = i, rf_mem = mem,
                        rf_mode = type, rf_linkcount = 1\<rparr>),
                      ramfss := (ramfss s2)(rfs := (ramfss s2 rfs)[i := inode])\<rparr>)))"

definition ramfs_read_vnode :: "nat \<Rightarrow> kstate \<Rightarrow> kstate option" where
  "ramfs_read_vnode vn s = do {
     let v = vnodes s vn;
     let rfs = fs_i (fss s (vn_fs v));
     kassert (vn_vno v < length (ramfss s rfs));
     let inode = ramfss s rfs ! vn_vno v;
     kassert (inode \<noteq> 0 \<and> rf_ino (inodes s inode) = vn_vno v);
     let s1 = upd_inode inode (\<lambda>i. i\<lparr>rf_linkcount := rf_linkcount i + 1\<rparr>) s;
     let s2 = upd_vnode vn (\<lambda>v. v\<lparr>vn_i := inode, vn_len := rf_size (inodes s1 inode)\<rparr>) s1;
     let devid = mem_addr (rf_mem (inodes s1 inode));
     Some (upd_vnode vn (\<lambda>v. case rf_mode (inodes s1 inode) of
         RAMFS_TYPE_DATA \<Rightarrow> v\<lparr>vn_mode := S_IFREG, vn_ops := RamfsFile\<rparr>
       | RAMFS_TYPE_DIR \<Rightarrow> v\<lparr>vn_mode := S_IFDIR, vn_ops := RamfsDir\<rparr>
       | RAMFS_TYPE_CHR \<Rightarrow> v\<lparr>vn_mode := S_IFCHR, vn_ops := NullVops, vn_devid := devid\<rparr>
       | RAMFS_TYPE_BLK \<Rightarrow> v\<lparr>vn_mode := S_IFBLK, vn_ops := NullVops, vn_devid := devid\<rparr>) s2)
   }"

definition ramfs_delete_vnode :: "nat \<Rightarrow> kstate \<Rightarrow> kstate option" where
  "ramfs_delete_vnode vn s = do {
     let v = vnodes s vn;
     let inode = vn_i v;
     let rfs = fs_i (fss s (vn_fs v));
     let s1 = upd_inode inode (\<lambda>i. i\<lparr>rf_linkcount := rf_linkcount i - 1\<rparr>) s;
     if rf_linkcount (inodes s1 inode) = 0 then do {
       kassert (vn_vno v < length (ramfss s1 rfs) \<and> ramfss s1 rfs ! vn_vno v = inode);
       let s2 = s1\<lparr>ramfss := (ramfss s1)(rfs := (ramfss s1 rfs)[vn_vno v := 0])\<rparr>;
       let s3 = (if rf_mode (inodes s2 inode) = RAMFS_TYPE_DATA \<or> rf_mode (inodes s2 inode) = RAMFS_TYPE_DIR
                 then free_obj (mem_addr (rf_mem (inodes s2 inode))) s2 else s2);
       Some (free_obj inode s3)
     } else Some s1
   }"

definition ramfs_query_vnode :: "nat \<Rightarrow> kstate \<Rightarrow> bool" where
  "ramfs_query_vnode vn s \<longleftrightarrow> rf_linkcount (inodes s (vn_i (vnodes s vn))) > 1"

section \<open>References\<close>

definition vref :: "nat \<Rightarrow> kstate \<Rightarrow> kstate option" where
  "vref vn s = do {
     v \<leftarrow> vnode_at vn s;
     kassert (0 < vn_refcount v);
     Some (upd_vnode vn (\<lambda>v. v\<lparr>vn_refcount := vn_refcount v + 1\<rparr>) s)
   }"

definition init_special_vnode :: "nat \<Rightarrow> kstate \<Rightarrow> kstate option" where
  "init_special_vnode vn s =
     (if S_ISCHR (vn_mode (vnodes s vn)) then do {
        cd \<leftarrow> bytedev_lookup (vn_devid (vnodes s vn)) s;
        Some (upd_vnode vn (\<lambda>v. v\<lparr>vn_ops := BytedevSpec, vn_cdev := cd\<rparr>) s)
      } else do {
        kassert (S_ISBLK (vn_mode (vnodes s vn)));
        Some (upd_vnode vn (\<lambda>v. v\<lparr>vn_ops := BlockdevSpec,
          vn_bdev := blockdev_lookup (vn_devid (vnodes s vn)) s\<rparr>) s)
      })"

text \<open>
  The part of \<^verbatim>\<open>vget\<close> behind the search: a new vnode at address \<open>vn\<close> is set up and put in use, then
  the file system fills it.
\<close>

definition vnode_setup :: "nat \<Rightarrow> nat \<Rightarrow> nat \<Rightarrow> kstate \<Rightarrow> kstate option" where
  "vnode_setup vn f vno s = do {
     let s1 = upd_vnode vn (\<lambda>_. \<lparr>vn_fs = f, vn_ops = NullVops, vn_vno = vno, vn_mode = 0, vn_len = 0,
       vn_i = 0, vn_devid = 0, vn_cdev = 0, vn_bdev = 0, vn_busy = False, vn_refcount = 0,
       vn_respages = []\<rparr>) s;
     s2 \<leftarrow> kmutex_init (vn_mutex vn) s1;
     let s3 = sched_queue_init (vn_waitq vn) s2;
     let s4 = upd_vnode vn (\<lambda>v. v\<lparr>vn_busy := True\<rparr>) s3;
     Some (s4\<lparr>vnode_inuse_list := vn # vnode_inuse_list s4\<rparr>)
   }"

definition vnode_fill :: "nat \<Rightarrow> kstate \<Rightarrow> kstate option" where
  "vnode_fill vn s = do {
     kassert (fs_op (fss s (vn_fs (vnodes s vn))) = RamfsOps);
     s1 \<leftarrow> ramfs_read_vnode vn s;
     let s2 = upd_vnode vn (\<lambda>v. v\<lparr>vn_busy := False\<rparr>) s1;
     s3 \<leftarrow> (if S_ISCHR (vn_mode (vnodes s2 vn)) \<or> S_ISBLK (vn_mode (vnodes s2 vn))
           then init_special_vnode vn s2 else Some s2);
     Some (upd_vnode vn (\<lambda>v. v\<lparr>vn_refcount := 1\<rparr>) s3)
   }"

definition vget_new :: "nat \<Rightarrow> nat \<Rightarrow> nat \<Rightarrow> kstate \<Rightarrow> kstate option" where
  "vget_new vn f vno s = vnode_setup vn f vno s \<bind> vnode_fill vn"

definition vnode_search :: "nat \<Rightarrow> nat \<Rightarrow> kstate \<Rightarrow> nat option" where
  "vnode_search f vno s =
     List.find (\<lambda>vn. vn_fs (vnodes s vn) = f \<and> vn_vno (vnodes s vn) = vno) (vnode_inuse_list s)"

definition proc_pid :: "'a kprocs_scheme \<Rightarrow> nat \<Rightarrow> int" where
  "proc_pid s p = p_pid (procs s p)"

partial_function (option) vget :: "env \<Rightarrow> nat \<Rightarrow> nat \<Rightarrow> kstate \<Rightarrow> (nat \<times> kstate) option" where
  [code]: "vget e f vno s = do {
     kassert (f \<noteq> 0);
     case vnode_search f vno s of
       Some vn \<Rightarrow>
         if vn_busy (vnodes s vn)
         then sched_sleep_on (e_switch e) (vn_waitq vn) s \<bind> vget e f vno
         else do { s1 \<leftarrow> vref vn s; Some (vn, s1) }
     | None \<Rightarrow>
         let (vn, s1) = alloc s in
         if vn = 0
         then sched_make_runnable (proc_pid s1) (curthr s1) s1 \<bind> e_switch e \<bind> vget e f vno
         else do { s2 \<leftarrow> vget_new vn f vno s1; Some (vn, s2) }
   }"

definition vput :: "nat \<Rightarrow> kstate \<Rightarrow> kstate option" where
  "vput vn s = do {
     kassert (vn \<noteq> 0);
     v \<leftarrow> vnode_at vn s;
     kassert (vn_nrespages v < vn_refcount v);
     kassert (\<not> vn_busy v);
     kassert (fs_op (fss s (vn_fs v)) = RamfsOps);
     _ \<leftarrow> (if vn_nrespages v = vn_refcount v - 1 \<and> \<not> ramfs_query_vnode vn s
          then kassert (vn_respages v = [] \<and> vn_refcount v = 1) else Some ());
     let s1 = upd_vnode vn (\<lambda>v. v\<lparr>vn_refcount := vn_refcount v - 1\<rparr>) s;
     if 0 < vn_refcount (vnodes s1 vn) then Some s1
     else do {
       kassert (vn_refcount (vnodes s1 vn) = 0);
       kassert (vn_nrespages (vnodes s1 vn) = 0);
       let s2 = upd_vnode vn (\<lambda>v. v\<lparr>vn_busy := True\<rparr>) s1;
       s3 \<leftarrow> ramfs_delete_vnode vn s2;
       s4 \<leftarrow> sched_broadcast_on (vn_waitq vn) s3;
       let s5 = s4\<lparr>vnode_inuse_list := remove1 vn (vnode_inuse_list s4)\<rparr>;
       Some (free_obj vn s5)
     }
   }"

definition vfs_is_in_use :: "nat \<Rightarrow> kstate \<Rightarrow> int option" where
  "vfs_is_in_use f s = foldM (\<lambda>vn ret. do {
       let v = vnodes s vn;
       kassert (vn_refcount v \<ge> vn_nrespages v);
       if f \<noteq> vn_fs v then Some ret
       else do {
         let refs = vn_refcount v - vn_nrespages v;
         let root = (fs_root (fss s (vn_fs v)) = vn);
         kassert (0 \<le> refs);
         kassert (root \<and> 1 \<le> refs \<or> \<not> root \<and> 0 \<le> refs);
         if root \<and> 1 < refs \<or> \<not> root \<and> refs \<noteq> 0 then Some (- EBUSY) else Some ret
       }
     }) (vnode_inuse_list s) 0"

definition vnode_inuse :: "nat \<Rightarrow> kstate \<Rightarrow> nat" where
  "vnode_inuse f s = length (filter (\<lambda>vn. vn_fs (vnodes s vn) = f) (vnode_inuse_list s))"

end
