(* ===== verification/Vcache.thy ===== *)
theory Vcache
  imports Vnode
begin

text \<open>
  What \<^verbatim>\<open>vget\<close> and \<^verbatim>\<open>vput\<close> promise.  The kernel mounts one file system, \<open>f\<close>; its vnodes in use are
  a cache of its inodes.  To a client the cache is a counter of references for every inode number.
\<close>

section \<open>The invariant\<close>

text \<open>
  Every vnode in use is settled, has a reference and an empty wait queue, and stands for an inode
  whose type and number it shows; no two stand for the same inode.
\<close>

definition vn_kind :: "rftype \<Rightarrow> nat \<times> vops" where
  "vn_kind t = (case t of RAMFS_TYPE_DATA \<Rightarrow> (S_IFREG, RamfsFile) | RAMFS_TYPE_DIR \<Rightarrow> (S_IFDIR, RamfsDir)
     | RAMFS_TYPE_CHR \<Rightarrow> (S_IFCHR, BytedevSpec) | RAMFS_TYPE_BLK \<Rightarrow> (S_IFBLK, BlockdevSpec))"

definition inode_of :: "nat \<Rightarrow> nat \<Rightarrow> kstate \<Rightarrow> nat" where
  "inode_of f ino s = ramfss s (fs_i (fss s f)) ! ino"

definition inode_ok :: "nat \<Rightarrow> nat \<Rightarrow> kstate \<Rightarrow> bool" where
  "inode_ok f ino s \<longleftrightarrow> ino < length (ramfss s (fs_i (fss s f))) \<and> inode_of f ino s \<noteq> 0
     \<and> rf_ino (inodes s (inode_of f ino s)) = ino"

definition vn_shape :: "nat \<Rightarrow> kstate \<Rightarrow> vnode \<Rightarrow> bool" where
  "vn_shape f s v \<longleftrightarrow> vn_fs v = f \<and> \<not> vn_busy v \<and> vn_respages v = []
     \<and> inode_ok f (vn_vno v) s \<and> vn_i v = inode_of f (vn_vno v) s
     \<and> (vn_mode v, vn_ops v) = vn_kind (rf_mode (inodes s (vn_i v)))
     \<and> 0 < rf_linkcount (inodes s (vn_i v))"

definition vnode_ok :: "nat \<Rightarrow> nat \<Rightarrow> kstate \<Rightarrow> bool" where
  "vnode_ok f vn s \<longleftrightarrow> vn \<noteq> 0 \<and> 0 < vn_refcount (vnodes s vn) \<and> vn_shape f s (vnodes s vn)
     \<and> list_empty (vn_waitq vn) (qh s)"

definition cache_ok :: "nat \<Rightarrow> kstate \<Rightarrow> bool" where
  "cache_ok f s \<longleftrightarrow> f \<noteq> 0 \<and> fs_op (fss s f) = RamfsOps \<and> distinct (vnode_inuse_list s)
     \<and> (\<forall>vn\<in>set (vnode_inuse_list s). vnode_ok f vn s)
     \<and> inj_on (\<lambda>vn. vn_vno (vnodes s vn)) (set (vnode_inuse_list s))
     \<and> (\<forall>d\<in>set (bytedevs s). dev_id s d \<noteq> 0)"

text \<open>The references to an inode, 0 when it is not in use.\<close>

definition refs :: "nat \<Rightarrow> kstate \<Rightarrow> nat \<Rightarrow> int" where
  "refs f s ino = (case vnode_search f ino s of None \<Rightarrow> 0 | Some vn \<Rightarrow> vn_refcount (vnodes s vn))"

text \<open>The names of an inode: what its link count counts besides the vnode in use.\<close>

definition nlinks :: "nat \<Rightarrow> kstate \<Rightarrow> nat \<Rightarrow> int" where
  "nlinks f s ino = rf_linkcount (inodes s (inode_of f ino s)) - (if refs f s ino = 0 then 0 else 1)"

section \<open>Selectors\<close>

lemmas fs_upd_defs = upd_vnode_def upd_inode_def upd_file_def upd_fs_def upd_proc_def free_obj_def

lemma upd_vnode_sel [simp]:
  "vnodes (upd_vnode a g s) = (vnodes s)(a := g (vnodes s a))"
  "vnode_inuse_list (upd_vnode a g s) = vnode_inuse_list s" "files (upd_vnode a g s) = files s"
  "inodes (upd_vnode a g s) = inodes s" "ramfss (upd_vnode a g s) = ramfss s" "fss (upd_vnode a g s) = fss s"
  "vfs_root_vn (upd_vnode a g s) = vfs_root_vn s" "bytedevs (upd_vnode a g s) = bytedevs s"
  "blockdevs (upd_vnode a g s) = blockdevs s" "dev_id (upd_vnode a g s) = dev_id s"
  "procs (upd_vnode a g s) = procs s" "curproc (upd_vnode a g s) = curproc s" "qh (upd_vnode a g s) = qh s"
  "answers (upd_vnode a g s) = answers s" "freed (upd_vnode a g s) = freed s"
  by (simp_all add: upd_vnode_def)

lemma upd_inode_sel [simp]:
  "inodes (upd_inode a g s) = (inodes s)(a := g (inodes s a))"
  "vnodes (upd_inode a g s) = vnodes s"
  "vnode_inuse_list (upd_inode a g s) = vnode_inuse_list s" "files (upd_inode a g s) = files s"
  "ramfss (upd_inode a g s) = ramfss s" "fss (upd_inode a g s) = fss s"
  "vfs_root_vn (upd_inode a g s) = vfs_root_vn s" "bytedevs (upd_inode a g s) = bytedevs s"
  "blockdevs (upd_inode a g s) = blockdevs s" "dev_id (upd_inode a g s) = dev_id s"
  "procs (upd_inode a g s) = procs s" "curproc (upd_inode a g s) = curproc s" "qh (upd_inode a g s) = qh s"
  "answers (upd_inode a g s) = answers s" "freed (upd_inode a g s) = freed s"
  by (simp_all add: upd_inode_def)

lemma free_obj_sel [simp]:
  fixes s :: kstate
  shows "freed (free_obj a s) = a # freed s" "inodes (free_obj a s) = inodes s" "vnodes (free_obj a s) = vnodes s"
  "vnode_inuse_list (free_obj a s) = vnode_inuse_list s" "files (free_obj a s) = files s"
  "ramfss (free_obj a s) = ramfss s" "fss (free_obj a s) = fss s"
  "vfs_root_vn (free_obj a s) = vfs_root_vn s" "bytedevs (free_obj a s) = bytedevs s"
  "blockdevs (free_obj a s) = blockdevs s" "dev_id (free_obj a s) = dev_id s"
  "procs (free_obj a s) = procs s" "curproc (free_obj a s) = curproc s" "qh (free_obj a s) = qh s"
  "answers (free_obj a s) = answers s"
  by (simp_all add: free_obj_def)

abbreviation add_ref :: "nat \<Rightarrow> int \<Rightarrow> kstate \<Rightarrow> kstate" where
  "add_ref vn d s \<equiv> upd_vnode vn (\<lambda>v. v\<lparr>vn_refcount := vn_refcount v + d\<rparr>) s"

abbreviation in_use :: "nat \<Rightarrow> kstate \<Rightarrow> bool" where
  "in_use vn s \<equiv> vn \<in> set (vnode_inuse_list s)"

lemma cache_ok_vnode: "cache_ok f s \<Longrightarrow> in_use vn s \<Longrightarrow> vnode_ok f vn s"
  by (simp add: cache_ok_def)

lemma vnode_okD:
  assumes "vnode_ok f vn s"
  shows "vn \<noteq> 0" "0 < vn_refcount (vnodes s vn)" "vn_shape f s (vnodes s vn)" "list_empty (vn_waitq vn) (qh s)"
    "vn_fs (vnodes s vn) = f" "\<not> vn_busy (vnodes s vn)" "vn_respages (vnodes s vn) = []"
    "inode_ok f (vn_vno (vnodes s vn)) s" "vn_i (vnodes s vn) = inode_of f (vn_vno (vnodes s vn)) s"
    "0 < rf_linkcount (inodes s (vn_i (vnodes s vn)))"
  using assms unfolding vnode_ok_def vn_shape_def by blast+

lemma vn_shape_kind:
  "vn_shape f s v \<Longrightarrow> vn_mode v = fst (vn_kind (rf_mode (inodes s (vn_i v))))
     \<and> vn_ops v = snd (vn_kind (rf_mode (inodes s (vn_i v))))"
  unfolding vn_shape_def by (metis fst_conv snd_conv)

lemma vn_shape_cong:
  "ramfss s' = ramfss s \<Longrightarrow> fss s' = fss s \<Longrightarrow> inodes s' = inodes s \<Longrightarrow> vn_shape f s' = vn_shape f s"
  by (simp add: vn_shape_def inode_ok_def inode_of_def fun_eq_iff)

lemma vn_shape_upd [simp]:
  "vn_shape f (upd_vnode a g s) = vn_shape f s" "vn_shape f s (v\<lparr>vn_refcount := n\<rparr>) = vn_shape f s v"
  by (rule vn_shape_cong; simp) (simp add: vn_shape_def)

section \<open>Searching\<close>

lemma vnode_search_Some:
  "vnode_search f ino s = Some vn \<Longrightarrow> in_use vn s \<and> vn_fs (vnodes s vn) = f \<and> vn_vno (vnodes s vn) = ino"
  unfolding vnode_search_def find_Some_iff by (metis nth_mem)

lemma vnode_search_None:
  "vnode_search f ino s = None \<longleftrightarrow>
     (\<forall>vn. in_use vn s \<longrightarrow> \<not> (vn_fs (vnodes s vn) = f \<and> vn_vno (vnodes s vn) = ino))"
  unfolding vnode_search_def find_None_iff by blast

lemma vnode_search_hit:
  assumes "cache_ok f s" and "in_use vn s"
  shows "vnode_search f (vn_vno (vnodes s vn)) s = Some vn"
proof -
  have "\<forall>w\<in>set (vnode_inuse_list s). vn_fs (vnodes s w) = f
      \<and> vn_vno (vnodes s w) = vn_vno (vnodes s vn) \<longrightarrow> w = vn"
    using assms by (simp add: cache_ok_def inj_on_def)
  then show ?thesis
    unfolding vnode_search_def
    by (intro find_unique [OF assms(2)]) (simp_all add: vnode_okD(5) [OF cache_ok_vnode [OF assms]])
qed

lemma vnode_search_iff:
  "cache_ok f s \<Longrightarrow> vnode_search f ino s = Some vn \<longleftrightarrow> in_use vn s \<and> vn_vno (vnodes s vn) = ino"
  using vnode_search_Some vnode_search_hit by blast

lemma refs_vnode:
  "cache_ok f s \<Longrightarrow> in_use vn s \<Longrightarrow> refs f s (vn_vno (vnodes s vn)) = vn_refcount (vnodes s vn)"
  by (simp add: refs_def vnode_search_hit)

lemma refs_nonneg: "cache_ok f s \<Longrightarrow> 0 \<le> refs f s ino"
  using vnode_search_Some cache_ok_vnode vnode_okD(2)
  by (fastforce simp: refs_def split: option.splits)

lemma refs_zero: "cache_ok f s \<Longrightarrow> refs f s ino = 0 \<longleftrightarrow> vnode_search f ino s = None"
  using vnode_search_Some cache_ok_vnode vnode_okD(2)
  by (fastforce simp: refs_def split: option.splits)

text \<open>The invariant and the references depend on few parts of the state.\<close>

lemma vnode_search_cong:
  "vnode_inuse_list s' = vnode_inuse_list s \<Longrightarrow>
   (\<And>vn. in_use vn s \<Longrightarrow> vn_fs (vnodes s' vn) = vn_fs (vnodes s vn)
       \<and> vn_vno (vnodes s' vn) = vn_vno (vnodes s vn)) \<Longrightarrow> vnode_search f ino s' = vnode_search f ino s"
  unfolding vnode_search_def by (rule find_cong) auto

lemma cache_ok_cong:
  assumes "vnodes s' = vnodes s" and "vnode_inuse_list s' = vnode_inuse_list s" and "fss s' = fss s"
    and "ramfss s' = ramfss s" and "inodes s' = inodes s" and "qh s' = qh s" and "bytedevs s' = bytedevs s"
    and "dev_id s' = dev_id s"
  shows "cache_ok f s' = cache_ok f s"
  using vn_shape_cong [OF assms(4,3,5)] assms by (simp add: cache_ok_def vnode_ok_def)

lemma refs_cong:
  "vnodes s' = vnodes s \<Longrightarrow> vnode_inuse_list s' = vnode_inuse_list s \<Longrightarrow> refs f s' = refs f s"
  by (rule ext) (simp add: refs_def vnode_search_def cong: option.case_cong)

section \<open>Taking a reference\<close>

lemma vref_ok: "cache_ok f s \<Longrightarrow> in_use vn s \<Longrightarrow> vref vn s = Some (add_ref vn 1 s)"
  using vnode_okD(2) [OF cache_ok_vnode] by (simp add: vref_def vnode_at_def)

lemma add_ref_cancel: "add_ref vn (- d) (add_ref vn d s) = s"
  by (simp add: upd_vnode_def)

lemma cache_ok_add_ref:
  assumes "cache_ok f s" and "0 < vn_refcount (vnodes s vn) + d"
  shows "cache_ok f (add_ref vn d s)"
proof -
  have "vnode_ok f w (add_ref vn d s)" if "in_use w s" for w
    using cache_ok_vnode [OF assms(1) that] assms(2) by (auto simp: vnode_ok_def)
  moreover have "inj_on (\<lambda>w. vn_vno (vnodes (add_ref vn d s) w)) (set (vnode_inuse_list s))
      = inj_on (\<lambda>w. vn_vno (vnodes s w)) (set (vnode_inuse_list s))"
    by (rule inj_on_cong) simp
  ultimately show ?thesis using assms(1) unfolding cache_ok_def by simp
qed

lemma vnode_search_add_ref: "vnode_search f ino (add_ref vn d s) = vnode_search f ino s"
  by (rule vnode_search_cong) auto

lemma refs_add_ref:
  assumes "cache_ok f s" and "in_use vn s"
  shows "refs f (add_ref vn d s) = (refs f s)(vn_vno (vnodes s vn) := refs f s (vn_vno (vnodes s vn)) + d)"
proof (rule ext)
  fix ino
  show "refs f (add_ref vn d s) ino
      = ((refs f s)(vn_vno (vnodes s vn) := refs f s (vn_vno (vnodes s vn)) + d)) ino"
  proof (cases "vnode_search f ino s")
    case None
    then have "ino \<noteq> vn_vno (vnodes s vn)" using vnode_search_hit [OF assms] by (metis option.distinct(1))
    then show ?thesis using None by (simp add: refs_def vnode_search_add_ref)
  next
    case (Some w)
    then have w: "in_use w s" "vn_vno (vnodes s w) = ino" using vnode_search_Some by auto
    have "w = vn \<longleftrightarrow> ino = vn_vno (vnodes s vn)"
      using Some vnode_search_hit [OF assms] w(2) by (metis option.inject)
    then show ?thesis using Some vnode_search_hit [OF assms]
      by (cases "w = vn") (simp_all add: refs_def vnode_search_add_ref)
  qed
qed

lemma vget_hit:
  assumes "cache_ok f s" and "vnode_search f ino s = Some vn"
  shows "vget e f ino s = Some (vn, add_ref vn 1 s)"
proof -
  have vn: "in_use vn s" using vnode_search_Some [OF assms(2)] by simp
  have "f \<noteq> 0" "\<not> vn_busy (vnodes s vn)"
    using assms(1) vnode_okD(6) [OF cache_ok_vnode [OF assms(1) vn]] by (auto simp: cache_ok_def)
  then show ?thesis
    using assms(2) vref_ok [OF assms(1) vn] by (subst vget.simps) simp
qed

lemma vput_dec:
  assumes "cache_ok f s" and "in_use vn s" and "1 < vn_refcount (vnodes s vn)"
  shows "vput vn s = Some (add_ref vn (-1) s)"
proof -
  have "kassert (vn \<noteq> 0) = Some ()" "\<not> vn_busy (vnodes s vn)" "vn_respages (vnodes s vn) = []" "vn_fs (vnodes s vn) = f"
    using vnode_okD [OF cache_ok_vnode [OF assms(1,2)]] by auto
  moreover have "fs_op (fss s f) = RamfsOps" using assms(1) by (simp add: cache_ok_def)
  ultimately show ?thesis
    using assms(2,3) 
    by (simp add: vput_def vnode_at_def vn_nrespages_def Let_def)
qed

text \<open>A reference taken and given back again leaves no trace.\<close>

lemma vput_add_ref:
  assumes "cache_ok f s" and "in_use vn s"
  shows "vput vn (add_ref vn 1 s) = Some s"
proof -
  have pos: "0 < vn_refcount (vnodes s vn)" using vnode_okD(2) [OF cache_ok_vnode [OF assms]] .
  have "vput vn (add_ref vn 1 s) = Some (add_ref vn (-1) (add_ref vn 1 s))"
  proof (rule vput_dec)
    show "cache_ok f (add_ref vn 1 s)" using pos by (intro cache_ok_add_ref assms(1)) simp
  qed (use pos assms(2) in simp_all)
  then show ?thesis using add_ref_cancel [of vn 1 s] by simp
qed

section \<open>Bringing a vnode in\<close>

definition vnode_for :: "nat \<Rightarrow> nat \<Rightarrow> kstate \<Rightarrow> vnode" where
  "vnode_for f ino s =
     (let i = inode_of f ino s; n = inodes s i; t = rf_mode n; dev = mem_addr (rf_mem n)
      in \<lparr>vn_fs = f, vn_ops = snd (vn_kind t), vn_vno = ino, vn_mode = fst (vn_kind t), vn_len = rf_size n,
          vn_i = i, vn_devid = (if t = RAMFS_TYPE_CHR \<or> t = RAMFS_TYPE_BLK then dev else 0),
          vn_cdev = (if t = RAMFS_TYPE_CHR then dev_find (dev_id s) dev (bytedevs s) else 0),
          vn_bdev = (if t = RAMFS_TYPE_BLK then blockdev_lookup dev s else 0),
          vn_busy = False, vn_refcount = 1, vn_respages = []\<rparr>)"

definition with_vnode :: "nat \<Rightarrow> nat \<Rightarrow> nat \<Rightarrow> kstate \<Rightarrow> kstate" where
  "with_vnode vn f ino s =
     (let i = inode_of f ino s in
      s\<lparr>qh := list_init (vn_waitq vn) (list_init (vn_mutex vn) (qh s)),
        tq_size := (tq_size s)(vn_mutex vn := 0, vn_waitq vn := 0),
        km_holder := (km_holder s)(vn_mutex vn := 0),
        vnodes := (vnodes s)(vn := vnode_for f ino s),
        vnode_inuse_list := vn # vnode_inuse_list s,
        inodes := (inodes s)(i := (inodes s i)\<lparr>rf_linkcount := rf_linkcount (inodes s i) + 1\<rparr>)\<rparr>)"

lemma ramfs_read_vnode_ok:
  assumes "vn_fs (vnodes s vn) = f" and "vn_vno (vnodes s vn) = ino" and "inode_ok f ino s"
  defines "i \<equiv> inode_of f ino s"
  defines "t \<equiv> rf_mode (inodes s i)" and "dev \<equiv> mem_addr (rf_mem (inodes s i))"
  shows "ramfs_read_vnode vn s = Some (upd_vnode vn (\<lambda>v. v\<lparr>vn_i := i, vn_len := rf_size (inodes s i),
      vn_mode := fst (vn_kind t),
      vn_ops := (if t = RAMFS_TYPE_CHR \<or> t = RAMFS_TYPE_BLK then NullVops else snd (vn_kind t)),
      vn_devid := (if t = RAMFS_TYPE_CHR \<or> t = RAMFS_TYPE_BLK then dev else vn_devid v)\<rparr>)
      (upd_inode i (\<lambda>n. n\<lparr>rf_linkcount := rf_linkcount n + 1\<rparr>) s))"
proof -
  have "ino < length (ramfss s (fs_i (fss s f)))" "i \<noteq> 0" "rf_ino (inodes s i) = ino"
    using assms(3) by (simp_all add: inode_ok_def i_def)
  moreover have "i = ramfss s (fs_i (fss s f)) ! ino" by (simp add: i_def inode_of_def)
  ultimately show ?thesis
    using assms(1,2) unfolding t_def dev_def
    by (cases "rf_mode (inodes s i)")
       (simp_all add: ramfs_read_vnode_def Let_def vn_kind_def, simp_all add: upd_vnode_def upd_inode_def)
qed

lemma vnode_setup_ok:
  "vnode_setup vn f ino s = Some (s\<lparr>qh := list_init (vn_waitq vn) (list_init (vn_mutex vn) (qh s)),
     tq_size := (tq_size s)(vn_mutex vn := 0, vn_waitq vn := 0),
     km_holder := (km_holder s)(vn_mutex vn := 0),
     vnodes := (vnodes s)(vn := \<lparr>vn_fs = f, vn_ops = NullVops, vn_vno = ino, vn_mode = 0, vn_len = 0,
       vn_i = 0, vn_devid = 0, vn_cdev = 0, vn_bdev = 0, vn_busy = True, vn_refcount = 0,
       vn_respages = []\<rparr>),
     vnode_inuse_list := vn # vnode_inuse_list s\<rparr>)"
  by (simp add: vnode_setup_def kmutex_init_def set_holder_def sched_queue_init_def upd_vnode_def vn_mutex_def)

lemma vnode_fill_ok:
  assumes v: "vnodes s vn = \<lparr>vn_fs = f, vn_ops = NullVops, vn_vno = ino, vn_mode = 0, vn_len = 0,
       vn_i = 0, vn_devid = 0, vn_cdev = 0, vn_bdev = 0, vn_busy = True, vn_refcount = 0,
       vn_respages = []\<rparr>" (is "_ = ?v")
    and op: "fs_op (fss s f) = RamfsOps" and ok: "inode_ok f ino s"
    and d: "\<forall>d\<in>set (bytedevs s). dev_id s d \<noteq> 0"
  shows "vnode_fill vn s = Some (s\<lparr>vnodes := (vnodes s)(vn := vnode_for f ino s),
     inodes := (inodes s)(inode_of f ino s :=
       (inodes s (inode_of f ino s))\<lparr>rf_linkcount := rf_linkcount (inodes s (inode_of f ino s)) + 1\<rparr>)\<rparr>)"
proof -
  define i where "i = inode_of f ino s"
  have vf: "vn_fs (vnodes s vn) = f" "vn_vno (vnodes s vn) = ino" by (simp_all add: v)
  note r = ramfs_read_vnode_ok [OF vf ok, folded i_def]
  show ?thesis
    unfolding vnode_fill_def r vnode_for_def i_def [symmetric]
    using op bytedev_find_eq [OF d]
    by (cases "rf_mode (inodes s i)")
       (simp_all add: v Let_def vn_kind_def mode_defs init_special_vnode_def bytedev_lookup_def
         blockdev_lookup_def, simp_all add: v upd_vnode_def upd_inode_def)
qed

lemma vget_new_ok:
  assumes "cache_ok f s" and "inode_ok f ino s"
  shows "vget_new vn f ino s = Some (with_vnode vn f ino s)"
  unfolding vget_new_def vnode_setup_ok using assms
  by (simp add: vnode_fill_ok cache_ok_def inode_ok_def inode_of_def with_vnode_def vnode_for_def
      blockdev_lookup_def Let_def)

text \<open>Memory for a vnode that overlaps none in use.\<close>

definition vnode_room :: "nat \<Rightarrow> kstate \<Rightarrow> bool" where
  "vnode_room vn s \<longleftrightarrow> vn \<noteq> 0 \<and> (\<forall>w. in_use w s \<longrightarrow> w \<noteq> vn \<and> w \<noteq> vn_mutex vn)"

lemma vn_shape_links:
  assumes "vn_shape f s v" and "fss s' = fss s" and "inode_of f (vn_vno v) s' = inode_of f (vn_vno v) s"
    and "length (ramfss s' (fs_i (fss s f))) = length (ramfss s (fs_i (fss s f)))"
    and "rf_ino (inodes s' (vn_i v)) = rf_ino (inodes s (vn_i v))"
    and "rf_mode (inodes s' (vn_i v)) = rf_mode (inodes s (vn_i v))"
    and "0 < rf_linkcount (inodes s' (vn_i v))"
  shows "vn_shape f s' v"
  using assms by (auto simp: vn_shape_def inode_ok_def)

lemma with_vnode_sel [simp]:
  "vnodes (with_vnode vn f ino s) = (vnodes s)(vn := vnode_for f ino s)"
  "vnode_inuse_list (with_vnode vn f ino s) = vn # vnode_inuse_list s" "fss (with_vnode vn f ino s) = fss s"
  "ramfss (with_vnode vn f ino s) = ramfss s" "files (with_vnode vn f ino s) = files s"
  "inodes (with_vnode vn f ino s) = (inodes s)(inode_of f ino s :=
     (inodes s (inode_of f ino s))\<lparr>rf_linkcount := rf_linkcount (inodes s (inode_of f ino s)) + 1\<rparr>)"
  "bytedevs (with_vnode vn f ino s) = bytedevs s" "dev_id (with_vnode vn f ino s) = dev_id s"
  "qh (with_vnode vn f ino s) = list_init (vn_waitq vn) (list_init (vn_mutex vn) (qh s))"
  "procs (with_vnode vn f ino s) = procs s" "curproc (with_vnode vn f ino s) = curproc s"
  "vfs_root_vn (with_vnode vn f ino s) = vfs_root_vn s" "answers (with_vnode vn f ino s) = answers s"
  "freed (with_vnode vn f ino s) = freed s"
  by (simp_all add: with_vnode_def Let_def)

lemma vnode_for_sel [simp]:
  "vn_fs (vnode_for f ino s) = f" "vn_vno (vnode_for f ino s) = ino" "vn_i (vnode_for f ino s) = inode_of f ino s"
  "vn_refcount (vnode_for f ino s) = 1" "vn_busy (vnode_for f ino s) = False"
  "vn_respages (vnode_for f ino s) = []" "vn_len (vnode_for f ino s) = rf_size (inodes s (inode_of f ino s))"
  "vn_mode (vnode_for f ino s) = fst (vn_kind (rf_mode (inodes s (inode_of f ino s))))"
  "vn_ops (vnode_for f ino s) = snd (vn_kind (rf_mode (inodes s (inode_of f ino s))))"
  by (simp_all add: vnode_for_def Let_def)

lemma list_empty_list_init: "list_empty q (list_init p h) \<longleftrightarrow> q = p \<or> list_empty q h"
  by (auto simp: list_empty_def list_init_def)

lemma inode_of_cong: "ramfss s' = ramfss s \<Longrightarrow> fss s' = fss s \<Longrightarrow> inode_of f ino s' = inode_of f ino s"
  by (simp add: inode_of_def)

lemma inode_of_upd_vnode [simp]: "inode_of f ino (upd_vnode a g s) = inode_of f ino s"
  by (simp add: inode_of_def)

lemma cache_ok_with_vnode:
  assumes ok: "cache_ok f s" and ino: "inode_ok f ino s" "0 \<le> rf_linkcount (inodes s (inode_of f ino s))"
    and new: "vnode_search f ino s = None" "vnode_room vn s"
  shows "cache_ok f (with_vnode vn f ino s)"
proof -
  let ?s = "with_vnode vn f ino s"
  have fresh: "w \<noteq> vn" "vn_vno (vnodes s w) \<noteq> ino" if "in_use w s" for w
  proof -
    show "w \<noteq> vn" using new(2) that by (auto simp: vnode_room_def)
    show "vn_vno (vnodes s w) \<noteq> ino"
      using new(1) vnode_okD(5) [OF cache_ok_vnode [OF ok that]] that by (auto simp: vnode_search_None)
  qed
  have "vnode_ok f w ?s" if "in_use w s" for w
  proof -
    note w = vnode_okD [OF cache_ok_vnode [OF ok that]]
    have "vn_shape f ?s (vnodes s w)"
      by (rule vn_shape_links [OF w(3)]) (use w(10) in \<open>auto simp: inode_of_def\<close>)
    then show ?thesis using w(1,2,4) fresh(1) [OF that] by (simp add: vnode_ok_def list_empty_list_init)
  qed
  moreover have "vnode_ok f vn ?s"
    using ino new(2) by (simp add: vnode_ok_def vn_shape_def vnode_room_def inode_ok_def list_empty_list_init
        inode_of_cong [of ?s s])
  moreover have "inj_on (\<lambda>w. vn_vno (vnodes ?s w)) (set (vnode_inuse_list s))
      = inj_on (\<lambda>w. vn_vno (vnodes s w)) (set (vnode_inuse_list s))"
    by (rule inj_on_cong) (use fresh(1) in auto)
  moreover have "vn_vno (vnodes ?s vn) \<notin> (\<lambda>w. vn_vno (vnodes ?s w)) ` (set (vnode_inuse_list s) - {vn})"
    using fresh(2) by auto
  ultimately show ?thesis
    using ok fresh(1) by (auto simp: cache_ok_def inj_on_insert simp del: vnode_for_sel(2))
qed

lemma refs_with_vnode:
  assumes "cache_ok f s" and "vnode_room vn s"
  shows "refs f (with_vnode vn f ino s) = (refs f s)(ino := 1)"
proof (rule ext)
  fix j
  have "vnode_search f j (with_vnode vn f ino s) = (if j = ino then Some vn else vnode_search f j s)"
    using find_cong [OF refl, of "vnode_inuse_list s"
        "\<lambda>w. vn_fs (((vnodes s)(vn := vnode_for f ino s)) w) = f \<and> vn_vno (((vnodes s)(vn := vnode_for f ino s)) w) = j"
        "\<lambda>w. vn_fs (vnodes s w) = f \<and> vn_vno (vnodes s w) = j"] assms(2)
    by (auto simp: vnode_search_def vnode_room_def)
  moreover have "w \<noteq> vn" if "vnode_search f j s = Some w" for w
    using vnode_search_Some [OF that] assms(2) by (auto simp: vnode_room_def)
  ultimately show "refs f (with_vnode vn f ino s) j = ((refs f s)(ino := 1)) j"
    by (auto simp: refs_def split: option.splits)
qed

lemma vget_miss:
  assumes "cache_ok f s" and "inode_ok f ino s" and "vnode_search f ino s = None"
    and "answers s = vn # as" and "vn \<noteq> 0"
  shows "vget e f ino s = Some (vn, with_vnode vn f ino (s\<lparr>answers := as\<rparr>))"
proof -
  have "cache_ok f (s\<lparr>answers := as\<rparr>)" "inode_ok f ino (s\<lparr>answers := as\<rparr>)"
    using assms(1,2) cache_ok_cong [of "s\<lparr>answers := as\<rparr>" s f] by (simp_all add: inode_ok_def inode_of_def)
  then have "vget_new vn f ino (s\<lparr>answers := as\<rparr>) = Some (with_vnode vn f ino (s\<lparr>answers := as\<rparr>))"
    by (rule vget_new_ok)
  moreover have "f \<noteq> 0" using assms(1) by (simp add: cache_ok_def)
  ultimately show ?thesis using assms(3-5) by (subst vget.simps) (simp add: alloc_def)
qed

section \<open>Giving a reference back\<close>

text \<open>The last reference: the vnode goes, and the inode with it when it has no name left.\<close>

definition drop_inode :: "nat \<Rightarrow> nat \<Rightarrow> kstate \<Rightarrow> kstate" where
  "drop_inode f ino s =
     (let i = inode_of f ino s; n = inodes s i; rfs = fs_i (fss s f) in
      if rf_linkcount n = 1
      then s\<lparr>inodes := (inodes s)(i := n\<lparr>rf_linkcount := 0\<rparr>), ramfss := (ramfss s)(rfs := (ramfss s rfs)[ino := 0]),
             freed := i # (if rf_mode n = RAMFS_TYPE_DATA \<or> rf_mode n = RAMFS_TYPE_DIR
                           then mem_addr (rf_mem n) # freed s else freed s)\<rparr>
      else s\<lparr>inodes := (inodes s)(i := n\<lparr>rf_linkcount := rf_linkcount n - 1\<rparr>)\<rparr>)"

definition without_vnode :: "nat \<Rightarrow> kstate \<Rightarrow> kstate" where
  "without_vnode vn s =
     (let v = vnodes s vn;
          s1 = drop_inode (vn_fs v) (vn_vno v)
                 (s\<lparr>vnodes := (vnodes s)(vn := v\<lparr>vn_refcount := 0, vn_busy := True\<rparr>)\<rparr>);
          s2 = sched_queue_init (vn_waitq vn) s1
      in s2\<lparr>vnode_inuse_list := remove1 vn (vnode_inuse_list s), freed := vn # freed s1\<rparr>)"

lemma broadcast_empty: "list_empty q (qh s) \<Longrightarrow> sched_broadcast_on q s = Some (sched_queue_init q s)"
  by (subst sched_broadcast_on_def, subst broadcast_loop.simps) simp

lemma ramfs_delete_vnode_ok:
  assumes "vn_fs (vnodes s vn) = f" and "vn_vno (vnodes s vn) = ino" and "vn_i (vnodes s vn) = inode_of f ino s"
    and "ino < length (ramfss s (fs_i (fss s f)))"
  shows "ramfs_delete_vnode vn s = Some (drop_inode f ino s)"
  using assms unfolding ramfs_delete_vnode_def drop_inode_def inode_of_def
  by (simp add: Let_def upd_inode_def free_obj_def)

lemma vput_last:
  assumes "cache_ok f s" and "in_use vn s" and "vn_refcount (vnodes s vn) = 1"
  shows "vput vn s = Some (without_vnode vn s)"
proof -
  note v = vnode_okD [OF cache_ok_vnode [OF assms(1,2)]]
  have op: "fs_op (fss s f) = RamfsOps" using assms(1) by (simp add: cache_ok_def)
  define s2 where "s2 = s\<lparr>vnodes := (vnodes s)(vn := (vnodes s vn)\<lparr>vn_refcount := 0, vn_busy := True\<rparr>)\<rparr>"
  define s3 where "s3 = drop_inode f (vn_vno (vnodes s vn)) s2"
  have d: "ramfs_delete_vnode vn s2 = Some s3"
    unfolding s3_def using v(5,8,9)
    by (intro ramfs_delete_vnode_ok) (simp_all add: s2_def inode_ok_def inode_of_def)
  have e: "list_empty (vn_waitq vn) (qh s3)"
    using v(4) by (simp add: s3_def s2_def drop_inode_def Let_def)
  have l: "vnode_inuse_list s3 = vnode_inuse_list s" by (simp add: s3_def s2_def drop_inode_def Let_def)
  have k: "kassert (vn \<noteq> 0) = Some ()" using v(1) by simp
  have "upd_vnode vn (\<lambda>v. v\<lparr>vn_busy := True\<rparr>) (upd_vnode vn (\<lambda>v. v\<lparr>vn_refcount := vn_refcount v - 1\<rparr>) s) = s2"
    using assms(3) by (simp add: upd_vnode_def s2_def)
  then have "vput vn s = do {
      s3 \<leftarrow> ramfs_delete_vnode vn s2;
      s4 \<leftarrow> sched_broadcast_on (vn_waitq vn) s3;
      Some (free_obj vn (s4\<lparr>vnode_inuse_list := remove1 vn (vnode_inuse_list s4)\<rparr>)) }"
    using assms(2,3) v(5-7) op k by (simp add: vput_def vnode_at_def vn_nrespages_def)
  also have "\<dots> = Some (without_vnode vn s)"
    unfolding d using broadcast_empty [OF e] v(5) l
    by (simp add: without_vnode_def Let_def s2_def [symmetric] s3_def [symmetric] free_obj_def sched_queue_init_def)
  finally show ?thesis .
qed

lemma drop_inode_sel [simp]:
  "vnodes (drop_inode f ino s) = vnodes s" "vnode_inuse_list (drop_inode f ino s) = vnode_inuse_list s"
  "fss (drop_inode f ino s) = fss s" "files (drop_inode f ino s) = files s" "qh (drop_inode f ino s) = qh s"
  "bytedevs (drop_inode f ino s) = bytedevs s" "dev_id (drop_inode f ino s) = dev_id s"
  "procs (drop_inode f ino s) = procs s" "curproc (drop_inode f ino s) = curproc s"
  "vfs_root_vn (drop_inode f ino s) = vfs_root_vn s" "answers (drop_inode f ino s) = answers s"
  by (simp_all add: drop_inode_def Let_def)

lemma without_vnode_sel [simp]:
  "vnodes (without_vnode vn s) = (vnodes s)(vn := (vnodes s vn)\<lparr>vn_refcount := 0, vn_busy := True\<rparr>)"
  "vnode_inuse_list (without_vnode vn s) = remove1 vn (vnode_inuse_list s)" "fss (without_vnode vn s) = fss s"
  "files (without_vnode vn s) = files s" "qh (without_vnode vn s) = list_init (vn_waitq vn) (qh s)"
  "bytedevs (without_vnode vn s) = bytedevs s" "dev_id (without_vnode vn s) = dev_id s"
  "procs (without_vnode vn s) = procs s" "curproc (without_vnode vn s) = curproc s"
  "vfs_root_vn (without_vnode vn s) = vfs_root_vn s" "answers (without_vnode vn s) = answers s"
  "ramfss (without_vnode vn s) = ramfss (drop_inode (vn_fs (vnodes s vn)) (vn_vno (vnodes s vn)) s)"
  "inodes (without_vnode vn s) = inodes (drop_inode (vn_fs (vnodes s vn)) (vn_vno (vnodes s vn)) s)"
  "freed (without_vnode vn s) = vn # freed (drop_inode (vn_fs (vnodes s vn)) (vn_vno (vnodes s vn)) s)"
  by (simp_all add: without_vnode_def Let_def sched_queue_init_def drop_inode_def inode_of_def)

text \<open>What dropping one inode leaves of another.\<close>

lemma drop_inode_other:
  assumes "j \<noteq> ino" and "inode_of f j s \<noteq> inode_of f ino s"
  shows "inode_of f j (drop_inode f ino s) = inode_of f j s"
    and "inodes (drop_inode f ino s) (inode_of f j s) = inodes s (inode_of f j s)"
    and "length (ramfss (drop_inode f ino s) (fs_i (fss s f))) = length (ramfss s (fs_i (fss s f)))"
  using assms by (auto simp: drop_inode_def Let_def inode_of_def)

lemma cache_ok_without_vnode:
  assumes ok: "cache_ok f s" and vn: "in_use vn s"
  shows "cache_ok f (without_vnode vn s)"
proof -
  let ?s = "without_vnode vn s"
  note v = vnode_okD [OF cache_ok_vnode [OF ok vn]]
  have dist: "distinct (vnode_inuse_list s)" using ok by (simp add: cache_ok_def)
  have "vnode_ok f w ?s" if w: "in_use w s" "w \<noteq> vn" for w
  proof -
    note wo = vnode_okD [OF cache_ok_vnode [OF ok w(1)]]
    have ne: "vn_vno (vnodes s w) \<noteq> vn_vno (vnodes s vn)"
      using ok w vn by (auto simp: cache_ok_def inj_on_def)
    moreover have "inode_of f (vn_vno (vnodes s w)) s \<noteq> inode_of f (vn_vno (vnodes s vn)) s"
      using ne v(8) wo(8) by (metis inode_ok_def)
    ultimately have "vn_shape f ?s (vnodes s w)"
      using drop_inode_other [of "vn_vno (vnodes s w)" "vn_vno (vnodes s vn)" f s] wo(9,10) v(5)
      by (intro vn_shape_links [OF wo(3)]) (simp_all add: inode_of_def)
    then show ?thesis using w(2) wo(1,2,4) by (simp add: vnode_ok_def list_empty_list_init)
  qed
  moreover have "inj_on (\<lambda>w. vn_vno (vnodes ?s w)) (set (vnode_inuse_list s) - {vn})"
  proof -
    have "inj_on (\<lambda>w. vn_vno (vnodes s w)) (set (vnode_inuse_list s) - {vn})"
      using ok unfolding cache_ok_def by (blast intro: inj_on_diff)
    then show ?thesis by (simp add: inj_on_def)
  qed
  ultimately show ?thesis
    using ok unfolding cache_ok_def by (simp add: dist set_remove1_distinct [OF dist])
qed

lemma refs_without_vnode:
  assumes ok: "cache_ok f s" and vn: "in_use vn s"
  shows "refs f (without_vnode vn s) = (refs f s)(vn_vno (vnodes s vn) := 0)"
proof (rule ext)
  fix j
  let ?s = "without_vnode vn s"
  note ok' = cache_ok_without_vnode [OF assms]
  have use: "in_use w ?s \<longleftrightarrow> in_use w s \<and> w \<noteq> vn" for w
    using ok by (auto simp: cache_ok_def set_remove1_distinct)
  have "vnode_search f j ?s = Some w \<longleftrightarrow> vnode_search f j s = Some w \<and> w \<noteq> vn" for w
    using use [of w] by (auto simp: vnode_search_iff [OF ok'] vnode_search_iff [OF ok])
  then have "vnode_search f j ?s = (if vnode_search f j s = Some vn then None else vnode_search f j s)"
    by (metis not_Some_eq)
  moreover have "vnode_search f j s = Some vn \<longleftrightarrow> j = vn_vno (vnodes s vn)"
    using vn by (auto simp: vnode_search_iff [OF ok])
  ultimately show "refs f ?s j = ((refs f s)(vn_vno (vnodes s vn) := 0)) j"
    by (auto simp: refs_def split: option.splits)
qed

section \<open>The contract\<close>

lemma inode_of_inj:
  assumes "inode_ok f j s" and "inode_ok f ino s" and "j \<noteq> ino"
  shows "inode_of f j s \<noteq> inode_of f ino s"
  using assms by (metis inode_ok_def)

lemma nlinks_with_vnode:
  assumes "cache_ok f s" and "vnode_room vn s" and "vnode_search f ino s = None"
    and "inode_ok f ino s" and "inode_ok f j s"
  shows "nlinks f (with_vnode vn f ino s) j = nlinks f s j"
proof -
  have "refs f s ino = 0" using assms(1,3) refs_zero by blast
  then show ?thesis using inode_of_inj [OF assms(5,4)]
    by (auto simp: nlinks_def refs_with_vnode [OF assms(1,2)] inode_of_cong [of "with_vnode vn f ino s" s])
qed

lemma vget_spec:
  assumes ok: "cache_ok f s" and ino: "inode_ok f ino s" "0 \<le> rf_linkcount (inodes s (inode_of f ino s))"
    and mem: "refs f s ino = 0 \<Longrightarrow> answers s \<noteq> [] \<and> vnode_room (hd (answers s)) s"
  shows "\<exists>vn s'. vget e f ino s = Some (vn, s') \<and> cache_ok f s' \<and> vnode_search f ino s' = Some vn
     \<and> refs f s' = (refs f s)(ino := refs f s ino + 1) \<and> ramfss s' = ramfss s \<and> fss s' = fss s
     \<and> (\<forall>j. inode_ok f j s \<longrightarrow> nlinks f s' j = nlinks f s j)"
proof (cases "vnode_search f ino s")
  case None
  define a t where "a = hd (answers s)" and "t = s\<lparr>answers := tl (answers s)\<rparr>"
  have a: "answers s = a # tl (answers s)" "a \<noteq> 0" "vnode_room a t"
    using mem refs_zero [OF ok] None by (auto simp: a_def t_def vnode_room_def)
  have okt: "cache_ok f t" using ok cache_ok_cong [of t s f] by (simp add: t_def)
  have t: "vnode_search f ino t = None" "refs f t = refs f s" "inode_of f j t = inode_of f j s"
    "inode_ok f j t = inode_ok f j s" "inodes t = inodes s" "ramfss t = ramfss s" "fss t = fss s" for j
    using None refs_cong [of t s f] by (simp_all add: t_def vnode_search_def inode_of_def inode_ok_def)
  have "nlinks f (with_vnode a f ino t) j = nlinks f s j" if "inode_ok f j s" for j
    using nlinks_with_vnode [OF okt a(3) t(1), of j] ino(1) that t by (simp add: nlinks_def)
  moreover have "vnode_search f ino (with_vnode a f ino t) = Some a" by (simp add: vnode_search_def)
  moreover have "cache_ok f (with_vnode a f ino t)"
    using ino t a(3) by (intro cache_ok_with_vnode okt) simp_all
  moreover have "refs f (with_vnode a f ino t) = (refs f s)(ino := refs f s ino + 1)"
    using None refs_zero [OF ok, of ino] refs_with_vnode [OF okt a(3)] t(2) by simp
  ultimately show ?thesis
    using vget_miss [OF ok ino(1) None a(1,2)] t(6,7) unfolding t_def [symmetric] by simp
next
  case (Some vn)
  then have vn: "in_use vn s" "vn_vno (vnodes s vn) = ino" using vnode_search_Some by auto
  have pos: "0 < vn_refcount (vnodes s vn)" using vnode_okD(2) [OF cache_ok_vnode [OF ok vn(1)]] .
  have r: "refs f (add_ref vn 1 s) = (refs f s)(ino := refs f s ino + 1)"
    using refs_add_ref [OF ok vn(1)] vn(2) by simp
  moreover have "nlinks f (add_ref vn 1 s) j = nlinks f s j" for j
    using pos refs_vnode [OF ok vn(1)] vn(2) by (simp add: nlinks_def r)
  moreover have "cache_ok f (add_ref vn 1 s)" using pos by (intro cache_ok_add_ref ok) simp
  ultimately show ?thesis using vget_hit [OF ok Some] Some by (simp add: vnode_search_add_ref)
qed

lemma vput_spec:
  assumes ok: "cache_ok f s" and vn: "in_use vn s"
  defines "ino \<equiv> vn_vno (vnodes s vn)"
  shows "\<exists>s'. vput vn s = Some s' \<and> cache_ok f s' \<and> refs f s' = (refs f s)(ino := refs f s ino - 1)
     \<and> (\<forall>j. inode_ok f j s \<and> j \<noteq> ino \<longrightarrow> inode_of f j s' = inode_of f j s \<and> nlinks f s' j = nlinks f s j)
     \<and> (if refs f s ino = 1 \<and> nlinks f s ino = 0
        then inode_of f ino s' = 0 \<and> inode_of f ino s \<in> set (freed s')
        else inode_of f ino s' = inode_of f ino s \<and> nlinks f s' ino = nlinks f s ino)"
proof -
  note v = vnode_okD [OF cache_ok_vnode [OF ok vn]]
  have rc: "refs f s ino = vn_refcount (vnodes s vn)" using refs_vnode [OF ok vn] by (simp add: ino_def)
  show ?thesis
  proof (cases "vn_refcount (vnodes s vn) = 1")
    case True
    let ?s = "without_vnode vn s"
    have l: "rf_linkcount (inodes s (inode_of f ino s)) = nlinks f s ino + 1"
      using rc True by (simp add: nlinks_def)
    have r: "refs f ?s = (refs f s)(ino := refs f s ino - 1)"
      using refs_without_vnode [OF ok vn] rc True by (simp add: ino_def)
    have io: "inode_of f j ?s = inode_of f j (drop_inode f ino s)" "inodes ?s = inodes (drop_inode f ino s)" for j
      using v(5) by (simp_all add: inode_of_def ino_def)
    have o: "inode_of f j ?s = inode_of f j s \<and> nlinks f ?s j = nlinks f s j" if "inode_ok f j s" "j \<noteq> ino" for j
      using drop_inode_other(1,2) [of j ino f s] inode_of_inj [OF that(1) v(8)] that(2) io
      by (simp add: nlinks_def r ino_def [symmetric])
    have i: "ino < length (ramfss s (fs_i (fss s f)))" using v(8) by (simp add: inode_ok_def ino_def)
    have "inode_of f ino ?s = (if nlinks f s ino = 0 then 0 else inode_of f ino s)"
      "nlinks f s ino = 0 \<Longrightarrow> inode_of f ino s \<in> set (freed ?s)"
      "nlinks f s ino \<noteq> 0 \<Longrightarrow> rf_linkcount (inodes ?s (inode_of f ino s)) = nlinks f s ino"
      using v(5) i l by (simp_all add: inode_of_def drop_inode_def Let_def ino_def [symmetric])
    moreover from this have "nlinks f s ino \<noteq> 0 \<Longrightarrow> nlinks f ?s ino = nlinks f s ino"
      using r rc True by (simp add: nlinks_def)
    ultimately show ?thesis
      unfolding vput_last [OF ok vn True] using cache_ok_without_vnode [OF ok vn] r rc True o
      by (cases "nlinks f s ino = 0") simp_all
  next
    case False
    let ?s = "add_ref vn (-1) s"
    have gt: "1 < vn_refcount (vnodes s vn)" using v(2) False by linarith
    have r: "refs f ?s = (refs f s)(ino := refs f s ino - 1)"
      using refs_add_ref [OF ok vn, of "-1"] by (simp add: ino_def)
    have "nlinks f ?s j = nlinks f s j \<and> inode_of f j ?s = inode_of f j s" for j
      using gt rc unfolding nlinks_def r by simp
    moreover have "cache_ok f ?s" using gt by (intro cache_ok_add_ref ok) simp
    ultimately show ?thesis using vput_dec [OF ok vn gt] r rc gt by auto
  qed
qed

section \<open>Counted references\<close>

text \<open>
  The discipline shared by vnodes and open files: \<open>grab\<close> adds a reference to an object that has
  one, \<open>release\<close> gives one back.  \<open>run_refs\<close> is any sequence of the two; it is safe as long as the
  object keeps a reference.
\<close>

fun run_refs :: "('s \<Rightarrow> 's option) \<Rightarrow> ('s \<Rightarrow> 's option) \<Rightarrow> bool list \<Rightarrow> 's \<Rightarrow> 's option" where
  "run_refs grab release [] s = Some s"
| "run_refs grab release (b # bs) s = (if b then grab s else release s) \<bind> run_refs grab release bs"

fun keeps_ref :: "int \<Rightarrow> bool list \<Rightarrow> bool" where
  "keeps_ref n [] = True"
| "keeps_ref n (b # bs) = (let m = (if b then n + 1 else n - 1) in 0 < m \<and> keeps_ref m bs)"

definition net_refs :: "bool list \<Rightarrow> int" where
  "net_refs bs = int (length (filter id bs)) - int (length (filter Not bs))"

locale refcounted =
  fixes inv :: "'s \<Rightarrow> bool" and count :: "'s \<Rightarrow> int" and put_count :: "int \<Rightarrow> 's \<Rightarrow> 's"
    and grab :: "'s \<Rightarrow> 's option" and release :: "'s \<Rightarrow> 's option"
  assumes grab_law: "inv s \<Longrightarrow> 0 < count s \<Longrightarrow> grab s = Some (put_count (count s + 1) s)"
    and release_law: "inv s \<Longrightarrow> 1 < count s \<Longrightarrow> release s = Some (put_count (count s - 1) s)"
    and inv_law: "inv s \<Longrightarrow> 0 < n \<Longrightarrow> inv (put_count n s)"
    and count_law: "inv s \<Longrightarrow> count (put_count n s) = n"
    and put_law: "put_count n (put_count m s) = put_count n s" "put_count (count s) s = s"
begin

lemma run_refs_balance:
  "inv s \<Longrightarrow> 0 < count s \<Longrightarrow> keeps_ref (count s) bs \<Longrightarrow>
     run_refs grab release bs s = Some (put_count (count s + net_refs bs) s)"
proof (induction bs arbitrary: s)
  case Nil
  then show ?case by (simp add: net_refs_def put_law)
next
  case (Cons b bs)
  let ?m = "if b then count s + 1 else count s - 1"
  let ?s = "put_count ?m s"
  have m: "0 < ?m" "keeps_ref ?m bs" using Cons.prems(3) by (auto simp: Let_def)
  have step: "(if b then grab s else release s) = Some ?s"
    using Cons.prems grab_law release_law m(1) by auto
  have c: "count ?s = ?m" using count_law [OF Cons.prems(1)] .
  have "run_refs grab release bs ?s = Some (put_count (?m + net_refs bs) ?s)"
    using Cons.IH [of ?s] inv_law [OF Cons.prems(1) m(1)] m unfolding c by blast
  moreover have "?m + net_refs bs = count s + net_refs (b # bs)" by (simp add: net_refs_def)
  ultimately show ?case using step by (simp add: put_law)
qed

end

interpretation vr: refcounted "\<lambda>s. cache_ok f s \<and> in_use vn s" "\<lambda>s. vn_refcount (vnodes s vn)"
  "\<lambda>n. upd_vnode vn (\<lambda>v. v\<lparr>vn_refcount := n\<rparr>)" "vref vn" "vput vn"
proof
  fix s :: kstate and n :: int
  assume s: "cache_ok f s \<and> in_use vn s"
  show "vref vn s = Some (upd_vnode vn (\<lambda>v. v\<lparr>vn_refcount := vn_refcount (vnodes s vn) + 1\<rparr>) s)"
    if "0 < vn_refcount (vnodes s vn)" using vref_ok [of f s vn] s by (simp add: upd_vnode_def)
  show "vput vn s = Some (upd_vnode vn (\<lambda>v. v\<lparr>vn_refcount := vn_refcount (vnodes s vn) - 1\<rparr>) s)"
    if "1 < vn_refcount (vnodes s vn)" using vput_dec [of f s vn] that s by (simp add: upd_vnode_def)
  show "cache_ok f (upd_vnode vn (\<lambda>v. v\<lparr>vn_refcount := n\<rparr>) s)
      \<and> in_use vn (upd_vnode vn (\<lambda>v. v\<lparr>vn_refcount := n\<rparr>) s)" if "0 < n"
    using cache_ok_add_ref [of f s vn "n - vn_refcount (vnodes s vn)"] that s by (simp add: upd_vnode_def)
qed (simp_all add: upd_vnode_def)

section \<open>Properties\<close>

text \<open>
  A small system: file system 500 with the root directory (inode 0, vnode 1000) and in it a file
  \<open>a\<close> (inode 1) that is not in use; process 50 has the root as its working directory.
\<close>

definition demo_dir :: "ramfs_dirent list" where
  "demo_dir = [\<lparr>rd_ino = 0, rd_name = ''.''\<rparr>, \<lparr>rd_ino = 0, rd_name = ''..''\<rparr>, \<lparr>rd_ino = 1, rd_name = ''a''\<rparr>]
     @ replicate 125 \<lparr>rd_ino = 0, rd_name = []\<rparr>"

definition demo_vnode :: vnode where
  "demo_vnode = \<lparr>vn_fs = 500, vn_ops = RamfsDir, vn_vno = 0, vn_mode = S_IFDIR, vn_len = 64, vn_i = 510,
     vn_devid = 0, vn_cdev = 0, vn_bdev = 0, vn_busy = False, vn_refcount = 2, vn_respages = []\<rparr>"

definition demo_fs :: kstate where
  "demo_fs = \<lparr>kt = (\<lambda>t. demo_thread t 0 KT_RUN), qh = (\<lambda>q. \<lparr>l_next = q, l_prev = q\<rparr>), tq_size = (\<lambda>_. 0),
     curthr = 12, curproc = 50, ipl = 0, cpu_st = demo_cpu, runq_fresh = False, km_holder = (\<lambda>_. 0),
     procs = (\<lambda>_. \<lparr>p_pid = 3, p_comm = ''sh'', p_pproc = 40, p_status = 0, p_state = PROC_RUNNING,
       p_pagedir = 1, p_files = replicate 32 0, p_cwd = 1000\<rparr>),
     proc_list = [50], p_threads = (\<lambda>_. [])(50 := [12]), p_children = (\<lambda>_. []), next_pid = 4,
     proc_initproc = 40, pt_current = 1, answers = [2000, 3000, 4000, 5000], freed = [],
     vnodes = (\<lambda>_. demo_vnode), vnode_inuse_list = [1000],
     files = (\<lambda>_. \<lparr>f_pos = 0, f_mode = 0, f_refcount = 0, f_vnode = 0\<rparr>),
     inodes = (\<lambda>_. \<lparr>rf_size = 96, rf_ino = 0, rf_mem = DirPage 600 demo_dir, rf_mode = RAMFS_TYPE_DIR,
         rf_linkcount = 2\<rparr>)(520 := \<lparr>rf_size = 2, rf_ino = 1, rf_mem = DataPage 700 ([104, 105] @ replicate 4094 0),
         rf_mode = RAMFS_TYPE_DATA, rf_linkcount = 1\<rparr>),
     ramfss = (\<lambda>_. [510, 520] @ replicate 62 0),
     fss = (\<lambda>_. \<lparr>fs_dev = [], fs_type = ''ramfs'', fs_op = RamfsOps, fs_root = 1000, fs_i = 501\<rparr>),
     vfs_root_vn = 1000, bytedevs = [], blockdevs = [], dev_id = (\<lambda>_. 0), dev_ops = (\<lambda>_. False)\<rparr>"

definition demo_env :: env where
  "demo_env = \<lparr>e_switch = (\<lambda>_. None), e_undef = 0, e_dev_read = (\<lambda>_ _ _ _. None),
     e_dev_write = (\<lambda>_ _ _ _ _. None)\<rparr>"

lemma demo_cache_ok: "cache_ok 500 demo_fs"
  by (simp add: cache_ok_def vnode_ok_def vn_shape_def inode_ok_def inode_of_def vn_kind_def vn_waitq_def
      list_empty_def demo_fs_def demo_vnode_def)

lemma demo_inode_1:
  "inode_ok 500 1 demo_fs" "inode_of 500 1 demo_fs = 520" "rf_linkcount (inodes demo_fs 520) = 1"
  "answers demo_fs = [2000, 3000, 4000, 5000]" "vnode_room 2000 demo_fs" "refs 500 demo_fs 1 = 0"
  "nlinks 500 demo_fs 1 = 1"
  by (simp_all add: inode_ok_def inode_of_def demo_fs_def vnode_room_def vn_mutex_def refs_def nlinks_def
      vnode_search_def demo_vnode_def)

text \<open>
  C10: \<^verbatim>\<open>vget\<close> hands out a counted reference to an inode.  With an order of the vnode cache in which
  every vnode in use has a reference and stands for an inode of its own, and with memory for a
  vnode when the inode is not in use, it neither blocks nor stops the kernel: it returns the one
  vnode of the inode, the references of that inode grow by one and no others change, the order is
  kept, and the number of names of no inode changes.
\<close>

theorem vget_refines:
  assumes "cache_ok f s" and "inode_ok f ino s" and "0 \<le> rf_linkcount (inodes s (inode_of f ino s))"
    and "refs f s ino = 0 \<Longrightarrow> answers s \<noteq> [] \<and> vnode_room (hd (answers s)) s"
  shows "\<exists>vn s'. vget e f ino s = Some (vn, s') \<and> cache_ok f s' \<and> vnode_search f ino s' = Some vn
     \<and> refs f s' = (refs f s)(ino := refs f s ino + 1)
     \<and> (\<forall>j. inode_ok f j s \<longrightarrow> nlinks f s' j = nlinks f s j)"
  using vget_spec [OF assms] by blast

theorem vget_refines_witness:
  "\<exists>vn s'. vget demo_env 500 1 demo_fs = Some (vn, s') \<and> cache_ok 500 s' \<and> refs 500 s' 1 = 1 \<and> nlinks 500 s' 1 = 1"
proof -
  obtain vn s' where "vget demo_env 500 1 demo_fs = Some (vn, s')" "cache_ok 500 s'"
      "refs 500 s' = (refs 500 demo_fs)(1 := refs 500 demo_fs 1 + 1)"
      "\<forall>j. inode_ok 500 j demo_fs \<longrightarrow> nlinks 500 s' j = nlinks 500 demo_fs j"
    using vget_refines [OF demo_cache_ok demo_inode_1(1), of demo_env] by (auto simp: demo_inode_1 simp del: One_nat_def)
  then show ?thesis using demo_inode_1 by (auto simp del: One_nat_def)
qed

text \<open>
  C11: \<^verbatim>\<open>vput\<close> gives one reference back.  It does not stop the kernel on a vnode in use; the references
  of its inode shrink by one and no others change; the order of the cache is kept.  When it was
  the last reference and the inode has no name left, the inode leaves its file system's table and
  is freed; otherwise the inode and the number of its names stay.
\<close>

theorem vput_refines:
  assumes "cache_ok f s" and "in_use vn s" and "ino = vn_vno (vnodes s vn)"
  shows "\<exists>s'. vput vn s = Some s' \<and> cache_ok f s' \<and> refs f s' = (refs f s)(ino := refs f s ino - 1)
     \<and> (\<forall>j. inode_ok f j s \<and> j \<noteq> ino \<longrightarrow> inode_of f j s' = inode_of f j s \<and> nlinks f s' j = nlinks f s j)
     \<and> (if refs f s ino = 1 \<and> nlinks f s ino = 0
        then inode_of f ino s' = 0 \<and> inode_of f ino s \<in> set (freed s')
        else inode_of f ino s' = inode_of f ino s \<and> nlinks f s' ino = nlinks f s ino)"
  using vput_spec [OF assms(1,2)] unfolding assms(3) .

theorem vput_refines_witness:
  "\<exists>s'. vput 1000 demo_fs = Some s' \<and> cache_ok 500 s' \<and> refs 500 s' 0 = 1"
proof -
  have "in_use 1000 demo_fs" "(0 :: nat) = vn_vno (vnodes demo_fs 1000)" "refs 500 demo_fs 0 = 2"
    by (simp_all add: demo_fs_def demo_vnode_def refs_def vnode_search_def)
  with vput_refines [OF demo_cache_ok this(1,2)] show ?thesis by auto
qed

text \<open>
  C32: references to a vnode balance.  Any sequence of \<^verbatim>\<open>vref\<close> and \<^verbatim>\<open>vput\<close> on a vnode in use that
  never gives the last reference back succeeds, and changes nothing but the vnode's reference
  count, by the difference of the two.
\<close>

theorem vref_vput_balance:
  assumes "cache_ok f s" and "in_use vn s" and "keeps_ref (vn_refcount (vnodes s vn)) bs"
  shows "run_refs (vref vn) (vput vn) bs s
    = Some (upd_vnode vn (\<lambda>v. v\<lparr>vn_refcount := vn_refcount (vnodes s vn) + net_refs bs\<rparr>) s)"
  using vr.run_refs_balance [of f s vn bs] assms vnode_okD(2) [OF cache_ok_vnode] by blast

theorem vref_vput_balance_witness:
  "run_refs (vref 1000) (vput 1000) [False, True, True, False] demo_fs = Some demo_fs"
proof -
  have "in_use 1000 demo_fs" "keeps_ref (vn_refcount (vnodes demo_fs 1000)) [False, True, True, False]"
    by (simp_all add: demo_fs_def demo_vnode_def)
  from vref_vput_balance [OF demo_cache_ok this] show ?thesis by (simp add: net_refs_def upd_vnode_def)
qed

end
