(* ===== verification/Ramfs.thy ===== *)
theory Ramfs
  imports Vcache
begin

text \<open>
  The RAM file system (\<^verbatim>\<open>kernel/fs/ramfs/ramfs.c\<close>): mounting, and the operations of its directory
  and file vnodes.  A directory is a page of 128 entries, each an inode number and a name; an
  entry with an empty name is free.  A name is passed as its characters and its length.  Results
  returned through a pointer are an option, \<open>None\<close> when the operation does not write them.
\<close>

definition dirents :: "nat \<Rightarrow> kstate \<Rightarrow> ramfs_dirent list option" where
  "dirents vn s = (case rf_mem (inodes s (vn_i (vnodes s vn))) of DirPage _ es \<Rightarrow> Some es | _ \<Rightarrow> None)"

definition set_dirent :: "nat \<Rightarrow> ramfs_dirent \<Rightarrow> ramfs_inode \<Rightarrow> ramfs_inode" where
  "set_dirent k d i = (case rf_mem i of DirPage p es \<Rightarrow> i\<lparr>rf_mem := DirPage p (es[k := d])\<rparr> | _ \<Rightarrow> i)"

definition ent_match :: "string \<Rightarrow> nat \<Rightarrow> ramfs_dirent \<Rightarrow> bool" where
  "ent_match name len d \<longleftrightarrow> length (rd_name d) = len \<and> rd_name d = take len name"

definition new_dirent :: "nat \<Rightarrow> string \<Rightarrow> nat \<Rightarrow> ramfs_dirent" where
  "new_dirent ino name len = \<lparr>rd_ino = ino, rd_name = take (min len (NAME_LEN - 1)) name\<rparr>"

definition free_slot :: "ramfs_dirent list \<Rightarrow> nat option" where
  "free_slot es = find_idx (\<lambda>d. rd_name d = []) es"

section \<open>Directories\<close>

definition ramfs_lookup ::
  "env \<Rightarrow> nat \<Rightarrow> string \<Rightarrow> nat \<Rightarrow> kstate \<Rightarrow> (int \<times> nat option \<times> kstate) option" where
  "ramfs_lookup e dir name len s = do {
     es \<leftarrow> dirents dir s;
     case List.find (ent_match name len) es of
       Some d \<Rightarrow> do {
         (vn, s1) \<leftarrow> vget e (vn_fs (vnodes s dir)) (rd_ino d) s;
         Some (0, Some vn, s1)
       }
     | None \<Rightarrow> Some (- ENOENT, None, s)
   }"

text \<open>The parent's entry for a new name, and the directory's size.\<close>

definition add_entry :: "nat \<Rightarrow> nat \<Rightarrow> ramfs_dirent \<Rightarrow> kstate \<Rightarrow> kstate" where
  "add_entry dir k d s = upd_inode (vn_i (vnodes s dir))
     (\<lambda>i. (set_dirent k d i)\<lparr>rf_size := rf_size i + DIRENT_SIZE\<rparr>) s"

definition remove_entry :: "nat \<Rightarrow> string \<Rightarrow> nat \<Rightarrow> kstate \<Rightarrow> kstate option" where
  "remove_entry dir name len s = do {
     es \<leftarrow> dirents dir s;
     Some (upd_inode (vn_i (vnodes s dir)) (\<lambda>i.
       (case find_idx (ent_match name len) es of
          Some k \<Rightarrow> set_dirent k ((es ! k)\<lparr>rd_name := []\<rparr>) i
        | None \<Rightarrow> i)\<lparr>rf_size := rf_size i - DIRENT_SIZE\<rparr>) s)
   }"

definition ramfs_create ::
  "env \<Rightarrow> nat \<Rightarrow> string \<Rightarrow> nat \<Rightarrow> kstate \<Rightarrow> (int \<times> nat option \<times> kstate) option" where
  "ramfs_create e dir name len s = do {
     (r, _, s1) \<leftarrow> ramfs_lookup e dir name len s;
     kassert (r \<noteq> 0);
     es \<leftarrow> dirents dir s1;
     case free_slot es of
       None \<Rightarrow> Some (- ENOSPC, None, s1)
     | Some k \<Rightarrow>
         let (ino, s2) = ramfs_alloc_inode (vn_fs (vnodes s1 dir)) RAMFS_TYPE_DATA 0 s1 in
         if ino < 0 then Some (ino, None, s2)
         else do {
           (vn, s3) \<leftarrow> vget e (vn_fs (vnodes s2 dir)) (nat ino) s2;
           let s4 = add_entry dir k (new_dirent (vn_vno (vnodes s3 vn)) name len) s3;
           Some (0, Some vn, s4)
         }
   }"

definition ramfs_mknod ::
  "env \<Rightarrow> nat \<Rightarrow> string \<Rightarrow> nat \<Rightarrow> nat \<Rightarrow> nat \<Rightarrow> kstate \<Rightarrow> (int \<times> kstate) option" where
  "ramfs_mknod e dir name len mode devid s = do {
     (r, _, s1) \<leftarrow> ramfs_lookup e dir name len s;
     kassert (r \<noteq> 0);
     es \<leftarrow> dirents dir s1;
     case free_slot es of
       None \<Rightarrow> Some (- ENOSPC, s1)
     | Some k \<Rightarrow> do {
         kassert (S_ISCHR mode \<or> S_ISBLK mode);
         let (ino, s2) = ramfs_alloc_inode (vn_fs (vnodes s1 dir))
           (if S_ISCHR mode then RAMFS_TYPE_CHR else RAMFS_TYPE_BLK) devid s1;
         if ino < 0 then Some (ino, s2)
         else Some (0, add_entry dir k (new_dirent (nat ino) name len) s2)
       }
   }"

definition ramfs_link ::
  "env \<Rightarrow> nat \<Rightarrow> nat \<Rightarrow> string \<Rightarrow> nat \<Rightarrow> kstate \<Rightarrow> (int \<times> kstate) option" where
  "ramfs_link e oldvnode dir name len s = do {
     kassert (vn_fs (vnodes s oldvnode) = vn_fs (vnodes s dir));
     (r, _, s1) \<leftarrow> ramfs_lookup e dir name len s;
     kassert (r \<noteq> 0);
     es \<leftarrow> dirents dir s1;
     case free_slot es of
       None \<Rightarrow> Some (- ENOSPC, s1)
     | Some k \<Rightarrow>
         let s2 = add_entry dir k (new_dirent (vn_vno (vnodes s1 oldvnode)) name len) s1 in
         Some (0, upd_inode (vn_i (vnodes s2 oldvnode)) (\<lambda>i. i\<lparr>rf_linkcount := rf_linkcount i + 1\<rparr>) s2)
   }"

definition ramfs_unlink :: "env \<Rightarrow> nat \<Rightarrow> string \<Rightarrow> nat \<Rightarrow> kstate \<Rightarrow> (int \<times> kstate) option" where
  "ramfs_unlink e dir name len s = do {
     (r, res, s1) \<leftarrow> ramfs_lookup e dir name len s;
     kassert (r = 0);
     vn \<leftarrow> res;
     kassert (\<not> S_ISDIR (vn_mode (vnodes s1 vn)));
     s2 \<leftarrow> remove_entry dir name len s1;
     let s3 = upd_inode (vn_i (vnodes s2 vn)) (\<lambda>i. i\<lparr>rf_linkcount := rf_linkcount i - 1\<rparr>) s2;
     s4 \<leftarrow> vput vn s3;
     Some (0, s4)
   }"

definition ramfs_mkdir :: "env \<Rightarrow> nat \<Rightarrow> string \<Rightarrow> nat \<Rightarrow> kstate \<Rightarrow> (int \<times> kstate) option" where
  "ramfs_mkdir e dir name len s = do {
     (r, _, s1) \<leftarrow> ramfs_lookup e dir name len s;
     kassert (r \<noteq> 0);
     es \<leftarrow> dirents dir s1;
     case free_slot es of
       None \<Rightarrow> Some (- ENOSPC, s1)
     | Some k \<Rightarrow>
         let (ino, s2) = ramfs_alloc_inode (vn_fs (vnodes s1 dir)) RAMFS_TYPE_DIR 0 s1 in
         if ino < 0 then Some (ino, s2)
         else
           let s3 = add_entry dir k (new_dirent (nat ino) name len) s2;
               child = ramfss s3 (fs_i (fss s3 (vn_fs (vnodes s3 dir)))) ! nat ino
           in Some (0, upd_inode child (\<lambda>i. (set_dirent 1 \<lparr>rd_ino = vn_vno (vnodes s3 dir), rd_name = ''..''\<rparr>
                (set_dirent 0 \<lparr>rd_ino = nat ino, rd_name = ''.''\<rparr> i))\<lparr>rf_size := 2 * DIRENT_SIZE\<rparr>) s3)
   }"

definition ramfs_rmdir :: "env \<Rightarrow> nat \<Rightarrow> string \<Rightarrow> nat \<Rightarrow> kstate \<Rightarrow> (int \<times> kstate) option" where
  "ramfs_rmdir e dir name len s = do {
     kassert (\<not> ent_match name len \<lparr>rd_ino = 0, rd_name = ''.''\<rparr>
            \<and> \<not> ent_match name len \<lparr>rd_ino = 0, rd_name = ''..''\<rparr>);
     (r, res, s1) \<leftarrow> ramfs_lookup e dir name len s;
     if r \<noteq> 0 then Some (r, s1)
     else do {
       vn \<leftarrow> res;
       if \<not> S_ISDIR (vn_mode (vnodes s1 vn))
       then do { s2 \<leftarrow> vput vn s1; Some (- ENOTDIR, s2) }
       else do {
         es \<leftarrow> dirents vn s1;
         if \<exists>d\<in>set es. rd_name d \<noteq> ''.'' \<and> rd_name d \<noteq> ''..'' \<and> rd_name d \<noteq> []
         then do { s2 \<leftarrow> vput vn s1; Some (- ENOTEMPTY, s2) }
         else do {
           s2 \<leftarrow> remove_entry dir name len s1;
           let s3 = upd_inode (vn_i (vnodes s2 vn)) (\<lambda>i. i\<lparr>rf_linkcount := rf_linkcount i - 1\<rparr>) s2;
           s4 \<leftarrow> vput vn s3;
           Some (0, s4)
         }
       }
     }
   }"

text \<open>
  \<^verbatim>\<open>ramfs_readdir\<close>: the entry found at or behind the offset and the number of bytes to move on.
\<close>

definition ramfs_readdir :: "nat \<Rightarrow> int \<Rightarrow> kstate \<Rightarrow> (int \<times> (nat \<times> string) option) option" where
  "ramfs_readdir dir offset s = do {
     kassert (S_ISDIR (vn_mode (vnodes s dir)));
     kassert (offset mod DIRENT_SIZE = 0);
     es \<leftarrow> dirents dir s;
     if offset \<ge> int RAMFS_MAX_DIRENT * DIRENT_SIZE then Some (0, None)
     else do {
       kassert (0 \<le> offset);
       case find_idx (\<lambda>d. rd_name d \<noteq> []) (drop (nat (offset div DIRENT_SIZE)) es) of
         None \<Rightarrow> Some (0, None)
       | Some k \<Rightarrow>
           let d = es ! (nat (offset div DIRENT_SIZE) + k) in
           Some (DIRENT_SIZE + int k * DIRENT_SIZE, Some (rd_ino d, take (NAME_LEN - 1) (rd_name d)))
     }
   }"

section \<open>Files\<close>

definition ramfs_read :: "nat \<Rightarrow> int \<Rightarrow> nat \<Rightarrow> kstate \<Rightarrow> (int \<times> 8 word list) option" where
  "ramfs_read vn offset count s = do {
     let inode = inodes s (vn_i (vnodes s vn));
     kassert (\<not> S_ISDIR (vn_mode (vnodes s vn)));
     let ret = max 0 (min (wrap32 (int count)) (rf_size inode - offset));
     case rf_mem inode of
       DataPage _ bs \<Rightarrow> do {
         kassert (ret = 0 \<or> 0 \<le> offset \<and> offset + ret \<le> int (length bs));
         Some (ret, if ret = 0 then [] else take (nat ret) (drop (nat offset) bs))
       }
     | _ \<Rightarrow> None
   }"

definition ramfs_write :: "nat \<Rightarrow> int \<Rightarrow> 8 word list \<Rightarrow> nat \<Rightarrow> kstate \<Rightarrow> (int \<times> kstate) option" where
  "ramfs_write vn offset buf count s = do {
     let i = vn_i (vnodes s vn);
     let inode = inodes s i;
     kassert (\<not> S_ISDIR (vn_mode (vnodes s vn)));
     let ret = min (wrap32 (int count)) (int PAGE_SIZE - offset);
     case rf_mem inode of
       DataPage p bs \<Rightarrow> do {
         kassert (0 \<le> ret \<and> nat ret \<le> length buf);
         kassert (ret = 0 \<or> 0 \<le> offset);
         let bs' = (if ret = 0 then bs
                    else take (nat offset) bs @ take (nat ret) buf @ drop (nat offset + nat ret) bs);
         kassert (vn_len (vnodes s vn) = rf_size inode);
         let len = max (vn_len (vnodes s vn)) (offset + ret);
         let s1 = upd_vnode vn (\<lambda>v. v\<lparr>vn_len := len\<rparr>) s;
         Some (ret, upd_inode i (\<lambda>n. n\<lparr>rf_mem := DataPage p bs', rf_size := len\<rparr>) s1)
       }
     | _ \<Rightarrow> None
   }"

record stat =
  st_mode :: nat
  st_ino :: nat
  st_dev :: nat
  st_rdev :: nat
  st_nlink :: int
  st_size :: int
  st_blksize :: nat
  st_blocks :: nat

definition ramfs_stat :: "nat \<Rightarrow> kstate \<Rightarrow> stat" where
  "ramfs_stat vn s =
     (let v = vnodes s vn; i = inodes s (vn_i v) in
      \<lparr>st_mode = vn_mode v, st_ino = vn_vno v, st_dev = 0,
       st_rdev = (if vn_mode v = S_IFCHR \<or> vn_mode v = S_IFBLK then mem_addr (rf_mem i) else 0),
       st_nlink = rf_linkcount i - 1, st_size = rf_size i, st_blksize = PAGE_SIZE, st_blocks = 1\<rparr>)"

section \<open>Mounting\<close>

definition ramfs_mount :: "env \<Rightarrow> nat \<Rightarrow> kstate \<Rightarrow> (int \<times> kstate) option" where
  "ramfs_mount e f s =
     (let (rfs, s1) = alloc s in
      if rfs = 0 then Some (- ENOMEM, s1)
      else
        let s2 = upd_fs f (\<lambda>x. x\<lparr>fs_i := rfs, fs_op := RamfsOps\<rparr>)
              (s1\<lparr>ramfss := (ramfss s1)(rfs := replicate RAMFS_MAX_FILES 0)\<rparr>);
            (root_ino, s3) = ramfs_alloc_inode f RAMFS_TYPE_DIR 0 s2
        in if root_ino < 0 then Some (root_ino, s3)
           else do {
             kassert (root_ino = 0);
             let root = ramfss s3 rfs ! 0;
             let s4 = upd_inode root (\<lambda>i. (set_dirent 1 \<lparr>rd_ino = 0, rd_name = ''..''\<rparr>
                        (set_dirent 0 \<lparr>rd_ino = 0, rd_name = ''.''\<rparr> i))\<lparr>rf_size := 2 * DIRENT_SIZE\<rparr>) s3;
             let s5 = s4\<lparr>ramfss := (ramfss s4)(rfs := (ramfss s4 rfs)[0 := root])\<rparr>;
             (vn, s6) \<leftarrow> vget e f 0 s5;
             Some (0, upd_fs f (\<lambda>x. x\<lparr>fs_root := vn\<rparr>) s6)
           })"

definition ramfs_umount :: "nat \<Rightarrow> kstate \<Rightarrow> (int \<times> kstate) option" where
  "ramfs_umount f s = do {
     let rfs = fs_i (fss s f);
     s1 \<leftarrow> vput (fs_root (fss s f)) s;
     Some (0, fold (\<lambda>inode s.
       if inode = 0 then s
       else
         let i = inodes s inode;
             s' = (if mem_addr (rf_mem i) \<noteq> 0 \<and> (rf_mode i = RAMFS_TYPE_DATA \<or> rf_mode i = RAMFS_TYPE_DIR)
                   then free_obj (mem_addr (rf_mem i)) s else s)
         in free_obj inode s') (ramfss s1 rfs) s1)
   }"

end
