(* ===== verification/Ramfs_Dir.thy ===== *)
theory Ramfs_Dir
  imports Ramfs
begin

text \<open>
  A directory of the RAM file system as a map from names to inode numbers.  A name is valid when
  it fits the 28 bytes of an entry with its terminator; an empty name marks a free entry.
\<close>

definition name_ok :: "string \<Rightarrow> bool" where
  "name_ok n \<longleftrightarrow> n \<noteq> [] \<and> length n < NAME_LEN"

definition dir_ok :: "ramfs_dirent list \<Rightarrow> bool" where
  "dir_ok es \<longleftrightarrow> length es = RAMFS_MAX_DIRENT \<and> (\<forall>d\<in>set es. length (rd_name d) < NAME_LEN) \<and>
     (\<forall>i<length es. \<forall>j<length es. rd_name (es ! i) \<noteq> [] \<longrightarrow> rd_name (es ! i) = rd_name (es ! j) \<longrightarrow> i = j)"

definition dir_abs :: "ramfs_dirent list \<Rightarrow> string \<Rightarrow> nat option" where
  "dir_abs es n = (if n = [] then None else map_option rd_ino (List.find (\<lambda>d. rd_name d = n) es))"

text \<open>The three things the operations do to a directory's entries.\<close>

definition dir_find :: "string \<Rightarrow> ramfs_dirent list \<Rightarrow> nat option" where
  "dir_find n es = map_option rd_ino (List.find (ent_match n (length n)) es)"

definition dir_insert :: "string \<Rightarrow> nat \<Rightarrow> ramfs_dirent list \<Rightarrow> ramfs_dirent list option" where
  "dir_insert n i es = map_option (\<lambda>k. es[k := new_dirent i n (length n)]) (free_slot es)"

definition dir_delete :: "string \<Rightarrow> ramfs_dirent list \<Rightarrow> ramfs_dirent list" where
  "dir_delete n es = (case find_idx (ent_match n (length n)) es of
     Some k \<Rightarrow> es[k := (es ! k)\<lparr>rd_name := []\<rparr>] | None \<Rightarrow> es)"

lemma ent_match_full: "ent_match n (length n) = (\<lambda>d. rd_name d = n)"
  by (auto simp: ent_match_def)

lemma new_dirent_ok: "name_ok n \<Longrightarrow> new_dirent i n (length n) = \<lparr>rd_ino = i, rd_name = n\<rparr>"
  by (simp add: new_dirent_def name_ok_def kernel_consts)

lemma dir_okD:
  assumes "dir_ok es"
  shows "length es = RAMFS_MAX_DIRENT" and "\<And>d. d \<in> set es \<Longrightarrow> length (rd_name d) < NAME_LEN"
    and "\<And>i j. i < length es \<Longrightarrow> j < length es \<Longrightarrow> rd_name (es ! i) = n \<Longrightarrow> rd_name (es ! j) = n \<Longrightarrow> n \<noteq> [] \<Longrightarrow> i = j"
  using assms by (simp_all add: dir_ok_def)

lemma find_nth:
  assumes "k < length xs" and "P (xs ! k)" and "\<And>j. j < length xs \<Longrightarrow> P (xs ! j) \<Longrightarrow> j = k"
  shows "List.find P xs = Some (xs ! k)"
proof (rule find_unique)
  show "\<forall>y\<in>set xs. P y \<longrightarrow> y = xs ! k" using assms(3) by (metis in_set_conv_nth)
qed (use assms(1,2) in simp_all)

lemma dir_abs_entry:
  assumes "dir_ok es" and "k < length es" and "rd_name (es ! k) = n" and "n \<noteq> []"
  shows "dir_abs es n = Some (rd_ino (es ! k))"
proof -
  have "List.find (\<lambda>d. rd_name d = n) es = Some (es ! k)"
  proof (rule find_nth [OF assms(2)])
    show "j = k" if "j < length es" "rd_name (es ! j) = n" for j
      by (rule dir_okD(3) [OF assms(1) that(1) assms(2) that(2) assms(3,4)])
  qed (rule assms(3))
  then show ?thesis using assms(4) by (simp add: dir_abs_def)
qed

lemma dir_abs_None:
  "dir_abs es n = None \<longleftrightarrow> n = [] \<or> (\<forall>k<length es. rd_name (es ! k) \<noteq> n)"
  by (auto simp: dir_abs_def find_None_iff in_set_conv_nth)

lemma dir_abs_Some:
  assumes "dir_ok es"
  shows "dir_abs es n = Some i \<longleftrightarrow> n \<noteq> [] \<and> (\<exists>k<length es. rd_name (es ! k) = n \<and> rd_ino (es ! k) = i)"
proof
  assume "dir_abs es n = Some i"
  then show "n \<noteq> [] \<and> (\<exists>k<length es. rd_name (es ! k) = n \<and> rd_ino (es ! k) = i)"
    by (auto simp: dir_abs_def find_Some_iff split: if_splits)
next
  assume "n \<noteq> [] \<and> (\<exists>k<length es. rd_name (es ! k) = n \<and> rd_ino (es ! k) = i)"
  then show "dir_abs es n = Some i" using dir_abs_entry [OF assms] by blast
qed

text \<open>An entry written to a free place, and an entry cleared.\<close>

lemma dir_ok_upd:
  assumes "dir_ok es" and "k < length es" and "length (rd_name d) < NAME_LEN"
    and "rd_name d = [] \<or> (\<forall>j<length es. j \<noteq> k \<longrightarrow> rd_name (es ! j) \<noteq> rd_name d)"
  shows "dir_ok (es[k := d])"
  unfolding dir_ok_def
proof (intro conjI ballI allI impI)
  show "length (es[k := d]) = RAMFS_MAX_DIRENT" using dir_okD(1) [OF assms(1)] by simp
  show "length (rd_name x) < NAME_LEN" if "x \<in> set (es[k := d])" for x
    using that assms(3) dir_okD(2) [OF assms(1)] set_update_subset_insert [of es k d] by auto
  show "i = j" if "i < length (es[k := d])" "j < length (es[k := d])" "rd_name (es[k := d] ! i) \<noteq> []"
      "rd_name (es[k := d] ! i) = rd_name (es[k := d] ! j)" for i j
  proof (cases "i = k \<or> j = k")
    case True
    then show ?thesis using that assms(2,4) by (cases "i = k"; cases "j = k") auto
  next
    case False
    then have "rd_name (es ! i) \<noteq> []" "rd_name (es ! i) = rd_name (es ! j)" "i < length es" "j < length es"
      using that by simp_all
    then show ?thesis using dir_okD(3) [OF assms(1)] by metis
  qed
qed

lemma dir_abs_upd:
  assumes ok: "dir_ok es" "dir_ok (es[k := d])" and k: "k < length es"
  shows "dir_abs (es[k := d]) = (\<lambda>n. if n \<noteq> [] \<and> n = rd_name d then Some (rd_ino d)
     else if n = rd_name (es ! k) then None else dir_abs es n)"
proof (rule ext)
  fix n
  have "dir_abs (es[k := d]) n = Some i \<longleftrightarrow> (if n \<noteq> [] \<and> n = rd_name d then Some (rd_ino d)
     else if n = rd_name (es ! k) then None else dir_abs es n) = Some i" for i
  proof (cases "n \<noteq> [] \<and> n = rd_name d")
    case True
    then have "dir_abs (es[k := d]) n = Some (rd_ino d)" using dir_abs_entry [OF ok(2), of k n] k by auto
    with True show ?thesis by auto
  next
    case False
    have "(\<exists>j<length es. rd_name (es[k := d] ! j) = n \<and> rd_ino (es[k := d] ! j) = i)
      \<longleftrightarrow> n \<noteq> rd_name (es ! k) \<and> (\<exists>j<length es. rd_name (es ! j) = n \<and> rd_ino (es ! j) = i)" if "n \<noteq> []"
      using that False dir_okD(3) [OF ok(1), of _ k n] k by (metis nth_list_update)
    then show ?thesis
      using False dir_abs_Some [OF ok(1), of n i] dir_abs_Some [OF ok(2), of n i] by (cases "n = []") auto
  qed
  then show "dir_abs (es[k := d]) n = (if n \<noteq> [] \<and> n = rd_name d then Some (rd_ino d)
     else if n = rd_name (es ! k) then None else dir_abs es n)"
    by (metis not_Some_eq)
qed

section \<open>The contract of a directory\<close>

text \<open>
  What the clients of a directory rely on.  \<open>tab_insert\<close> fails only when \<open>tab_full\<close>; a client may
  rename an entry by inserting the new name and deleting the old one.
\<close>

locale name_table =
  fixes tab_ok :: "'d \<Rightarrow> bool" and tab_abs :: "'d \<Rightarrow> string \<Rightarrow> nat option" and tab_name :: "string \<Rightarrow> bool"
    and tab_full :: "'d \<Rightarrow> bool" and tab_find :: "string \<Rightarrow> 'd \<Rightarrow> nat option"
    and tab_insert :: "string \<Rightarrow> nat \<Rightarrow> 'd \<Rightarrow> 'd option" and tab_delete :: "string \<Rightarrow> 'd \<Rightarrow> 'd"
  assumes find_law: "tab_ok d \<Longrightarrow> tab_name n \<Longrightarrow> tab_find n d = tab_abs d n"
    and insert_law: "tab_ok d \<Longrightarrow> tab_name n \<Longrightarrow> tab_abs d n = None \<Longrightarrow> \<not> tab_full d \<Longrightarrow>
      \<exists>d'. tab_insert n i d = Some d' \<and> tab_ok d' \<and> tab_abs d' = (tab_abs d)(n \<mapsto> i)"
    and full_law: "tab_full d \<Longrightarrow> tab_insert n i d = None"
    and delete_law: "tab_ok d \<Longrightarrow> tab_name n \<Longrightarrow>
      tab_ok (tab_delete n d) \<and> tab_abs (tab_delete n d) = (tab_abs d)(n := None)"
begin

lemma inserted:
  assumes "tab_ok d" and "tab_name n" and "tab_abs d n = None" and "tab_insert n i d = Some d'"
  shows "tab_ok d'" and "tab_abs d' = (tab_abs d)(n \<mapsto> i)"
proof -
  have "\<not> tab_full d" using assms(4) full_law [of d n i] by auto
  from insert_law [OF assms(1-3) this, of i] assms(4)
  show "tab_ok d'" "tab_abs d' = (tab_abs d)(n \<mapsto> i)" by auto
qed

lemma insert_find:
  assumes "tab_ok d" and "tab_name n" and "tab_name m" and "tab_abs d n = None" and "tab_insert n i d = Some d'"
  shows "tab_find m d' = (if m = n then Some i else tab_find m d)"
  using assms inserted [OF assms(1,2,4,5)] by (simp add: find_law)

lemma insert_delete:
  assumes "tab_ok d" and "tab_name n" and "tab_abs d n = None" and "tab_insert n i d = Some d'"
  shows "tab_ok (tab_delete n d')" and "tab_abs (tab_delete n d') = tab_abs d"
  using inserted [OF assms] delete_law [of d' n] assms(2,3) by (auto simp: fun_upd_idem)

lemma rename:
  assumes "tab_ok d" and "tab_name n" and "tab_name m" and "tab_find n d = Some i" and "tab_find m d = None"
    and "\<not> tab_full d"
  shows "\<exists>d'. tab_insert m i d = Some d' \<and> tab_ok (tab_delete n d')
     \<and> tab_abs (tab_delete n d') = (tab_abs d)(n := None, m \<mapsto> i)"
proof -
  have ne: "n \<noteq> m" using assms(4,5) by auto
  obtain d' where "tab_insert m i d = Some d'" "tab_ok d'" "tab_abs d' = (tab_abs d)(m \<mapsto> i)"
    using insert_law [of d m i] assms find_law by auto
  then show ?thesis using delete_law [of d' n] assms(2) ne by (auto simp: fun_upd_twist)
qed

end

lemma free_slot_Some: "free_slot es = Some k \<Longrightarrow> k < length es \<and> rd_name (es ! k) = []"
  unfolding free_slot_def find_idx_Some by blast

lemma dir_insert_ok:
  assumes "dir_ok es" and "name_ok n" and "dir_abs es n = None" and "free_slot es = Some k"
  shows "dir_ok (es[k := new_dirent i n (length n)])"
    and "dir_abs (es[k := new_dirent i n (length n)]) = (dir_abs es)(n \<mapsto> i)"
proof -
  have k: "k < length es" "rd_name (es ! k) = []" using free_slot_Some [OF assms(4)] by auto
  have n: "n \<noteq> []" "length n < NAME_LEN" using assms(2) by (auto simp: name_ok_def)
  show ok: "dir_ok (es[k := new_dirent i n (length n)])"
    using n(2) assms(3) n(1) unfolding new_dirent_ok [OF assms(2)]
    by (intro dir_ok_upd assms(1) k(1)) (auto simp: dir_abs_None)
  show "dir_abs (es[k := new_dirent i n (length n)]) = (dir_abs es)(n \<mapsto> i)"
    unfolding dir_abs_upd [OF assms(1) ok k(1)] unfolding new_dirent_ok [OF assms(2)]
    using n(1) k(2) by (auto simp: fun_eq_iff dir_abs_def)
qed

lemma dir_delete_ok:
  assumes "dir_ok es" and "n \<noteq> []"
  shows "dir_ok (dir_delete n es)" and "dir_abs (dir_delete n es) = (dir_abs es)(n := None)"
proof -
  have "dir_ok (dir_delete n es) \<and> dir_abs (dir_delete n es) = (dir_abs es)(n := None)"
  proof (cases "find_idx (ent_match n (length n)) es")
    case None
    then have "dir_abs es n = None" by (auto simp: find_idx_None ent_match_full dir_abs_None)
    then show ?thesis using None assms(1) by (auto simp: dir_delete_def)
  next
    case (Some k)
    then have k: "k < length es" "rd_name (es ! k) = n" by (auto simp: find_idx_Some ent_match_full)
    have ok: "dir_ok (es[k := (es ! k)\<lparr>rd_name := []\<rparr>])"
      by (intro dir_ok_upd assms(1) k(1)) (auto simp: kernel_consts)
    show ?thesis
      using dir_abs_upd [OF assms(1) ok k(1)] ok Some k(2) by (auto simp: dir_delete_def fun_eq_iff)
  qed
  then show "dir_ok (dir_delete n es)" "dir_abs (dir_delete n es) = (dir_abs es)(n := None)" by auto
qed

interpretation rd: name_table dir_ok dir_abs name_ok "\<lambda>es. free_slot es = None" dir_find dir_insert dir_delete
proof
  fix es n i
  show "dir_find n es = dir_abs es n" if "name_ok n"
    using that by (simp add: dir_find_def dir_abs_def ent_match_full name_ok_def)
  show "\<exists>d'. dir_insert n i es = Some d' \<and> dir_ok d' \<and> dir_abs d' = (dir_abs es)(n \<mapsto> i)"
    if "dir_ok es" "name_ok n" "dir_abs es n = None" "free_slot es \<noteq> None"
    using dir_insert_ok [OF that(1-3)] that(4) by (auto simp: dir_insert_def)
  show "dir_insert n i es = None" if "free_slot es = None" using that by (simp add: dir_insert_def)
  show "dir_ok (dir_delete n es) \<and> dir_abs (dir_delete n es) = (dir_abs es)(n := None)"
    if "dir_ok es" "name_ok n" using dir_delete_ok [of es n] that by (simp add: name_ok_def)
qed

section \<open>Reading a directory\<close>

text \<open>A reader that calls \<^verbatim>\<open>ramfs_readdir\<close> at most \<open>n\<close> times, each time where the last call ended.\<close>

fun readdir_all :: "nat \<Rightarrow> nat \<Rightarrow> int \<Rightarrow> kstate \<Rightarrow> (nat \<times> string) list option" where
  "readdir_all 0 dir off s = None"
| "readdir_all (Suc n) dir off s = do {
     (r, d) \<leftarrow> ramfs_readdir dir off s;
     case d of None \<Rightarrow> Some []
     | Some x \<Rightarrow> map_option ((#) x) (readdir_all n dir (off + r) s)
   }"

definition used_entries :: "ramfs_dirent list \<Rightarrow> (nat \<times> string) list" where
  "used_entries es = map (\<lambda>d. (rd_ino d, rd_name d)) (filter (\<lambda>d. rd_name d \<noteq> []) es)"

lemma used_entries_None: "find_idx (\<lambda>d. rd_name d \<noteq> []) es = None \<Longrightarrow> used_entries es = []"
  by (auto simp: used_entries_def find_idx_None filter_empty_conv)

lemma used_entries_Some:
  "find_idx (\<lambda>d. rd_name d \<noteq> []) es = Some j \<Longrightarrow>
     used_entries es = (rd_ino (es ! j), rd_name (es ! j)) # used_entries (drop (Suc j) es)"
proof (induction es arbitrary: j)
  case (Cons d es)
  then show ?case by (cases j) (auto simp: used_entries_def split: if_splits)
qed simp

lemma readdir_all_from:
  assumes d: "S_ISDIR (vn_mode (vnodes s dir))" "dirents dir s = Some es" "dir_ok es"
  shows "k \<le> RAMFS_MAX_DIRENT \<Longrightarrow> RAMFS_MAX_DIRENT - k < n \<Longrightarrow>
    readdir_all n dir (int k * DIRENT_SIZE) s = Some (used_entries (drop k es))"
proof (induction n arbitrary: k)
  case (Suc n)
  have len: "length es = 128" using d(3) by (simp add: dir_ok_def kernel_consts)
  have nm: "length (rd_name (es ! j)) < 28" if "j < 128" for j
    using d(3) that by (auto simp: dir_ok_def kernel_consts)
  consider (over) "k = 128" | (last) "k < 128" "find_idx (\<lambda>d. rd_name d \<noteq> []) (drop k es) = None"
    | (more) j where "k < 128" "find_idx (\<lambda>d. rd_name d \<noteq> []) (drop k es) = Some j"
    using Suc.prems(1) by (cases "find_idx (\<lambda>d. rd_name d \<noteq> []) (drop k es)") (force simp: kernel_consts)+
  then show ?case
  proof cases
    case over
    then show ?thesis using d len by (simp add: ramfs_readdir_def kernel_consts used_entries_def)
  next
    case last
    then show ?thesis using d used_entries_None [OF last(2)] by (simp add: ramfs_readdir_def kernel_consts)
  next
    case (more j)
    from more(2) have j: "j < length (drop k es)" by (simp add: find_idx_Some)
    then have kj: "k + j < 128" using len by simp
    have "ramfs_readdir dir (int k * DIRENT_SIZE) s
        = Some (DIRENT_SIZE + int j * DIRENT_SIZE, Some (rd_ino (es ! (k + j)), rd_name (es ! (k + j))))"
      using d more nm [OF kj] by (simp add: ramfs_readdir_def kernel_consts Let_def)
    moreover have "int k * DIRENT_SIZE + (DIRENT_SIZE + int j * DIRENT_SIZE) = int (k + j + 1) * DIRENT_SIZE"
      by (simp add: kernel_consts)
    moreover have "readdir_all n dir (int (k + j + 1) * DIRENT_SIZE) s = Some (used_entries (drop (k + j + 1) es))"
      using kj Suc.prems(2) by (intro Suc.IH) (simp_all add: kernel_consts)
    ultimately show ?thesis
      using used_entries_Some [OF more(2)] kj len by (simp add: add.commute add.left_commute)
  qed
qed simp

end
