(* ===== verification/Ramfs_Tree.thy ===== *)
theory Ramfs_Tree
  imports Ramfs_Dir
begin

text \<open>
  The inodes of a RAM file system and the names they have.  The inodes are a map \<open>N\<close> from inode
  numbers, \<open>R\<close> counts the references to the vnode of each.  An inode's link count is the number of
  entries that name it, one more for the root directory, and one more while it is in use; \<open>off\<close> is
  by how much a link count deviates from that while an operation is under way.
\<close>

type_synonym ninodes = "nat \<Rightarrow> ramfs_inode option"

definition entries :: "ramfs_inode \<Rightarrow> ramfs_dirent list" where
  "entries n = (case rf_mem n of DirPage _ es \<Rightarrow> es | _ \<Rightarrow> [])"

definition named :: "ramfs_dirent \<Rightarrow> bool" where
  "named d \<longleftrightarrow> rd_name d \<noteq> [] \<and> rd_name d \<noteq> ''.'' \<and> rd_name d \<noteq> ''..''"

definition weight :: "nat \<Rightarrow> ramfs_dirent \<Rightarrow> int" where
  "weight i d = (if named d \<and> rd_ino d = i then 1 else 0)"

definition cnt :: "ramfs_inode \<Rightarrow> nat \<Rightarrow> int" where
  "cnt n i = (\<Sum>d\<leftarrow>entries n. weight i d)"

definition names :: "ninodes \<Rightarrow> nat \<Rightarrow> int" where
  "names N i = (\<Sum>k\<in>dom N. cnt (the (N k)) i)"

definition node_ok :: "ninodes \<Rightarrow> nat \<Rightarrow> ramfs_inode \<Rightarrow> bool" where
  "node_ok N k n \<longleftrightarrow> (case (rf_mode n, rf_mem n) of
       (RAMFS_TYPE_DIR, DirPage p es) \<Rightarrow> dir_ok es \<and> (\<forall>d\<in>set es. (rd_name d = ''.'' \<longrightarrow> rd_ino d = k)
         \<and> (named d \<longrightarrow> rd_ino d \<in> dom N))
     | (RAMFS_TYPE_DATA, DataPage p bs) \<Rightarrow> length bs = PAGE_SIZE \<and> 0 \<le> rf_size n \<and> rf_size n \<le> int PAGE_SIZE
     | (RAMFS_TYPE_CHR, DevId d) \<Rightarrow> True
     | (RAMFS_TYPE_BLK, DevId d) \<Rightarrow> True
     | _ \<Rightarrow> False)"

definition tree_ok :: "(nat \<Rightarrow> int) \<Rightarrow> ninodes \<Rightarrow> (nat \<Rightarrow> int) \<Rightarrow> bool" where
  "tree_ok off N R \<longleftrightarrow> finite (dom N) \<and> 0 \<in> dom N \<and>
     (\<forall>k n. N k = Some n \<longrightarrow> node_ok N k n
        \<and> rf_linkcount n = names N k + of_bool (k = 0) + of_bool (R k \<noteq> 0) + off k
        \<and> (names N k = 0 \<and> k \<noteq> 0 \<longrightarrow> (\<forall>d\<in>set (entries n). \<not> named d)))"

section \<open>Counting names\<close>

lemma weight_nonneg: "0 \<le> weight i d"
  by (simp add: weight_def)

lemma cnt_nonneg: "0 \<le> cnt n i"
  unfolding cnt_def by (rule sum_list_nonneg) (auto simp: weight_nonneg)

lemma names_nonneg: "0 \<le> names N i"
  unfolding names_def by (rule sum_nonneg) (rule cnt_nonneg)

lemma sum_list_set_nth:
  fixes f :: "'a \<Rightarrow> int"
  shows "j < length xs \<Longrightarrow> (\<Sum>x\<leftarrow>xs[j := y]. f x) = (\<Sum>x\<leftarrow>xs. f x) - f (xs ! j) + f y"
  by (induction xs arbitrary: j) (auto split: nat.splits)

lemma names_new: "finite (dom N) \<Longrightarrow> N k = None \<Longrightarrow> names (N(k \<mapsto> n)) i = names N i + cnt n i"
proof -
  assume a: "finite (dom N)" "N k = None"
  then have "k \<notin> dom N" by auto
  moreover have "(\<Sum>j\<in>dom N. cnt (the ((N(k \<mapsto> n)) j)) i) = (\<Sum>j\<in>dom N. cnt (the (N j)) i)"
    using a(2) by (intro sum.cong) auto
  ultimately show ?thesis using a(1) by (simp add: names_def)
qed

lemma names_del:
  assumes "finite (dom N)" and "N k = Some n"
  shows "names (N(k := None)) i = names N i - cnt n i"
proof -
  have "N = (N(k := None))(k \<mapsto> n)" using assms(2) by auto
  then have "names N i = names ((N(k := None))(k \<mapsto> n)) i" by simp
  also have "\<dots> = names (N(k := None)) i + cnt n i" using assms(1) by (intro names_new) auto
  finally show ?thesis by simp
qed

lemma names_upd:
  assumes "finite (dom N)" and "N k = Some n"
  shows "names (N(k \<mapsto> n')) i = names N i - cnt n i + cnt n' i"
proof -
  have "N(k \<mapsto> n') = (N(k := None))(k \<mapsto> n')" by auto
  moreover have "names ((N(k := None))(k \<mapsto> n')) i = names (N(k := None)) i + cnt n' i"
    using assms(1) by (intro names_new) auto
  ultimately show ?thesis using names_del [OF assms] by simp
qed

lemma cnt_zero: "cnt n i = 0 \<longleftrightarrow> (\<forall>d\<in>set (entries n). named d \<longrightarrow> rd_ino d \<noteq> i)"
proof -
  have pos: "0 \<le> (\<Sum>d\<leftarrow>es. weight i d)" for es by (rule sum_list_nonneg) (auto simp: weight_nonneg)
  have "(\<Sum>d\<leftarrow>es. weight i d) = 0 \<longleftrightarrow> (\<forall>d\<in>set es. named d \<longrightarrow> rd_ino d \<noteq> i)" for es
  proof (induction es)
    case (Cons d es)
    then show ?case using pos [of es] by (auto simp: weight_def)
  qed simp
  then show ?thesis by (simp add: cnt_def)
qed

lemma names_zero:
  assumes "finite (dom N)" and "names N i = 0" and "N k = Some n" and "d \<in> set (entries n)" and "named d"
  shows "rd_ino d \<noteq> i"
proof -
  have "\<forall>x\<in>dom N. cnt (the (N x)) i = 0"
    using sum_nonneg_eq_0_iff [OF assms(1), of "\<lambda>k. cnt (the (N k)) i"] cnt_nonneg assms(2)
    by (simp add: names_def)
  then have "cnt n i = 0" using assms(3) by (metis domI option.sel)
  then show ?thesis using assms(4,5) cnt_zero by blast
qed

lemma cnt_entry:
  assumes "rf_mem n = DirPage p es" and "j < length es"
  shows "cnt (n\<lparr>rf_mem := DirPage p (es[j := d]), rf_size := z\<rparr>) i = cnt n i - weight i (es ! j) + weight i d"
  using sum_list_set_nth [OF assms(2)] assms(1) by (simp add: cnt_def entries_def)

lemma names_pos:
  assumes "finite (dom N)" and "N k = Some n" and "d \<in> set (entries n)" and "named d"
  shows "0 < names N (rd_ino d)"
  using names_zero [OF assms(1) _ assms(2,3,4), of "rd_ino d"] names_nonneg [of N "rd_ino d"] by linarith

section \<open>Steps\<close>

lemma tree_okD:
  assumes "tree_ok off N R"
  shows "finite (dom N)" "0 \<in> dom N"
    "N k = Some n \<Longrightarrow> node_ok N k n"
    "N k = Some n \<Longrightarrow> rf_linkcount n = names N k + of_bool (k = 0) + of_bool (R k \<noteq> 0) + off k"
    "N k = Some n \<Longrightarrow> names N k = 0 \<Longrightarrow> k \<noteq> 0 \<Longrightarrow> d \<in> set (entries n) \<Longrightarrow> \<not> named d"
  using assms unfolding tree_ok_def by blast+

lemma node_ok_named: "node_ok N k n \<Longrightarrow> d \<in> set (entries n) \<Longrightarrow> named d \<Longrightarrow> N (rd_ino d) \<noteq> None"
  by (auto simp: node_ok_def entries_def split: rftype.splits rfmem.splits)

lemma node_ok_mono: "node_ok N k n \<Longrightarrow> dom N \<subseteq> dom N' \<Longrightarrow> node_ok N' k n"
  by (auto simp: node_ok_def subset_iff split: rftype.splits rfmem.splits)

lemma entries_links [simp]: "entries (n\<lparr>rf_linkcount := l\<rparr>) = entries n" "cnt (n\<lparr>rf_linkcount := l\<rparr>) = cnt n"
  by (simp_all add: entries_def cnt_def fun_eq_iff)

lemma node_ok_links [simp]: "node_ok N k (n\<lparr>rf_linkcount := l\<rparr>) = node_ok N k n"
  by (simp add: node_ok_def split: rftype.split rfmem.split)

text \<open>No name refers to a number without an inode.\<close>

lemma names_outside:
  assumes "tree_ok off N R" and "N i = None"
  shows "names N i = 0"
proof -
  have "cnt (the (N k)) i = 0" if "k \<in> dom N" for k
  proof -
    from that obtain n where n: "N k = Some n" by auto
    have "rd_ino d \<noteq> i" if "d \<in> set (entries n)" "named d" for d
      using tree_okD(3) [OF assms(1) n] that assms(2)
      by (auto simp: node_ok_def entries_def split: rftype.splits rfmem.splits)
    then show ?thesis using n by (auto simp: cnt_zero)
  qed
  then show ?thesis by (simp add: names_def)
qed

lemma tree_relink:
  assumes "tree_ok off N R" and "N k = Some n"
  shows "tree_ok (off(k := off k + d - of_bool (r \<noteq> 0) + of_bool (R k \<noteq> 0)))
    (N(k \<mapsto> n\<lparr>rf_linkcount := rf_linkcount n + d\<rparr>)) (R(k := r))"
proof -
  let ?N = "N(k \<mapsto> n\<lparr>rf_linkcount := rf_linkcount n + d\<rparr>)"
  note t = tree_okD [OF assms(1)]
  have nm: "names ?N i = names N i" for i using names_upd [OF t(1) assms(2)] by simp
  have dm: "dom ?N = dom N" using assms(2) by auto
  have nd: "node_ok ?N i m = node_ok N i m" for i m using node_ok_mono [of _ i m] dm by blast
  show ?thesis
    unfolding tree_ok_def nm nd dm
    using t(1,2) t(3-5) [OF assms(2)] t(3-5) assms(2) by (auto split: if_splits)
qed

lemma tree_new:
  assumes "tree_ok off N R" and "N k = None" and "R k = 0" and "node_ok N k n" and "\<forall>d\<in>set (entries n). \<not> named d"
  shows "tree_ok (off(k := rf_linkcount n)) (N(k \<mapsto> n)) R"
proof -
  let ?N = "N(k \<mapsto> n)"
  note t = tree_okD [OF assms(1)]
  have nm: "names ?N i = names N i" for i
    using names_new [OF t(1) assms(2)] cnt_zero [of n i] assms(5) by simp
  have k: "k \<noteq> 0" using t(2) assms(2) by (metis domIff)
  have nd: "node_ok N i m \<Longrightarrow> node_ok ?N i m" for i m using node_ok_mono [of N i m ?N] by auto
  show ?thesis
    unfolding tree_ok_def nm
    using t(1,2) t(3-5) assms(3,5) names_outside [OF assms(1,2)] k nd [OF assms(4)] nd
    by (auto split: if_splits)
qed

lemma tree_free:
  assumes "tree_ok off N R" and "N k = Some n" and "k \<noteq> 0" and "names N k = 0"
  shows "tree_ok off (N(k := None)) (R(k := 0))"
proof -
  let ?N = "N(k := None)"
  note t = tree_okD [OF assms(1)]
  have nm: "names ?N i = names N i" for i
    using names_del [OF t(1) assms(2)] cnt_zero [of n i] t(5) [OF assms(2,4,3)] by simp
  have nd: "node_ok ?N i m" if "N i = Some m" for i m
    using t(3) [OF that] names_zero [OF t(1) assms(4) that]
    by (auto simp: node_ok_def entries_def split: rftype.splits rfmem.splits)
  show ?thesis
    unfolding tree_ok_def nm using t(1,2) t(4,5) assms(3) nd by auto
qed

lemma node_ok_entry:
  assumes "node_ok N k n" and "rf_mem n = DirPage p es" and "dir_ok (es[j := d])"
    and "rd_name d = ''.'' \<longrightarrow> rd_ino d = k" and "named d \<longrightarrow> rd_ino d \<in> dom N"
  shows "node_ok N k (n\<lparr>rf_mem := DirPage p (es[j := d]), rf_size := z\<rparr>)"
  using assms set_update_subset_insert [of es j d]
  by (auto simp: node_ok_def split: rftype.splits dest!: subsetD)

lemma tree_set_entry:
  assumes "tree_ok off N R" and "N k = Some n" and "rf_mem n = DirPage p es" and "j < length es"
    and "\<not> named (es ! j)" and "dir_ok (es[j := d])" and "rd_name d = ''.'' \<longrightarrow> rd_ino d = k"
    and "named d \<longrightarrow> rd_ino d \<in> dom N \<and> (k = 0 \<or> names N k \<noteq> 0)"
  shows "tree_ok (\<lambda>i. off i - weight i d) (N(k \<mapsto> n\<lparr>rf_mem := DirPage p (es[j := d]), rf_size := z\<rparr>)) R"
proof -
  let ?n = "n\<lparr>rf_mem := DirPage p (es[j := d]), rf_size := z\<rparr>"
  let ?N = "N(k \<mapsto> ?n)"
  note t = tree_okD [OF assms(1)]
  have nm: "names ?N i = names N i + weight i d" for i
    using names_upd [OF t(1) assms(2)] cnt_entry [OF assms(3,4)] assms(5) by (simp add: weight_def)
  have dm: "dom ?N = dom N" using assms(2) by auto
  have nd: "node_ok ?N i m = node_ok N i m" for i m using node_ok_mono [of _ i m] dm by blast
  have nk: "node_ok N k ?n" using assms(6-8) by (intro node_ok_entry t(3) assms(2,3)) auto
  have z: "names N i + weight i d = 0 \<longleftrightarrow> names N i = 0 \<and> weight i d = 0" for i
    using names_nonneg [of N i] weight_nonneg [of i d] by linarith
  have e: "\<not> named x" if "x \<in> set (entries ?n)" "names N k = 0" "k \<noteq> 0" for x
    using that assms(3,8) t(5) [OF assms(2)] set_update_subset_insert [of es j d] by (auto simp: entries_def)
  show ?thesis
    unfolding tree_ok_def nm nd dm z
    using t(1,2) nk e t(3-5) t(4) [OF assms(2)] by (auto split: if_splits)
qed

lemma tree_clear_entry:
  assumes "tree_ok off N R" and "N k = Some n" and "rf_mem n = DirPage p es" and "j < length es"
    and "named (es ! j)" and "dir_ok (es[j := d])" and "rd_name d = []"
    and "\<And>m x. N (rd_ino (es ! j)) = Some m \<Longrightarrow> x \<in> set (entries m) \<Longrightarrow> \<not> named x"
  shows "tree_ok (\<lambda>i. off i + weight i (es ! j)) (N(k \<mapsto> n\<lparr>rf_mem := DirPage p (es[j := d]), rf_size := z\<rparr>)) R"
proof -
  let ?n = "n\<lparr>rf_mem := DirPage p (es[j := d]), rf_size := z\<rparr>"
  let ?N = "N(k \<mapsto> ?n)"
  note t = tree_okD [OF assms(1)]
  have d: "\<not> named d" using assms(7) by (simp add: named_def)
  have nm: "names ?N i = names N i - weight i (es ! j)" for i
    using names_upd [OF t(1) assms(2)] cnt_entry [OF assms(3,4)] d by (simp add: weight_def)
  have dm: "dom ?N = dom N" using assms(2) by auto
  have nd: "node_ok ?N i m = node_ok N i m" for i m using node_ok_mono [of _ i m] dm by blast
  have nk: "node_ok N k ?n" using assms(6,7) d by (intro node_ok_entry t(3) assms(2,3)) auto
  have old: "x \<in> set (entries n) \<or> x = d" if "x \<in> set (entries ?n)" for x
    using that assms(3) set_update_subset_insert [of es j d] by (auto simp: entries_def)
  have e: "\<not> named x" if "N i = Some m" "x \<in> set (entries m)" "names N i - weight i (es ! j) = 0" "i \<noteq> 0" for i m x
    using that assms(8) t(5) [OF that(1) _ that(4,2)] by (cases "rd_ino (es ! j) = i") (auto simp: weight_def)
  have ek: "\<not> named x" if "x \<in> set (entries ?n)" "names N k - weight k (es ! j) = 0" "k \<noteq> 0" for x
    using old [OF that(1)] e [OF assms(2) _ that(2,3)] d by blast
  show ?thesis
    unfolding tree_ok_def nm nd dm
    using t(1,2) nk e ek t(3,4) t(4) [OF assms(2)] by (auto split: if_splits)
qed

end
