(* ===== verification/Ramfs_Inv.thy ===== *)
theory Ramfs_Inv
  imports Ramfs_Tree
begin

text \<open>
  The invariant of the RAM file system in the kernel's state, and what the steps its operations
  are made of do to it: taking and giving back vnodes, changing an inode, allocating one.
\<close>

definition nodes :: "nat \<Rightarrow> kstate \<Rightarrow> ninodes" where
  "nodes f s = (\<lambda>k. if inode_ok f k s then Some (inodes s (inode_of f k s)) else None)"

definition table_ok :: "nat \<Rightarrow> kstate \<Rightarrow> bool" where
  "table_ok f s \<longleftrightarrow> length (ramfss s (fs_i (fss s f))) = RAMFS_MAX_FILES \<and>
     (\<forall>k<RAMFS_MAX_FILES. inode_of f k s \<noteq> 0 \<longrightarrow> rf_ino (inodes s (inode_of f k s)) = k)"

text \<open>The length a file's vnode shows is the length of the file.\<close>

definition lens_ok :: "kstate \<Rightarrow> bool" where
  "lens_ok s \<longleftrightarrow> (\<forall>vn. in_use vn s \<and> vn_ops (vnodes s vn) = RamfsFile \<longrightarrow>
     vn_len (vnodes s vn) = rf_size (inodes s (vn_i (vnodes s vn))))"

definition ramfs_st :: "(nat \<Rightarrow> int) \<Rightarrow> nat \<Rightarrow> kstate \<Rightarrow> bool" where
  "ramfs_st off f s \<longleftrightarrow> cache_ok f s \<and> table_ok f s \<and> lens_ok s \<and> tree_ok off (nodes f s) (refs f s)"

abbreviation ramfs_ok :: "nat \<Rightarrow> kstate \<Rightarrow> bool" where
  "ramfs_ok \<equiv> ramfs_st (\<lambda>_. 0)"

text \<open>What the file system's operations never touch.\<close>

definition fs_frame :: "kstate \<Rightarrow> kstate \<Rightarrow> bool" where
  "fs_frame s s' \<longleftrightarrow> fss s' = fss s \<and> files s' = files s \<and> procs s' = procs s \<and> curproc s' = curproc s
     \<and> vfs_root_vn s' = vfs_root_vn s"

lemma fs_frame_refl [simp]: "fs_frame s s"
  by (simp add: fs_frame_def)

lemma fs_frame_trans: "fs_frame s t \<Longrightarrow> fs_frame t u \<Longrightarrow> fs_frame s u"
  by (simp add: fs_frame_def)

lemma ramfs_stD:
  assumes "ramfs_st off f s"
  shows "cache_ok f s" "table_ok f s" "lens_ok s" "tree_ok off (nodes f s) (refs f s)"
  using assms by (auto simp: ramfs_st_def)

lemma nodes_Some: "nodes f s k = Some n \<longleftrightarrow> inode_ok f k s \<and> n = inodes s (inode_of f k s)"
  by (auto simp: nodes_def)

lemma nodes_None: "nodes f s k = None \<longleftrightarrow> \<not> inode_ok f k s"
  by (simp add: nodes_def)

lemma nodes_cong: "ramfss s' = ramfss s \<Longrightarrow> fss s' = fss s \<Longrightarrow> inodes s' = inodes s \<Longrightarrow> nodes f s' = nodes f s"
  by (rule ext) (simp add: nodes_def inode_ok_def inode_of_def)

lemma table_ok_inode: "table_ok f s \<Longrightarrow> inode_ok f k s \<longleftrightarrow> k < RAMFS_MAX_FILES \<and> inode_of f k s \<noteq> 0"
  by (auto simp: table_ok_def inode_ok_def)

text \<open>The inode of a vnode in use.\<close>

lemma vnode_node:
  assumes "ramfs_st off f s" and "in_use vn s"
  shows "nodes f s (vn_vno (vnodes s vn)) = Some (inodes s (vn_i (vnodes s vn)))"
    and "vn_i (vnodes s vn) = inode_of f (vn_vno (vnodes s vn)) s"
    and "refs f s (vn_vno (vnodes s vn)) \<noteq> 0" and "vn_fs (vnodes s vn) = f"
proof -
  note v = vnode_okD [OF cache_ok_vnode [OF ramfs_stD(1) [OF assms(1)] assms(2)]]
  show "nodes f s (vn_vno (vnodes s vn)) = Some (inodes s (vn_i (vnodes s vn)))" using v(8,9) by (simp add: nodes_def)
  show "vn_i (vnodes s vn) = inode_of f (vn_vno (vnodes s vn)) s" "vn_fs (vnodes s vn) = f" by (rule v(9), rule v(5))
  show "refs f s (vn_vno (vnodes s vn)) \<noteq> 0"
    using refs_vnode [OF ramfs_stD(1) [OF assms(1)] assms(2)] v(2) by simp
qed

section \<open>Changing an inode\<close>

lemma inode_of_upd_inode [simp]: "inode_of f k (upd_inode a g s) = inode_of f k s"
  by (simp add: inode_of_def)

lemma refs_upd_inode [simp]: "refs f (upd_inode a g s) = refs f s"
  by (rule refs_cong) simp_all

lemma cache_ok_upd_inode:
  assumes "cache_ok f s" and "rf_ino (g (inodes s a)) = rf_ino (inodes s a)"
    and "rf_mode (g (inodes s a)) = rf_mode (inodes s a)"
    and "\<And>vn. in_use vn s \<Longrightarrow> vn_i (vnodes s vn) = a \<Longrightarrow> 0 < rf_linkcount (g (inodes s a))"
  shows "cache_ok f (upd_inode a g s)"
proof -
  have "vnode_ok f w (upd_inode a g s)" if "in_use w s" for w
  proof -
    note w = vnode_okD [OF cache_ok_vnode [OF assms(1) that]]
    have "vn_shape f (upd_inode a g s) (vnodes s w)"
      by (rule vn_shape_links [OF w(3)]) (use assms(2-4) that w(10) in auto)
    then show ?thesis using w(1,2,4) by (simp add: vnode_ok_def)
  qed
  then show ?thesis using assms(1) by (simp add: cache_ok_def)
qed

lemma inode_ok_upd_inode:
  "rf_ino (g (inodes s a)) = rf_ino (inodes s a) \<Longrightarrow> inode_ok f k (upd_inode a g s) = inode_ok f k s"
  by (auto simp: inode_ok_def)

lemma nodes_upd_inode:
  assumes "nodes f s k = Some n" and "rf_ino (g n) = rf_ino n"
  shows "nodes f (upd_inode (inode_of f k s) g s) = (nodes f s)(k \<mapsto> g n)"
proof (rule ext)
  fix j
  have k: "inode_ok f k s" "n = inodes s (inode_of f k s)" using assms(1) by (auto simp: nodes_Some)
  have io: "inode_ok f j (upd_inode (inode_of f k s) g s) = inode_ok f j s"
    using assms(2) k(2) by (intro inode_ok_upd_inode) simp
  show "nodes f (upd_inode (inode_of f k s) g s) j = ((nodes f s)(k \<mapsto> g n)) j"
    using inode_of_inj [OF _ k(1), of j] k by (auto simp: nodes_def io)
qed

lemma ramfs_upd_inode:
  assumes st: "ramfs_st off f s" and n: "nodes f s k = Some n"
    and g: "rf_ino (g n) = rf_ino n" "rf_mode (g n) = rf_mode n"
      "rf_mode n = RAMFS_TYPE_DATA \<longrightarrow> rf_size (g n) = rf_size n" "refs f s k \<noteq> 0 \<longrightarrow> 0 < rf_linkcount (g n)"
    and tree: "tree_ok off' ((nodes f s)(k \<mapsto> g n)) (refs f s)"
  shows "ramfs_st off' f (upd_inode (inode_of f k s) g s)"
    and "nodes f (upd_inode (inode_of f k s) g s) = (nodes f s)(k \<mapsto> g n)"
    and "fs_frame s (upd_inode (inode_of f k s) g s)"
proof -
  let ?s = "upd_inode (inode_of f k s) g s"
  show nd: "nodes f ?s = (nodes f s)(k \<mapsto> g n)" using nodes_upd_inode [where g = g, OF n g(1)] .
  show "fs_frame s ?s" by (simp add: fs_frame_def)
  have k: "inode_ok f k s" "n = inodes s (inode_of f k s)" using n by (auto simp: nodes_Some)
  have use: "vn_vno (vnodes s vn) = k" if "in_use vn s" "vn_i (vnodes s vn) = inode_of f k s" for vn
    using vnode_okD(8,9) [OF cache_ok_vnode [OF ramfs_stD(1) [OF st] that(1)]] that(2) k(1) inode_of_inj by metis
  have "cache_ok f ?s"
    using g k(2) use vnode_node(3) [OF st] by (intro cache_ok_upd_inode ramfs_stD(1) [OF st]) auto
  moreover have "table_ok f ?s"
    using ramfs_stD(2) [OF st] g(1) k(2) by (auto simp: table_ok_def)
  moreover have "lens_ok ?s"
  proof -
    have "rf_mode n = RAMFS_TYPE_DATA" if "in_use vn s" "vn_ops (vnodes s vn) = RamfsFile"
      "vn_i (vnodes s vn) = inode_of f k s" for vn
      using vn_shape_kind [OF vnode_okD(3) [OF cache_ok_vnode [OF ramfs_stD(1) [OF st] that(1)]]] that(2,3) k(2)
      by (auto simp: vn_kind_def split: rftype.splits)
    then show ?thesis using ramfs_stD(3) [OF st] g(3) k(2) by (auto simp: lens_ok_def)
  qed
  ultimately show "ramfs_st off' f ?s" using tree nd by (simp add: ramfs_st_def)
qed

section \<open>Vnodes\<close>

lemma nodes_upd_vnode [simp]: "nodes f (upd_vnode a g s) = nodes f s"
  by (simp add: nodes_def inode_ok_def fun_eq_iff)

lemma nodes_with_vnode:
  assumes "nodes f s k = Some n"
  shows "nodes f (with_vnode vn f k s) = (nodes f s)(k \<mapsto> n\<lparr>rf_linkcount := rf_linkcount n + 1\<rparr>)"
proof -
  let ?g = "\<lambda>n. n\<lparr>rf_linkcount := rf_linkcount n + 1\<rparr>"
  have "nodes f (with_vnode vn f k s) = nodes f (upd_inode (inode_of f k s) ?g s)"
    by (simp add: nodes_def inode_ok_def inode_of_def fun_eq_iff)
  also have "\<dots> = (nodes f s)(k \<mapsto> ?g n)" by (rule nodes_upd_inode [OF assms]) simp
  finally show ?thesis .
qed

lemma ramfs_st_answers [simp]: "ramfs_st off f (s\<lparr>answers := as\<rparr>) = ramfs_st off f s"
proof -
  let ?s = "s\<lparr>answers := as\<rparr>"
  have "cache_ok f ?s = cache_ok f s" "refs f ?s = refs f s" "nodes f ?s = nodes f s"
    by (rule cache_ok_cong refs_cong nodes_cong; simp)+
  moreover have "table_ok f ?s = table_ok f s" "lens_ok ?s = lens_ok s"
    by (simp_all add: table_ok_def lens_ok_def inode_of_def)
  ultimately show ?thesis by (simp add: ramfs_st_def)
qed

definition vget_room :: "nat \<Rightarrow> nat \<Rightarrow> kstate \<Rightarrow> bool" where
  "vget_room f ino s \<longleftrightarrow> (refs f s ino = 0 \<longrightarrow> answers s \<noteq> [] \<and> vnode_room (hd (answers s)) s)"

lemma vget_step:
  assumes st: "ramfs_st off f s" and n: "nodes f s ino = Some n" and mem: "vget_room f ino s"
    and l: "0 \<le> rf_linkcount n"
  shows "\<exists>vn s'. vget e f ino s = Some (vn, s') \<and> ramfs_st off f s' \<and> vnode_search f ino s' = Some vn
     \<and> refs f s' = (refs f s)(ino := refs f s ino + 1)
     \<and> nodes f s' = (nodes f s)(ino \<mapsto> n\<lparr>rf_linkcount := rf_linkcount n + of_bool (refs f s ino = 0)\<rparr>)
     \<and> (\<forall>w. in_use w s \<longrightarrow> in_use w s' \<and> vn_vno (vnodes s' w) = vn_vno (vnodes s w)) \<and> fs_frame s s'"
proof -
  have ok: "cache_ok f s" and ino: "inode_ok f ino s" and ni: "n = inodes s (inode_of f ino s)"
    using ramfs_stD(1) [OF st] n by (auto simp: nodes_Some)
  let ?N = "(nodes f s)(ino \<mapsto> n\<lparr>rf_linkcount := rf_linkcount n + of_bool (refs f s ino = 0)\<rparr>)"
  let ?R = "(refs f s)(ino := refs f s ino + 1)"
  have r0: "refs f s ino + 1 \<noteq> 0" using refs_nonneg [OF ok, of ino] by simp
  have tree: "tree_ok off ?N ?R"
    using tree_relink [OF ramfs_stD(4) [OF st] n, of "of_bool (refs f s ino = 0)" "refs f s ino + 1"] r0
    by (simp add: fun_upd_idem of_bool_def split: if_splits)
  show ?thesis
  proof (cases "vnode_search f ino s")
    case None
    define a t where "a = hd (answers s)" and "t = s\<lparr>answers := tl (answers s)\<rparr>"
    have z: "refs f s ino = 0" using None refs_zero [OF ok] by simp
    have a: "answers s = a # tl (answers s)" "a \<noteq> 0" "vnode_room a t"
      using mem z by (auto simp: a_def t_def vnode_room_def vget_room_def)
    have stt: "ramfs_st off f t" using st by (simp add: t_def)
    have t: "vnode_search f ino t = None" "nodes f t ino = Some n" "refs f t = refs f s" "nodes f t = nodes f s"
      using None n refs_cong [of t s f] nodes_cong [of t s f] by (simp_all add: t_def vnode_search_def)
    let ?s = "with_vnode a f ino t"
    have nd: "nodes f ?s = ?N" using nodes_with_vnode [OF t(2), of a] z t(4) by simp
    have rf: "refs f ?s = ?R" using refs_with_vnode [OF ramfs_stD(1) [OF stt] a(3), of ino] t(3) z by simp
    have it: "inode_ok f ino t" "n = inodes t (inode_of f ino t)" using t(2) by (auto simp: nodes_Some)
    have "cache_ok f ?s" using it l by (intro cache_ok_with_vnode ramfs_stD(1) [OF stt] t(1) a(3)) auto
    moreover have "table_ok f ?s"
      using ramfs_stD(2) [OF stt] by (auto simp: table_ok_def inode_of_def)
    moreover have "lens_ok ?s"
      using ramfs_stD(3) [OF stt] a(3) by (auto simp: lens_ok_def vnode_room_def)
    ultimately have "ramfs_st off f ?s" using tree nd rf by (simp add: ramfs_st_def)
    moreover have "vnode_search f ino ?s = Some a" by (simp add: vnode_search_def)
    moreover have "fs_frame s ?s" by (simp add: fs_frame_def t_def)
    moreover have "\<forall>w. in_use w s \<longrightarrow> in_use w ?s \<and> vn_vno (vnodes ?s w) = vn_vno (vnodes s w)"
      using a(3) by (auto simp: t_def vnode_room_def)
    ultimately show ?thesis
      using vget_miss [OF ok ino None a(1,2)] nd rf unfolding t_def [symmetric] by blast
  next
    case (Some vn)
    then have vn: "in_use vn s" "vn_vno (vnodes s vn) = ino" using vnode_search_Some by auto
    let ?s = "add_ref vn 1 s"
    have pos: "0 < vn_refcount (vnodes s vn)" using vnode_okD(2) [OF cache_ok_vnode [OF ok vn(1)]] .
    have z: "refs f s ino \<noteq> 0" using Some refs_zero [OF ok] by simp
    have nd: "nodes f ?s = ?N" using n z by auto
    have rf: "refs f ?s = ?R" using refs_add_ref [OF ok vn(1)] vn(2) by simp
    have "cache_ok f ?s" using pos by (intro cache_ok_add_ref ok) simp
    moreover have "table_ok f ?s" "lens_ok ?s"
      using ramfs_stD(2,3) [OF st] by (auto simp: table_ok_def lens_ok_def)
    ultimately have "ramfs_st off f ?s" using tree nd rf by (simp add: ramfs_st_def)
    moreover have "fs_frame s ?s" by (simp add: fs_frame_def)
    ultimately show ?thesis
      using vget_hit [OF ok Some] nd rf Some by (simp add: vnode_search_add_ref)
  qed
qed

lemma nodes_drop_inode:
  assumes "nodes f s k = Some n"
  shows "nodes f (drop_inode f k s) = (if rf_linkcount n = 1 then (nodes f s)(k := None)
     else (nodes f s)(k \<mapsto> n\<lparr>rf_linkcount := rf_linkcount n - 1\<rparr>))"
proof (rule ext)
  fix j
  have k: "inode_ok f k s" "n = inodes s (inode_of f k s)" using assms by (auto simp: nodes_Some)
  show "nodes f (drop_inode f k s) j = (if rf_linkcount n = 1 then (nodes f s)(k := None)
     else (nodes f s)(k \<mapsto> n\<lparr>rf_linkcount := rf_linkcount n - 1\<rparr>)) j"
  proof (cases "j = k")
    case True
    then show ?thesis using k by (auto simp: nodes_def inode_ok_def inode_of_def drop_inode_def Let_def)
  next
    case False
    then show ?thesis
    proof (cases "inode_of f j s = inode_of f k s \<and> inode_ok f j s")
      case True
      then show ?thesis using False inode_of_inj k(1) by blast
    next
      case ne: False
      then show ?thesis using False k(2)
        by (auto simp: nodes_def inode_ok_def inode_of_def drop_inode_def Let_def)
    qed
  qed
qed

lemma table_ok_drop_inode:
  assumes "table_ok f s" and "k < RAMFS_MAX_FILES"
  shows "table_ok f (drop_inode f k s)"
proof -
  have "inode_of f j (drop_inode f k s) = 0 \<or> inode_of f j (drop_inode f k s) = inode_of f j s" for j
    using assms by (cases "j = k") (auto simp: drop_inode_def Let_def inode_of_def table_ok_def)
  moreover have "rf_ino (inodes (drop_inode f k s) x) = rf_ino (inodes s x)" for x
    by (simp add: drop_inode_def Let_def)
  moreover have "length (ramfss (drop_inode f k s) (fs_i (fss s f))) = RAMFS_MAX_FILES"
    using assms(1) by (simp add: drop_inode_def Let_def table_ok_def)
  ultimately show ?thesis using assms(1) unfolding table_ok_def by (metis drop_inode_sel(3))
qed

lemma vput_step:
  assumes st: "ramfs_st off f s" and vn: "in_use vn s"
  defines "ino \<equiv> vn_vno (vnodes s vn)" and "n \<equiv> inodes s (vn_i (vnodes s vn))"
  assumes off: "off ino = 0"
  shows "\<exists>s'. vput vn s = Some s' \<and> ramfs_st off f s' \<and> refs f s' = (refs f s)(ino := refs f s ino - 1)
     \<and> nodes f s' = (if refs f s ino = 1 \<and> rf_linkcount n = 1 then (nodes f s)(ino := None)
          else (nodes f s)(ino \<mapsto> n\<lparr>rf_linkcount := rf_linkcount n - of_bool (refs f s ino = 1)\<rparr>))
     \<and> (\<forall>w. in_use w s \<and> (w \<noteq> vn \<or> refs f s ino \<noteq> 1) \<longrightarrow> in_use w s' \<and> vn_vno (vnodes s' w) = vn_vno (vnodes s w))
     \<and> fs_frame s s' \<and> answers s' = answers s"
proof -
  note ok = ramfs_stD(1) [OF st] and tr = ramfs_stD(4) [OF st]
  have n: "nodes f s ino = Some n" using vnode_node(1) [OF st vn] by (simp add: ino_def n_def)
  have rc: "refs f s ino = vn_refcount (vnodes s vn)" using refs_vnode [OF ok vn] by (simp add: ino_def)
  have pos: "0 < vn_refcount (vnodes s vn)" using vnode_okD(2) [OF cache_ok_vnode [OF ok vn]] .
  have fs: "vn_fs (vnodes s vn) = f" using vnode_node(4) [OF st vn] .
  let ?R = "(refs f s)(ino := refs f s ino - 1)"
  show ?thesis
  proof (cases "refs f s ino = 1")
    case True
    let ?s = "without_vnode vn s"
    have nd: "nodes f ?s = (if rf_linkcount n = 1 then (nodes f s)(ino := None)
        else (nodes f s)(ino \<mapsto> n\<lparr>rf_linkcount := rf_linkcount n - 1\<rparr>))"
    proof -
      have "nodes f ?s = nodes f (drop_inode f ino s)"
        using fs by (simp add: nodes_def inode_ok_def inode_of_def ino_def fun_eq_iff)
      then show ?thesis using nodes_drop_inode [OF n] by simp
    qed
    have tree: "tree_ok off (nodes f ?s) ?R"
    proof (cases "rf_linkcount n = 1")
      case l: True
      have "names (nodes f s) ino = 0 \<and> ino \<noteq> 0"
        using tree_okD(4) [OF tr n] l True off names_nonneg [of "nodes f s" ino] by (cases "ino = 0") auto
      then show ?thesis using tree_free [OF tr n] nd l True by simp
    next
      case False
      then show ?thesis using tree_relink [OF tr n, of "-1" 0] nd True by (simp add: fun_upd_idem)
    qed
    moreover have "refs f ?s = ?R" using refs_without_vnode [OF ok vn] True by (simp add: ino_def)
    moreover have "table_ok f ?s"
      using table_ok_drop_inode [OF ramfs_stD(2) [OF st], of ino] n table_ok_inode [OF ramfs_stD(2) [OF st], of ino] fs
      by (simp add: table_ok_def inode_of_def nodes_Some ino_def)
    moreover have dist: "in_use w ?s \<longleftrightarrow> in_use w s \<and> w \<noteq> vn" for w
      using ok by (auto simp: cache_ok_def set_remove1_distinct)
    moreover have "lens_ok ?s"
      using ramfs_stD(3) [OF st] dist by (auto simp: lens_ok_def drop_inode_def Let_def)
    ultimately have "ramfs_st off f ?s" using cache_ok_without_vnode [OF ok vn] by (simp add: ramfs_st_def)
    then show ?thesis
      using vput_last [OF ok vn] True rc nd \<open>refs f ?s = ?R\<close> dist by (simp add: fs_frame_def)
  next
    case False
    let ?s = "add_ref vn (-1) s"
    have gt: "1 < vn_refcount (vnodes s vn)" using pos False rc by linarith
    have rf: "refs f ?s = ?R" using refs_add_ref [OF ok vn, of "-1"] by (simp add: ino_def)
    have "tree_ok off (nodes f s) ?R"
      using tree_relink [OF tr n, of 0 "refs f s ino - 1"] False gt rc n by (simp add: fun_upd_idem map_upd_triv)
    then have "ramfs_st off f ?s"
      using cache_ok_add_ref [OF ok, of vn "-1"] gt ramfs_stD(2,3) [OF st] rf
      unfolding ramfs_st_def by (auto simp: table_ok_def lens_ok_def)
    then show ?thesis
      using vput_dec [OF ok vn gt] rf False n
      by (simp add: fs_frame_def map_upd_triv)
  qed
qed

section \<open>A new inode\<close>

definition new_inode :: "rftype \<Rightarrow> nat \<Rightarrow> nat \<Rightarrow> nat \<Rightarrow> ramfs_inode" where
  "new_inode type devid p i = \<lparr>rf_size = 0, rf_ino = i, rf_mem = (case type of
       RAMFS_TYPE_DIR \<Rightarrow> DirPage p (replicate RAMFS_MAX_DIRENT \<lparr>rd_ino = 0, rd_name = []\<rparr>)
     | RAMFS_TYPE_DATA \<Rightarrow> DataPage p (replicate PAGE_SIZE 0)
     | _ \<Rightarrow> DevId devid), rf_mode = type, rf_linkcount = 1\<rparr>"

abbreviation is_dev :: "rftype \<Rightarrow> bool" where
  "is_dev type \<equiv> type = RAMFS_TYPE_CHR \<or> type = RAMFS_TYPE_BLK"

text \<open>Memory for an inode, and for its page when it has one.\<close>

definition inode_room :: "nat \<Rightarrow> rftype \<Rightarrow> kstate \<Rightarrow> bool" where
  "inode_room f type s \<longleftrightarrow> answers s \<noteq> [] \<and> hd (answers s) \<noteq> 0
     \<and> hd (answers s) \<notin> set (ramfss s (fs_i (fss s f)))
     \<and> (is_dev type \<or> tl (answers s) \<noteq> [] \<and> hd (tl (answers s)) \<noteq> 0)"

definition free_ino :: "nat \<Rightarrow> kstate \<Rightarrow> nat option" where
  "free_ino f s = find_idx (\<lambda>a. a = 0) (ramfss s (fs_i (fss s f)))"

lemma dir_ok_fresh: "dir_ok (replicate RAMFS_MAX_DIRENT \<lparr>rd_ino = 0, rd_name = []\<rparr>)"
  by (auto simp: dir_ok_def kernel_consts)

lemma new_inode_ok:
  "node_ok N i (new_inode type devid p i)" "\<forall>d\<in>set (entries (new_inode type devid p i)). \<not> named d"
  using dir_ok_fresh
  by (auto simp: node_ok_def new_inode_def entries_def named_def split: rftype.splits rfmem.splits)

lemma ramfs_alloc_inode_eq:
  assumes "free_ino f s = Some i" and "inode_room f type s"
  defines "a \<equiv> hd (answers s)" and "p \<equiv> hd (tl (answers s))"
  shows "ramfs_alloc_inode f type devid s = (int i,
    s\<lparr>answers := (if is_dev type then tl (answers s) else tl (tl (answers s))),
      inodes := (inodes s)(a := new_inode type devid p i),
      ramfss := (ramfss s)(fs_i (fss s f) := (ramfss s (fs_i (fss s f)))[i := a])\<rparr>)"
proof -
  obtain as where as: "answers s = a # as" "is_dev type \<or> as = p # tl as" "a \<noteq> 0" "is_dev type \<or> p \<noteq> 0"
    using assms(2) by (cases "answers s"; cases "tl (answers s)") (auto simp: inode_room_def a_def p_def)
  then show ?thesis
    using assms(1)
    by (cases type) (auto simp: ramfs_alloc_inode_def free_ino_def alloc_def new_inode_def Let_def split: list.splits)
qed

lemma alloc_step:
  assumes st: "ramfs_st off f s" and i: "free_ino f s = Some i" and room: "inode_room f type s"
  defines "p \<equiv> hd (tl (answers s))"
  shows "\<exists>s'. ramfs_alloc_inode f type devid s = (int i, s') \<and> ramfs_st (off(i := 1)) f s' \<and> nodes f s i = None
     \<and> nodes f s' = (nodes f s)(i \<mapsto> new_inode type devid p i) \<and> refs f s' = refs f s \<and> refs f s i = 0
     \<and> answers s' = (if is_dev type then tl (answers s) else tl (tl (answers s)))
     \<and> vnode_inuse_list s' = vnode_inuse_list s \<and> vnodes s' = vnodes s \<and> fs_frame s s'"
proof -
  let ?rfs = "fs_i (fss s f)" and ?a = "hd (answers s)"
  define s' where "s' = s\<lparr>answers := (if is_dev type then tl (answers s) else tl (tl (answers s))),
      inodes := (inodes s)(?a := new_inode type devid p i),
      ramfss := (ramfss s)(?rfs := (ramfss s ?rfs)[i := ?a])\<rparr>"
  have tab: "length (ramfss s ?rfs) = RAMFS_MAX_FILES" using ramfs_stD(2) [OF st] by (simp add: table_ok_def)
  have i': "i < RAMFS_MAX_FILES" "inode_of f i s = 0"
    using i tab by (auto simp: free_ino_def find_idx_Some inode_of_def)
  have a: "?a \<noteq> 0" "?a \<notin> set (ramfss s ?rfs)" using room by (auto simp: inode_room_def)
  have io: "inode_of f k s' = (if k = i then ?a else inode_of f k s)" for k
    using i'(1) tab by (auto simp: s'_def inode_of_def)
  have ne: "inode_of f k s \<noteq> ?a" if "k < RAMFS_MAX_FILES" for k
    using a(2) that tab by (auto simp: inode_of_def in_set_conv_nth)
  have none: "nodes f s i = None" using i'(2) by (simp add: nodes_def inode_ok_def)
  have ino: "rf_ino (new_inode type devid p i) = i" by (simp add: new_inode_def)
  have len: "length (ramfss s' (fs_i (fss s' f))) = RAMFS_MAX_FILES" using tab by (simp add: s'_def)
  have tok: "table_ok f s'"
    using ramfs_stD(2) [OF st] len ne ino unfolding table_ok_def io by (auto simp: s'_def)
  have nd: "nodes f s' = (nodes f s)(i \<mapsto> new_inode type devid p i)"
  proof (rule ext)
    fix k
    show "nodes f s' k = ((nodes f s)(i \<mapsto> new_inode type devid p i)) k"
      using ne [of k] i'(1) a(1) table_ok_inode [OF tok, of k] table_ok_inode [OF ramfs_stD(2) [OF st], of k] io [of k]
      by (auto simp: nodes_def) (auto simp: s'_def)
  qed
  have rf: "refs f s' = refs f s" by (rule refs_cong) (simp_all add: s'_def)
  have ref0: "refs f s i = 0"
  proof -
    have "vn_vno (vnodes s vn) \<noteq> i" if "in_use vn s" for vn
      using vnode_node(1) [OF st that] none by auto
    then have "vnode_search f i s = None" by (auto simp: vnode_search_None)
    then show ?thesis by (simp add: refs_def)
  qed
  have "cache_ok f s'"
  proof -
    have "vnode_ok f w s'" if "in_use w s" for w
    proof -
      note w = vnode_okD [OF cache_ok_vnode [OF ramfs_stD(1) [OF st] that]]
      have wi: "vn_vno (vnodes s w) \<noteq> i" "vn_vno (vnodes s w) < RAMFS_MAX_FILES"
        using w(8) i'(2) tab by (auto simp: inode_ok_def)
      have "vn_shape f s' (vnodes s w)"
        using io [of "vn_vno (vnodes s w)"] wi ne [OF wi(2)] w(9,10) len tab
        by (intro vn_shape_links [OF w(3)]) (auto simp: s'_def)
      then show ?thesis using w(1,2,4) by (simp add: vnode_ok_def s'_def)
    qed
    then show ?thesis using ramfs_stD(1) [OF st] by (simp add: cache_ok_def s'_def)
  qed
  moreover have "lens_ok s'"
  proof -
    have "vn_i (vnodes s w) \<noteq> ?a" if "in_use w s" for w
      using vnode_node(1,2) [OF st that] table_ok_inode [OF ramfs_stD(2) [OF st]] ne by (auto simp: nodes_Some)
    then show ?thesis using ramfs_stD(3) [OF st] by (auto simp: lens_ok_def s'_def)
  qed
  moreover have "tree_ok (off(i := 1)) (nodes f s') (refs f s')"
    using tree_new [OF ramfs_stD(4) [OF st] none ref0 new_inode_ok] nd rf by (simp add: new_inode_def)
  ultimately have "ramfs_st (off(i := 1)) f s'" using tok by (simp add: ramfs_st_def)
  moreover have "ramfs_alloc_inode f type devid s = (int i, s')"
    using ramfs_alloc_inode_eq [OF i room] by (simp add: s'_def p_def)
  moreover have "fs_frame s s'" by (simp add: fs_frame_def s'_def)
  ultimately show ?thesis using none nd rf ref0 by (simp add: s'_def)
qed

end
