(* ===== verification/Ramfs_Ops.thy ===== *)
theory Ramfs_Ops
  imports Ramfs_Inv
begin

text \<open>
  The operations of the RAM file system keep its invariant, and do to the directories, the link
  counts and the vnode cache what their names promise.
\<close>

section \<open>Directories in use\<close>

abbreviation ino_of :: "nat \<Rightarrow> kstate \<Rightarrow> nat" where
  "ino_of vn s \<equiv> vn_vno (vnodes s vn)"

definition is_dot :: "string \<Rightarrow> bool" where
  "is_dot n \<longleftrightarrow> n = ''.'' \<or> n = ''..''"

text \<open>A directory is live while it has a name; only then may names be added to it.\<close>

definition dir_live :: "nat \<Rightarrow> nat \<Rightarrow> kstate \<Rightarrow> bool" where
  "dir_live f dir s \<longleftrightarrow> ino_of dir s = 0 \<or> names (nodes f s) (ino_of dir s) \<noteq> 0"

lemma dir_node:
  assumes "ramfs_st off f s" and "in_use dir s" and "dirents dir s = Some es"
  obtains n p where "nodes f s (ino_of dir s) = Some n" "rf_mem n = DirPage p es" "rf_mode n = RAMFS_TYPE_DIR"
    "dir_ok es" "entries n = es" "vn_i (vnodes s dir) = inode_of f (ino_of dir s) s" "n = inodes s (vn_i (vnodes s dir))"
    "\<And>d. d \<in> set es \<Longrightarrow> named d \<Longrightarrow> nodes f s (rd_ino d) \<noteq> None"
    "\<And>d. d \<in> set es \<Longrightarrow> rd_name d = ''.'' \<Longrightarrow> rd_ino d = ino_of dir s"
proof -
  let ?n = "inodes s (vn_i (vnodes s dir))"
  obtain p where p: "rf_mem ?n = DirPage p es" using assms(3) by (auto simp: dirents_def split: rfmem.splits)
  have n: "nodes f s (ino_of dir s) = Some ?n" using vnode_node(1) [OF assms(1,2)] .
  have ok: "node_ok (nodes f s) (ino_of dir s) ?n" using tree_okD(3) [OF ramfs_stD(4) [OF assms(1)] n] .
  have "rf_mode ?n = RAMFS_TYPE_DIR" using ok p by (auto simp: node_ok_def split: rftype.splits)
  with ok p n that show thesis
    using vnode_node(2) [OF assms(1,2)] by (auto simp: node_ok_def entries_def)
qed

lemma dirents_upd_inode:
  "dirents dir (upd_inode a g s) = (if vn_i (vnodes s dir) = a
     then (case rf_mem (g (inodes s a)) of DirPage _ es \<Rightarrow> Some es | _ \<Rightarrow> None) else dirents dir s)"
  by (simp add: dirents_def)

lemma dirents_linkcount [simp]: "dirents dir (upd_inode a (\<lambda>n. n\<lparr>rf_linkcount := h n\<rparr>) s) = dirents dir s"
  by (simp add: dirents_def)

lemma set_dirent_links [simp]: "rf_linkcount (set_dirent k d n) = rf_linkcount n"
  by (simp add: set_dirent_def split: rfmem.split)

section \<open>Steps\<close>

lemma linkcount_step:
  assumes st: "ramfs_st off f s" and n: "nodes f s k = Some n" and l: "refs f s k \<noteq> 0 \<longrightarrow> 0 < rf_linkcount n + d"
  defines "s' \<equiv> upd_inode (inode_of f k s) (\<lambda>n. n\<lparr>rf_linkcount := rf_linkcount n + d\<rparr>) s"
  shows "ramfs_st (off(k := off k + d)) f s'"
    and "nodes f s' = (nodes f s)(k \<mapsto> n\<lparr>rf_linkcount := rf_linkcount n + d\<rparr>)" and "fs_frame s s'"
proof -
  let ?g = "\<lambda>n. n\<lparr>rf_linkcount := rf_linkcount n + d\<rparr>"
  have tree: "tree_ok (off(k := off k + d)) ((nodes f s)(k \<mapsto> ?g n)) (refs f s)"
    using tree_relink [OF ramfs_stD(4) [OF st] n, of d "refs f s k"] by simp
  have gs: "rf_ino (?g n) = rf_ino n" "rf_mode (?g n) = rf_mode n"
    "rf_mode n = RAMFS_TYPE_DATA \<longrightarrow> rf_size (?g n) = rf_size n" "refs f s k \<noteq> 0 \<longrightarrow> 0 < rf_linkcount (?g n)"
    using l by simp_all
  show "ramfs_st (off(k := off k + d)) f s'" "nodes f s' = (nodes f s)(k \<mapsto> ?g n)" "fs_frame s s'"
    using ramfs_upd_inode [where g = ?g, OF st n gs tree] by (simp_all add: s'_def)
qed

lemma add_entry_step:
  assumes st: "ramfs_st off f s" and dir: "in_use dir s" "dirents dir s = Some es"
    and k: "free_slot es = Some k" and nm: "name_ok name" "\<not> is_dot name" "dir_abs es name = None"
    and ino: "nodes f s ino \<noteq> None" and live: "dir_live f dir s"
  defines "es' \<equiv> es[k := new_dirent ino name (length name)]"
    and "s' \<equiv> add_entry dir k (new_dirent ino name (length name)) s"
  shows "ramfs_st (off(ino := off ino - 1)) f s'" and "dirents dir s' = Some es'"
    and "dir_abs es' = (dir_abs es)(name \<mapsto> ino)" and "fs_frame s s'" and "dir_ok es'"
    and "\<And>j. nodes f s' j = (if j = ino_of dir s then map_option (\<lambda>n. (set_dirent k (new_dirent ino name (length name)) n)
          \<lparr>rf_size := rf_size n + DIRENT_SIZE\<rparr>) (nodes f s j) else nodes f s j)"
proof -
  obtain n p where n: "nodes f s (ino_of dir s) = Some n" "rf_mem n = DirPage p es" "rf_mode n = RAMFS_TYPE_DIR"
    "dir_ok es" "vn_i (vnodes s dir) = inode_of f (ino_of dir s) s" "n = inodes s (vn_i (vnodes s dir))"
    using dir_node [OF st dir] by metis
  let ?d = "new_dirent ino name (length name)"
  let ?g = "\<lambda>n. (set_dirent k ?d n)\<lparr>rf_size := rf_size n + DIRENT_SIZE\<rparr>"
  have g: "?g n = n\<lparr>rf_mem := DirPage p es', rf_size := rf_size n + DIRENT_SIZE\<rparr>"
    by (simp add: set_dirent_def n(2) es'_def)
  have k': "k < length es" "rd_name (es ! k) = []" using free_slot_Some [OF k] by auto
  show ok': "dir_ok es'" and "dir_abs es' = (dir_abs es)(name \<mapsto> ino)"
    unfolding es'_def using dir_insert_ok [OF n(4) nm(1,3) k] by auto
  have d: "?d = \<lparr>rd_ino = ino, rd_name = name\<rparr>" using new_dirent_ok [OF nm(1)] .
  have nmd: "named ?d" using nm(1,2) by (simp add: d named_def is_dot_def name_ok_def)
  have "tree_ok (\<lambda>i. off i - weight i ?d) ((nodes f s)(ino_of dir s \<mapsto> ?g n)) (refs f s)"
    unfolding g es'_def using k' ok' ino live nm(2) unfolding es'_def
    by (intro tree_set_entry ramfs_stD(4) [OF st] n(1,2)) (auto simp: d named_def is_dot_def dir_live_def)
  moreover have "(\<lambda>i. off i - weight i ?d) = off(ino := off ino - 1)"
    using nmd by (auto simp: weight_def d)
  ultimately have tree: "tree_ok (off(ino := off ino - 1)) ((nodes f s)(ino_of dir s \<mapsto> ?g n)) (refs f s)" by simp
  have s': "s' = upd_inode (inode_of f (ino_of dir s) s) ?g s" by (simp add: s'_def add_entry_def n(5))
  have lc: "0 < rf_linkcount n"
    using vnode_okD(10) [OF cache_ok_vnode [OF ramfs_stD(1) [OF st] dir(1)]] n(6) by simp
  have gs: "rf_ino (?g n) = rf_ino n" "rf_mode (?g n) = rf_mode n"
    "rf_mode n = RAMFS_TYPE_DATA \<longrightarrow> rf_size (?g n) = rf_size n" "refs f s (ino_of dir s) \<noteq> 0 \<longrightarrow> 0 < rf_linkcount (?g n)"
    unfolding g using n(3) lc by simp_all
  note r = ramfs_upd_inode [where g = ?g, OF st n(1) gs tree, folded s']
  show "ramfs_st (off(ino := off ino - 1)) f s'" "fs_frame s s'" using r(1,3) by auto
  show "dirents dir s' = Some es'" unfolding s' dirents_upd_inode using n(5,6) g by simp
  show "nodes f s' j = (if j = ino_of dir s then map_option ?g (nodes f s j) else nodes f s j)" for j
    using r(2) n(1) by simp
qed

section \<open>Looking up\<close>

lemma find_entry: "name \<noteq> [] \<Longrightarrow> map_option rd_ino (List.find (ent_match name (length name)) es) = dir_abs es name"
  by (simp add: dir_abs_def ent_match_full)

lemma lookup_missing:
  assumes "dirents dir s = Some es" and "name_ok name" and "dir_abs es name = None"
  shows "ramfs_lookup e dir name (length name) s = Some (- ENOENT, None, s)"
  using assms find_entry [of name es] by (simp add: ramfs_lookup_def name_ok_def)

lemma lookup_eq:
  assumes "dirents dir s = Some es" and "name_ok name" and "dir_abs es name = Some ino"
  shows "ramfs_lookup e dir name (length name) s
    = do { (vn, s1) \<leftarrow> vget e (vn_fs (vnodes s dir)) ino s; Some (0, Some vn, s1) }"
  using assms find_entry [of name es] by (auto simp: ramfs_lookup_def name_ok_def)

lemma dir_abs_named:
  assumes "ramfs_st off f s" and "in_use dir s" and "dirents dir s = Some es" and "dir_abs es name = Some ino"
    and "name \<noteq> ''..''"
  shows "\<exists>n. nodes f s ino = Some n"
proof -
  obtain n where n: "nodes f s (ino_of dir s) = Some n" "dir_ok es"
      "\<And>d. d \<in> set es \<Longrightarrow> named d \<Longrightarrow> nodes f s (rd_ino d) \<noteq> None"
      "\<And>d. d \<in> set es \<Longrightarrow> rd_name d = ''.'' \<Longrightarrow> rd_ino d = ino_of dir s"
    using dir_node [OF assms(1-3)] by metis
  obtain k where "k < length es" "rd_name (es ! k) = name" "rd_ino (es ! k) = ino" "name \<noteq> []"
    using assms(4) dir_abs_Some [OF n(2)] by auto
  then show ?thesis
    using n(1) n(3,4) [of "es ! k"] assms(5) by (cases "name = ''.''") (auto simp: named_def)
qed

lemma node_linkcount_nonneg:
  "ramfs_ok f s \<Longrightarrow> nodes f s k = Some n \<Longrightarrow> 0 \<le> rf_linkcount n"
  using tree_okD(4) [OF ramfs_stD(4), of "\<lambda>_. 0" f s k n] names_nonneg [of "nodes f s" k] by simp

section \<open>What keeps a directory\<close>

text \<open>\<open>dir_view\<close>: vnode \<open>dir\<close> is in use, its entries are \<open>es\<close>, its number is \<open>j\<close> and it has a name.\<close>

definition dir_view :: "nat \<Rightarrow> nat \<Rightarrow> nat \<Rightarrow> ramfs_dirent list \<Rightarrow> kstate \<Rightarrow> bool" where
  "dir_view f dir j es s \<longleftrightarrow> in_use dir s \<and> ino_of dir s = j \<and> dirents dir s = Some es \<and> dir_live f dir s"

lemma dir_viewI:
  assumes st: "ramfs_st off f s" and dir: "in_use dir s" "ino_of dir s = j"
    and n: "nodes f s j = Some n" "rf_mem n = DirPage p es" and live: "j = 0 \<or> names (nodes f s) j \<noteq> 0"
  shows "dir_view f dir j es s"
  using vnode_node(1) [OF st dir(1)] assms by (simp add: dir_view_def dirents_def dir_live_def)

lemma dir_viewD:
  assumes "ramfs_st off f s" and "dir_view f dir j es s"
  obtains n p where "nodes f s j = Some n" "rf_mem n = DirPage p es" "dir_ok es" "j = 0 \<or> names (nodes f s) j \<noteq> 0"
    "in_use dir s" "ino_of dir s = j" "dirents dir s = Some es" "dir_live f dir s" "vn_fs (vnodes s dir) = f"
proof -
  have v: "in_use dir s" "ino_of dir s = j" "dirents dir s = Some es" "dir_live f dir s"
    using assms(2) by (auto simp: dir_view_def)
  obtain n p where "nodes f s j = Some n" "rf_mem n = DirPage p es" "dir_ok es"
    using dir_node [OF assms(1) v(1,3)] v(2) by metis
  moreover have "vn_fs (vnodes s dir) = f" "j = 0 \<or> names (nodes f s) j \<noteq> 0"
    using vnode_node(4) [OF assms(1) v(1)] v(2,4) by (auto simp: dir_live_def)
  ultimately show thesis using that v by blast
qed

lemma names_links:
  assumes "finite (dom N)" and "N k = Some n"
  shows "names (N(k \<mapsto> n\<lparr>rf_linkcount := l\<rparr>)) = names N"
  using names_upd [OF assms] by (simp add: fun_eq_iff)

text \<open>Changing the link count of an inode keeps every directory in use.\<close>

lemma dir_view_links:
  assumes st: "ramfs_st off f s" "ramfs_st off' f s'" and v: "dir_view f dir j es s"
    and nd: "nodes f s k = Some n" "nodes f s' = (nodes f s)(k \<mapsto> n\<lparr>rf_linkcount := l\<rparr>)"
    and use: "in_use dir s'" "ino_of dir s' = ino_of dir s"
  shows "dir_view f dir j es s'"
proof -
  obtain m p where m: "nodes f s j = Some m" "rf_mem m = DirPage p es" "j = 0 \<or> names (nodes f s) j \<noteq> 0"
    "ino_of dir s = j" using dir_viewD [OF st(1) v] by metis
  have "names (nodes f s') = names (nodes f s)"
    using names_links [OF tree_okD(1) [OF ramfs_stD(4) [OF st(1)]] nd(1)] nd(2) by simp
  moreover have "\<exists>m'. nodes f s' j = Some m' \<and> rf_mem m' = DirPage p es" using nd m(1,2) by auto
  ultimately show ?thesis using dir_viewI [OF st(2) use(1), of j] use(2) m(3,4) by auto
qed

text \<open>So does allocating one.\<close>

lemma alloc_view:
  assumes ok: "ramfs_ok f s" and v: "dir_view f dir j es s" and room: "free_ino f s = Some i" "inode_room f type s"
  obtains s1 where "ramfs_alloc_inode f type devid s = (int i, s1)" "ramfs_st ((\<lambda>_. 0)(i := 1)) f s1"
    "dir_view f dir j es s1" "nodes f s i = None" "i \<noteq> j" "refs f s i = 0" "refs f s1 = refs f s"
    "nodes f s1 = (nodes f s)(i \<mapsto> new_inode type devid (hd (tl (answers s))) i)"
    "answers s1 = (if is_dev type then tl (answers s) else tl (tl (answers s)))"
    "vnode_inuse_list s1 = vnode_inuse_list s" "vnodes s1 = vnodes s" "fs_frame s s1"
proof -
  let ?n = "new_inode type devid (hd (tl (answers s))) i"
  obtain s1 where s1: "ramfs_alloc_inode f type devid s = (int i, s1)" "ramfs_st ((\<lambda>_. 0)(i := 1)) f s1"
      "nodes f s i = None" "nodes f s1 = (nodes f s)(i \<mapsto> ?n)" "refs f s1 = refs f s" "refs f s i = 0"
      "answers s1 = (if is_dev type then tl (answers s) else tl (tl (answers s)))"
      "vnode_inuse_list s1 = vnode_inuse_list s" "vnodes s1 = vnodes s" "fs_frame s s1"
    using alloc_step [OF ok room, of devid] by blast
  obtain m p where m: "nodes f s j = Some m" "rf_mem m = DirPage p es" "j = 0 \<or> names (nodes f s) j \<noteq> 0"
    "ino_of dir s = j" "in_use dir s" using dir_viewD [OF ok v] by metis
  have ne: "i \<noteq> j" using m(1) s1(3) by auto
  have "names (nodes f s1) j = names (nodes f s) j"
    using names_new [OF tree_okD(1) [OF ramfs_stD(4) [OF ok]] s1(3)] new_inode_ok(2) [of type devid _ i] cnt_zero s1(4)
    by simp
  then have "dir_view f dir j es s1"
    using dir_viewI [OF s1(2), of dir j m] m s1(4,8,9) ne by simp
  with that s1 ne show thesis by blast
qed

lemma vget_view:
  assumes st: "ramfs_st off f s" and n: "nodes f s ino = Some n" "0 \<le> rf_linkcount n" and mem: "vget_room f ino s"
  obtains vn s' where "vget e f ino s = Some (vn, s')" "ramfs_st off f s'" "vnode_search f ino s' = Some vn"
    "in_use vn s'" "ino_of vn s' = ino" "refs f s' = (refs f s)(ino := refs f s ino + 1)"
    "nodes f s' = (nodes f s)(ino \<mapsto> n\<lparr>rf_linkcount := rf_linkcount n + of_bool (refs f s ino = 0)\<rparr>)" "fs_frame s s'"
    "\<And>dir j es. dir_view f dir j es s \<Longrightarrow> dir_view f dir j es s'"
    "\<And>w. in_use w s \<Longrightarrow> in_use w s' \<and> ino_of w s' = ino_of w s"
proof -
  obtain vn s' where s': "vget e f ino s = Some (vn, s')" "ramfs_st off f s'" "vnode_search f ino s' = Some vn"
    "refs f s' = (refs f s)(ino := refs f s ino + 1)"
    "nodes f s' = (nodes f s)(ino \<mapsto> n\<lparr>rf_linkcount := rf_linkcount n + of_bool (refs f s ino = 0)\<rparr>)" "fs_frame s s'"
    "\<And>w. in_use w s \<Longrightarrow> in_use w s' \<and> ino_of w s' = ino_of w s"
    using vget_step [OF st n(1) mem n(2), of e] by blast
  moreover have "dir_view f dir j es s'" if v: "dir_view f dir j es s" for dir j es
    using v s'(7) [of dir] by (intro dir_view_links [OF st s'(2) v n(1) s'(5)]) (auto simp: dir_view_def)
  ultimately show thesis using that vnode_search_Some [OF s'(3)] by blast
qed

text \<open>Giving a vnode back keeps every other directory in use.\<close>

lemma vput_view:
  assumes st: "ramfs_st off f s" and vn: "in_use vn s" and off: "off (ino_of vn s) = 0"
    and n: "nodes f s (ino_of vn s) = Some n"
  obtains s' where "vput vn s = Some s'" "ramfs_st off f s'"
    "refs f s' = (refs f s)(ino_of vn s := refs f s (ino_of vn s) - 1)"
    "nodes f s' = (if refs f s (ino_of vn s) = 1 \<and> rf_linkcount n = 1 then (nodes f s)(ino_of vn s := None)
       else (nodes f s)(ino_of vn s \<mapsto> n\<lparr>rf_linkcount := rf_linkcount n - of_bool (refs f s (ino_of vn s) = 1)\<rparr>))"
    "fs_frame s s'" "answers s' = answers s"
    "\<And>dir j es. dir_view f dir j es s \<Longrightarrow> dir \<noteq> vn \<or> refs f s (ino_of vn s) \<noteq> 1 \<Longrightarrow> dir_view f dir j es s'"
    "\<And>w. in_use w s \<Longrightarrow> w \<noteq> vn \<or> refs f s (ino_of vn s) \<noteq> 1 \<Longrightarrow> in_use w s' \<and> ino_of w s' = ino_of w s"
proof -
  let ?i = "ino_of vn s"
  have ni: "inodes s (vn_i (vnodes s vn)) = n" using vnode_node(1) [OF st vn] n by simp
  obtain s' where s': "vput vn s = Some s'" "ramfs_st off f s'" "refs f s' = (refs f s)(?i := refs f s ?i - 1)"
    "nodes f s' = (if refs f s ?i = 1 \<and> rf_linkcount n = 1 then (nodes f s)(?i := None)
       else (nodes f s)(?i \<mapsto> n\<lparr>rf_linkcount := rf_linkcount n - of_bool (refs f s ?i = 1)\<rparr>))"
    "\<And>w. in_use w s \<Longrightarrow> w \<noteq> vn \<or> refs f s ?i \<noteq> 1 \<Longrightarrow> in_use w s' \<and> ino_of w s' = ino_of w s"
    "fs_frame s s'" "answers s' = answers s"
    using vput_step [OF st vn off] unfolding ni by blast
  have "dir_view f dir j es s'" if v: "dir_view f dir j es s" and d: "dir \<noteq> vn \<or> refs f s ?i \<noteq> 1" for dir j es
  proof (cases "refs f s ?i = 1 \<and> rf_linkcount n = 1")
    case True
    obtain m p where m: "nodes f s j = Some m" "rf_mem m = DirPage p es" "j = 0 \<or> names (nodes f s) j \<noteq> 0"
      "in_use dir s" "ino_of dir s = j" using dir_viewD [OF st v] by metis
    note u = s'(5) [OF m(4) d]
    have "j \<noteq> ?i" using vnode_node(1) [OF s'(2)] u m(5) s'(4) True by (metis fun_upd_same option.distinct(1))
    moreover have "names (nodes f s') j = names (nodes f s) j"
    proof -
      note tr = ramfs_stD(4) [OF st]
      have "names (nodes f s) ?i = 0 \<and> ?i \<noteq> 0"
        using tree_okD(4) [OF tr n] True off names_nonneg [of "nodes f s" ?i] by (cases "?i = 0") auto
      then have "cnt n j = 0" using tree_okD(5) [OF tr n] cnt_zero by blast
      then show ?thesis using names_del [OF tree_okD(1) [OF tr] n] s'(4) True by simp
    qed
    ultimately show ?thesis using dir_viewI [OF s'(2), of dir j m] u m s'(4) True by simp
  next
    case False
    then have "nodes f s' = (nodes f s)(?i \<mapsto> n\<lparr>rf_linkcount := rf_linkcount n - of_bool (refs f s ?i = 1)\<rparr>)"
      using s'(4) by (simp only: if_False)
    then show ?thesis
      using s'(5) d v by (intro dir_view_links [OF st s'(2) v n]) (auto simp: dir_view_def)
  qed
  with that s' show thesis by blast
qed

section \<open>Creating\<close>

lemma create_full:
  assumes "dirents dir s = Some es" and "name_ok name" and "dir_abs es name = None"
    and "free_slot es = None \<or> free_ino (vn_fs (vnodes s dir)) s = None"
  shows "ramfs_create e dir name (length name) s = Some (- ENOSPC, None, s)"
  using assms lookup_missing [OF assms(1-3)]
  by (cases "free_slot es") (auto simp: ramfs_create_def ramfs_alloc_inode_def free_ino_def Let_def)

lemma create_step:
  assumes ok: "ramfs_ok f s" and v: "dir_view f dir j es s"
    and nm: "name_ok name" "\<not> is_dot name" "dir_abs es name = None"
    and room: "free_slot es = Some k" "free_ino f s = Some i" "inode_room f RAMFS_TYPE_DATA s"
      "tl (tl (answers s)) \<noteq> []" "vnode_room (hd (tl (tl (answers s)))) s"
  shows "\<exists>vn s' es'. ramfs_create e dir name (length name) s = Some (0, Some vn, s') \<and> ramfs_ok f s'
     \<and> dirents dir s' = Some es' \<and> dir_abs es' = (dir_abs es)(name \<mapsto> i)
     \<and> vnode_search f i s' = Some vn \<and> refs f s' = (refs f s)(i := 1)
     \<and> nodes f s i = None \<and> (\<exists>n. nodes f s' i = Some n \<and> rf_mode n = RAMFS_TYPE_DATA \<and> rf_size n = 0) \<and> fs_frame s s'"
proof -
  define m where "m = new_inode RAMFS_TYPE_DATA 0 (hd (tl (answers s))) i"
  obtain s1 where s1: "ramfs_alloc_inode f RAMFS_TYPE_DATA 0 s = (int i, s1)" "ramfs_st ((\<lambda>_. 0)(i := 1)) f s1"
      "dir_view f dir j es s1" "nodes f s i = None" "i \<noteq> j" "refs f s i = 0" "refs f s1 = refs f s"
      "nodes f s1 = (nodes f s)(i \<mapsto> m)" "answers s1 = tl (tl (answers s))"
      "vnode_inuse_list s1 = vnode_inuse_list s" "vnodes s1 = vnodes s" "fs_frame s s1"
    by (rule alloc_view [OF ok v room(2,3), of 0]) (auto simp: m_def)
  have fs: "vn_fs (vnodes s dir) = f" and d: "dirents dir s = Some es" "dirents dir s1 = Some es"
    using dir_viewD [OF ok v] dir_viewD [OF s1(2,3)] by metis+
  have mem: "vget_room f i s1" using room(4,5) s1(9-11) by (simp add: vget_room_def vnode_room_def)
  obtain vn s2 where s2: "vget e f i s1 = Some (vn, s2)" "ramfs_st ((\<lambda>_. 0)(i := 1)) f s2"
      "vnode_search f i s2 = Some vn" "ino_of vn s2 = i" "refs f s2 = (refs f s)(i := 1)"
      "nodes f s2 i = Some (m\<lparr>rf_linkcount := 2\<rparr>)" "dir_view f dir j es s2" "fs_frame s1 s2"
    by (rule vget_view [OF s1(2) _ _ mem, of m e]) (use s1(3,6-8) in \<open>auto simp: m_def new_inode_def\<close>)
  have v2: "in_use dir s2" "ino_of dir s2 = j" "dirents dir s2 = Some es" "dir_live f dir s2"
    using s2(7) by (auto simp: dir_view_def)
  have i2: "nodes f s2 i \<noteq> None" using s2(6) by simp
  note a = add_entry_step [OF s2(2) v2(1,3) room(1) nm i2 v2(4)]
  let ?s = "add_entry dir k (new_dirent i name (length name)) s2"
  have "((\<lambda>_. 0)(i := 1))(i := ((\<lambda>_. 0)(i := 1)) i - 1) = (\<lambda>_. 0 :: int)" by auto
  then have "ramfs_ok f ?s" using a(1) by simp
  moreover have "refs f ?s = (refs f s)(i := 1)" using s2(5) by (simp add: add_entry_def)
  moreover have "vnode_search f i ?s = Some vn" using s2(3) by (simp add: add_entry_def vnode_search_def)
  moreover have "nodes f ?s i = nodes f s2 i" using a(6) s1(5) v2(2) by simp
  moreover have "ramfs_create e dir name (length name) s = Some (0, Some vn, ?s)"
    using lookup_missing [OF d(1) nm(1,3)] d room(1) s1(1,11) s2(1,4) fs by (simp add: ramfs_create_def)
  moreover have "fs_frame s ?s" using fs_frame_trans [OF fs_frame_trans [OF s1(12) s2(8)] a(4)] .
  ultimately show ?thesis using a(2,3) s1(4) s2(6) by (auto simp: m_def new_inode_def)
qed

lemma mknod_step:
  assumes ok: "ramfs_ok f s" and v: "dir_view f dir j es s"
    and nm: "name_ok name" "\<not> is_dot name" "dir_abs es name = None" and mode: "S_ISCHR mode \<or> S_ISBLK mode"
  defines "type \<equiv> if S_ISCHR mode then RAMFS_TYPE_CHR else RAMFS_TYPE_BLK"
  assumes room: "free_slot es = Some k" "free_ino f s = Some i" "inode_room f type s"
  shows "\<exists>s' es'. ramfs_mknod e dir name (length name) mode devid s = Some (0, s') \<and> ramfs_ok f s'
     \<and> dirents dir s' = Some es' \<and> dir_abs es' = (dir_abs es)(name \<mapsto> i) \<and> refs f s' = refs f s
     \<and> nodes f s i = None \<and> (\<exists>n. nodes f s' i = Some n \<and> rf_mode n = type \<and> rf_mem n = DevId devid) \<and> fs_frame s s'"
proof -
  obtain s1 where s1: "ramfs_alloc_inode f type devid s = (int i, s1)" "ramfs_st ((\<lambda>_. 0)(i := 1)) f s1"
      "dir_view f dir j es s1" "nodes f s i = None" "i \<noteq> j" "refs f s1 = refs f s"
      "nodes f s1 = (nodes f s)(i \<mapsto> new_inode type devid (hd (tl (answers s))) i)" "vnodes s1 = vnodes s" "fs_frame s s1"
    using alloc_view [OF ok v room(2,3), of devid] by metis
  have fs: "vn_fs (vnodes s dir) = f" and d: "dirents dir s = Some es" "dirents dir s1 = Some es"
    using dir_viewD [OF ok v] dir_viewD [OF s1(2,3)] by metis+
  have v1: "in_use dir s1" "ino_of dir s1 = j" "dir_live f dir s1" using s1(3) by (auto simp: dir_view_def)
  have i1: "nodes f s1 i \<noteq> None" using s1(7) by simp
  note a = add_entry_step [OF s1(2) v1(1) d(2) room(1) nm i1 v1(3)]
  let ?s = "add_entry dir k (new_dirent i name (length name)) s1"
  have "((\<lambda>_. 0)(i := 1))(i := ((\<lambda>_. 0)(i := 1)) i - 1) = (\<lambda>_. 0 :: int)" by auto
  then have "ramfs_ok f ?s" using a(1) by simp
  moreover have "refs f ?s = refs f s" using s1(6) by (simp add: add_entry_def)
  moreover have "nodes f ?s i = nodes f s1 i" using a(6) s1(5) v1(2) by simp
  moreover have "ramfs_mknod e dir name (length name) mode devid s = Some (0, ?s)"
    using lookup_missing [OF d(1) nm(1,3)] d room(1) s1(1,8) fs mode by (simp add: ramfs_mknod_def type_def)
  moreover have "fs_frame s ?s" using fs_frame_trans [OF s1(9) a(4)] .
  ultimately show ?thesis
    using a(2,3) s1(4,7) by (auto simp: new_inode_def type_def split: if_splits)
qed

text \<open>The two entries a new directory starts with.\<close>

definition dot_entries :: "nat \<Rightarrow> nat \<Rightarrow> ramfs_dirent list" where
  "dot_entries i j = (replicate RAMFS_MAX_DIRENT \<lparr>rd_ino = 0, rd_name = []\<rparr>)
     [0 := \<lparr>rd_ino = i, rd_name = ''.''\<rparr>, 1 := \<lparr>rd_ino = j, rd_name = ''..''\<rparr>]"

definition set_dots :: "nat \<Rightarrow> nat \<Rightarrow> ramfs_inode \<Rightarrow> ramfs_inode" where
  "set_dots i j n = (set_dirent 1 \<lparr>rd_ino = j, rd_name = ''..''\<rparr>
     (set_dirent 0 \<lparr>rd_ino = i, rd_name = ''.''\<rparr> n))\<lparr>rf_size := 2 * DIRENT_SIZE\<rparr>"

lemma dir_ok_dot: "dir_ok ((replicate RAMFS_MAX_DIRENT \<lparr>rd_ino = 0, rd_name = []\<rparr>)[0 := \<lparr>rd_ino = i, rd_name = ''.''\<rparr>])"
  by (rule dir_ok_upd [OF dir_ok_fresh]) (auto simp: kernel_consts)

lemma dot_entries_ok: "dir_ok (dot_entries i j)"
  unfolding dot_entries_def by (rule dir_ok_upd [OF dir_ok_dot]) (auto simp: kernel_consts nth_list_update)

lemma tree_dots:
  assumes tr: "tree_ok off N R" and n: "N i = Some n" "rf_mem n = DirPage p (replicate RAMFS_MAX_DIRENT \<lparr>rd_ino = 0, rd_name = []\<rparr>)"
  shows "tree_ok off (N(i \<mapsto> set_dots i j n)) R" and "rf_mem (set_dots i j n) = DirPage p (dot_entries i j)"
proof -
  let ?es = "replicate RAMFS_MAX_DIRENT \<lparr>rd_ino = 0, rd_name = []\<rparr>"
  let ?d0 = "\<lparr>rd_ino = i, rd_name = ''.''\<rparr>" and ?d1 = "\<lparr>rd_ino = j, rd_name = ''..''\<rparr>"
  let ?n0 = "n\<lparr>rf_mem := DirPage p (?es[0 := ?d0]), rf_size := 0\<rparr>"
  have t0: "tree_ok (\<lambda>q. off q - weight q ?d0) (N(i \<mapsto> ?n0)) R"
    by (intro tree_set_entry tr n dir_ok_dot) (auto simp: named_def kernel_consts)
  have w: "weight q ?d0 = 0" "weight q ?d1 = 0" for q by (simp_all add: weight_def named_def)
  have t0': "tree_ok off (N(i \<mapsto> ?n0)) R" using t0 unfolding w by simp
  have "tree_ok (\<lambda>q. off q - weight q ?d1) ((N(i \<mapsto> ?n0))(i \<mapsto> ?n0\<lparr>rf_mem := DirPage p (?es[0 := ?d0, 1 := ?d1]),
      rf_size := 2 * DIRENT_SIZE\<rparr>)) R"
    by (rule tree_set_entry [OF t0']) (use dot_entries_ok [of i j] in \<open>auto simp: dot_entries_def named_def kernel_consts nth_list_update\<close>)
  then show "tree_ok off (N(i \<mapsto> set_dots i j n)) R"
    unfolding w by (simp add: set_dots_def set_dirent_def n(2))
  show "rf_mem (set_dots i j n) = DirPage p (dot_entries i j)"
    by (simp add: set_dots_def set_dirent_def n(2) dot_entries_def)
qed

lemma mkdir_step:
  assumes ok: "ramfs_ok f s" and v: "dir_view f dir j es s"
    and nm: "name_ok name" "\<not> is_dot name" "dir_abs es name = None"
    and room: "free_slot es = Some k" "free_ino f s = Some i" "inode_room f RAMFS_TYPE_DIR s"
  shows "\<exists>s' es'. ramfs_mkdir e dir name (length name) s = Some (0, s') \<and> ramfs_ok f s'
     \<and> dirents dir s' = Some es' \<and> dir_abs es' = (dir_abs es)(name \<mapsto> i) \<and> refs f s' = refs f s
     \<and> nodes f s i = None \<and> (\<exists>n. nodes f s' i = Some n \<and> rf_mode n = RAMFS_TYPE_DIR \<and> rf_size n = 64
          \<and> entries n = dot_entries i j) \<and> fs_frame s s'"
proof -
  let ?m = "new_inode RAMFS_TYPE_DIR 0 (hd (tl (answers s))) i"
  obtain s1 where s1: "ramfs_alloc_inode f RAMFS_TYPE_DIR 0 s = (int i, s1)" "ramfs_st ((\<lambda>_. 0)(i := 1)) f s1"
      "dir_view f dir j es s1" "nodes f s i = None" "i \<noteq> j" "refs f s1 = refs f s"
      "nodes f s1 = (nodes f s)(i \<mapsto> ?m)" "vnodes s1 = vnodes s" "fs_frame s s1" "refs f s i = 0"
    using alloc_view [OF ok v room(2,3), of 0] by metis
  have fs: "vn_fs (vnodes s dir) = f" and d: "dirents dir s = Some es" "dirents dir s1 = Some es"
    using dir_viewD [OF ok v] dir_viewD [OF s1(2,3)] by metis+
  have v1: "in_use dir s1" "ino_of dir s1 = j" "dir_live f dir s1" using s1(3) by (auto simp: dir_view_def)
  have i1: "nodes f s1 i \<noteq> None" using s1(7) by simp
  note a = add_entry_step [OF s1(2) v1(1) d(2) room(1) nm i1 v1(3)]
  let ?s2 = "add_entry dir k (new_dirent i name (length name)) s1"
  have "((\<lambda>_. 0)(i := 1))(i := ((\<lambda>_. 0)(i := 1)) i - 1) = (\<lambda>_. 0 :: int)" by auto
  then have ok2: "ramfs_ok f ?s2" using a(1) by simp
  have n2: "nodes f ?s2 i = Some ?m" using a(6) s1(5,7) v1(2) by simp
  have mem: "rf_mem ?m = DirPage (hd (tl (answers s))) (replicate RAMFS_MAX_DIRENT \<lparr>rd_ino = 0, rd_name = []\<rparr>)"
    by (simp add: new_inode_def)
  note dots = tree_dots [OF ramfs_stD(4) [OF ok2] n2 mem, of j]
  have gs: "rf_ino (set_dots i j ?m) = rf_ino ?m" "rf_mode (set_dots i j ?m) = rf_mode ?m"
    "rf_mode ?m = RAMFS_TYPE_DATA \<longrightarrow> rf_size (set_dots i j ?m) = rf_size ?m"
    "refs f ?s2 i \<noteq> 0 \<longrightarrow> 0 < rf_linkcount (set_dots i j ?m)"
    by (simp_all add: set_dots_def set_dirent_def new_inode_def)
  let ?s = "upd_inode (inode_of f i ?s2) (set_dots i j) ?s2"
  note r = ramfs_upd_inode [where g = "set_dots i j", OF ok2 n2 gs dots(1)]
  have "vn_i (vnodes ?s2 dir) \<noteq> inode_of f i ?s2"
    using vnode_node(1,2) [OF s1(2) v1(1)] v1(2) s1(5) i1 inode_of_inj [of f j s1 i]
    by (auto simp: add_entry_def nodes_None nodes_Some)
  then have "dirents dir ?s = Some (es[k := new_dirent i name (length name)])"
    using a(2) by (simp add: dirents_upd_inode)
  moreover have "nodes f ?s i = Some (set_dots i j ?m)" using r(2) by simp
  moreover have "refs f ?s = refs f s" using s1(6) by (simp add: add_entry_def)
  moreover have "ramfs_mkdir e dir name (length name) s = Some (0, ?s)"
    using lookup_missing [OF d(1) nm(1,3)] d room(1) s1(1,8) fs v1(2)
    by (simp add: ramfs_mkdir_def Let_def inode_of_def add_entry_def set_dots_def [abs_def])
  moreover have "fs_frame s ?s" using fs_frame_trans [OF fs_frame_trans [OF s1(9) a(4)] r(3)] .
  moreover have "rf_mode (set_dots i j ?m) = RAMFS_TYPE_DIR" "rf_size (set_dots i j ?m) = 64"
    by (simp_all add: set_dots_def set_dirent_def new_inode_def kernel_consts)
  ultimately show ?thesis using r(1) a(3) s1(4) dots(2) by (auto simp: entries_def)
qed

section \<open>Linking\<close>

lemma link_op_step:
  assumes ok: "ramfs_ok f s" and v: "dir_view f dir j es s" and old: "in_use old s"
    and nm: "name_ok name" "\<not> is_dot name" "dir_abs es name = None" and room: "free_slot es = Some k"
  shows "\<exists>s' es'. ramfs_link e old dir name (length name) s = Some (0, s') \<and> ramfs_ok f s'
     \<and> dirents dir s' = Some es' \<and> dir_abs es' = (dir_abs es)(name \<mapsto> ino_of old s) \<and> refs f s' = refs f s
     \<and> (\<forall>q. map_option rf_linkcount (nodes f s' q)
            = map_option (\<lambda>n. rf_linkcount n + of_bool (q = ino_of old s)) (nodes f s q)) \<and> fs_frame s s'"
proof -
  let ?i = "ino_of old s"
  have v1: "in_use dir s" "ino_of dir s = j" "dirents dir s = Some es" "dir_live f dir s"
    using v by (auto simp: dir_view_def)
  have fs: "vn_fs (vnodes s old) = f" "vn_fs (vnodes s dir) = f" using vnode_node(4) [OF ok] old v1(1) by auto
  have i1: "nodes f s ?i \<noteq> None" using vnode_node(1) [OF ok old] by simp
  note a = add_entry_step [OF ok v1(1,3) room nm i1 v1(4)]
  let ?s1 = "add_entry dir k (new_dirent ?i name (length name)) s"
  obtain n where n: "nodes f ?s1 ?i = Some n" "0 < rf_linkcount n"
  proof -
    have u: "in_use old ?s1" "ino_of old ?s1 = ?i" using old by (simp_all add: add_entry_def)
    show thesis
      using that vnode_node(1) [OF a(1) u(1)] vnode_okD(10) [OF cache_ok_vnode [OF ramfs_stD(1) [OF a(1)] u(1)]] u(2)
      by simp
  qed
  have l: "refs f ?s1 ?i \<noteq> 0 \<longrightarrow> 0 < rf_linkcount n + 1" using n(2) by simp
  note b = linkcount_step [OF a(1) n(1) l]
  let ?s = "upd_inode (inode_of f ?i ?s1) (\<lambda>n. n\<lparr>rf_linkcount := rf_linkcount n + 1\<rparr>) ?s1"
  have "((\<lambda>_. 0)(?i := (\<lambda>_. 0) ?i - 1))(?i := ((\<lambda>_. 0)(?i := (\<lambda>_. 0) ?i - 1)) ?i + 1) = (\<lambda>_. 0 :: int)" by auto
  then have "ramfs_ok f ?s" using b(1) by simp
  moreover have "dirents dir ?s = Some (es[k := new_dirent ?i name (length name)])"
    using a(2) by simp
  moreover have "refs f ?s = refs f s" by (simp add: add_entry_def)
  moreover have "map_option rf_linkcount (nodes f ?s q) = map_option (\<lambda>n. rf_linkcount n + of_bool (q = ?i)) (nodes f s q)" for q
    using a(6) [of q] n(1) unfolding b(2) by (cases "nodes f s q") (auto split: if_splits)
  moreover have "ramfs_link e old dir name (length name) s = Some (0, ?s)"
    using lookup_missing [OF v1(3) nm(1,3)] v1(3) room fs vnode_node(2) [OF ok old]
    by (simp add: ramfs_link_def Let_def add_entry_def)
  moreover have "fs_frame s ?s" using fs_frame_trans [OF a(4) b(3)] .
  ultimately show ?thesis using a(3) by blast
qed

section \<open>Removing\<close>

lemma dir_abs_index:
  assumes "dir_ok es" and "dir_abs es name = Some ino"
  obtains k where "find_idx (ent_match name (length name)) es = Some k" "k < length es" "rd_name (es ! k) = name"
    "rd_ino (es ! k) = ino" "dir_delete name es = es[k := (es ! k)\<lparr>rd_name := []\<rparr>]"
proof (cases "find_idx (ent_match name (length name)) es")
  case None
  then show thesis using assms(2) dir_abs_Some [OF assms(1)] by (auto simp: find_idx_None ent_match_full)
next
  case (Some k)
  then have k: "k < length es" "rd_name (es ! k) = name" by (auto simp: find_idx_Some ent_match_full)
  have "name \<noteq> []" using assms(2) by (auto simp: dir_abs_def)
  then have "rd_ino (es ! k) = ino" using dir_abs_entry [OF assms(1) k] assms(2) by simp
  then show thesis using that Some k by (simp add: dir_delete_def)
qed

lemma remove_entry_step:
  assumes st: "ramfs_st off f s" and dir: "in_use dir s" "dirents dir s = Some es"
    and nm: "name_ok name" "\<not> is_dot name" "dir_abs es name = Some ino"
    and empty: "\<And>n d. nodes f s ino = Some n \<Longrightarrow> d \<in> set (entries n) \<Longrightarrow> \<not> named d"
  obtains s' where "remove_entry dir name (length name) s = Some s'" "ramfs_st (off(ino := off ino + 1)) f s'"
    "dirents dir s' = Some (dir_delete name es)" "fs_frame s s'" "refs f s' = refs f s"
    "vnode_inuse_list s' = vnode_inuse_list s" "vnodes s' = vnodes s" "ino \<noteq> ino_of dir s"
    "\<And>q. q \<noteq> ino_of dir s \<Longrightarrow> nodes f s' q = nodes f s q" "\<And>q. inode_of f q s' = inode_of f q s" "answers s' = answers s"
proof -
  obtain n p where n: "nodes f s (ino_of dir s) = Some n" "rf_mem n = DirPage p es" "rf_mode n = RAMFS_TYPE_DIR"
    "dir_ok es" "entries n = es" "vn_i (vnodes s dir) = inode_of f (ino_of dir s) s" "n = inodes s (vn_i (vnodes s dir))"
    using dir_node [OF st dir] by metis
  obtain k where k: "find_idx (ent_match name (length name)) es = Some k" "k < length es" "rd_name (es ! k) = name"
    "rd_ino (es ! k) = ino" "dir_delete name es = es[k := (es ! k)\<lparr>rd_name := []\<rparr>]"
    using dir_abs_index [OF n(4) nm(3)] .
  let ?d = "(es ! k)\<lparr>rd_name := []\<rparr>"
  let ?g = "\<lambda>i. (set_dirent k ?d i)\<lparr>rf_size := rf_size i - DIRENT_SIZE\<rparr>"
  let ?s = "upd_inode (inode_of f (ino_of dir s) s) ?g s"
  have g: "?g n = n\<lparr>rf_mem := DirPage p (es[k := ?d]), rf_size := rf_size n - DIRENT_SIZE\<rparr>"
    by (simp add: set_dirent_def n(2))
  have ok': "dir_ok (es[k := ?d])" using dir_delete_ok(1) [OF n(4), of name] nm(1) k(5) by (simp add: name_ok_def)
  have nmd: "named (es ! k)" using nm(1,2) by (simp add: k(3) named_def is_dot_def name_ok_def)
  have ne: "ino \<noteq> ino_of dir s" using empty [of n "es ! k"] n(1,5) nmd k(2) by auto
  have "tree_ok (\<lambda>i. off i + weight i (es ! k)) ((nodes f s)(ino_of dir s \<mapsto> ?g n)) (refs f s)"
    unfolding g using k(2,4) nmd ok' empty by (intro tree_clear_entry ramfs_stD(4) [OF st] n(1,2)) auto
  moreover have "(\<lambda>i. off i + weight i (es ! k)) = off(ino := off ino + 1)" using nmd k(4) by (auto simp: weight_def)
  ultimately have tree: "tree_ok (off(ino := off ino + 1)) ((nodes f s)(ino_of dir s \<mapsto> ?g n)) (refs f s)" by simp
  have lc: "0 < rf_linkcount n"
    using vnode_okD(10) [OF cache_ok_vnode [OF ramfs_stD(1) [OF st] dir(1)]] n(7) by simp
  have gs: "rf_ino (?g n) = rf_ino n" "rf_mode (?g n) = rf_mode n"
    "rf_mode n = RAMFS_TYPE_DATA \<longrightarrow> rf_size (?g n) = rf_size n" "refs f s (ino_of dir s) \<noteq> 0 \<longrightarrow> 0 < rf_linkcount (?g n)"
    unfolding g using n(3) lc by simp_all
  note r = ramfs_upd_inode [where g = ?g, OF st n(1) gs tree]
  have "remove_entry dir name (length name) s = Some ?s"
    using dir(2) k(1) n(6) by (simp add: remove_entry_def)
  moreover have "dirents dir ?s = Some (dir_delete name es)" unfolding dirents_upd_inode using n(6,7) g k(5) by simp
  moreover have "nodes f ?s q = nodes f s q" if "q \<noteq> ino_of dir s" for q using r(2) that by simp
  ultimately show thesis using that r(1,3) ne by simp
qed

text \<open>
  The end of \<^verbatim>\<open>ramfs_unlink\<close> and \<^verbatim>\<open>ramfs_rmdir\<close>, with the vnode of the named inode in use: the entry
  goes, the link count follows, and the vnode is given back.
\<close>

lemma remove_step:
  assumes ok: "ramfs_ok f s" and v: "dir_view f dir j es s" and vn: "in_use vn s"
    and nm: "name_ok name" "\<not> is_dot name" "dir_abs es name = Some (ino_of vn s)"
    and n: "nodes f s (ino_of vn s) = Some n" "\<And>d. d \<in> set (entries n) \<Longrightarrow> \<not> named d"
  obtains s1 s' where "remove_entry dir name (length name) s = Some s1" "vn_i (vnodes s1 vn) = vn_i (vnodes s vn)"
    "vput vn (upd_inode (vn_i (vnodes s vn)) (\<lambda>i. i\<lparr>rf_linkcount := rf_linkcount i - 1\<rparr>) s1) = Some s'"
    "ramfs_ok f s'" "dirents dir s' = Some (dir_delete name es)" "dir_abs (dir_delete name es) = (dir_abs es)(name := None)"
    "refs f s' = (refs f s)(ino_of vn s := refs f s (ino_of vn s) - 1)" "fs_frame s s'"
    "nodes f s' (ino_of vn s) = (if refs f s (ino_of vn s) = 1 \<and> rf_linkcount n = 2 then None
       else Some (n\<lparr>rf_linkcount := rf_linkcount n - 1 - of_bool (refs f s (ino_of vn s) = 1)\<rparr>))"
    "\<And>q. q \<noteq> ino_of vn s \<Longrightarrow> q \<noteq> j \<Longrightarrow> nodes f s' q = nodes f s q"
    "\<And>w. in_use w s \<Longrightarrow> w \<noteq> vn \<or> refs f s (ino_of vn s) \<noteq> 1 \<Longrightarrow> in_use w s' \<and> ino_of w s' = ino_of w s"
proof -
  let ?i = "ino_of vn s"
  have v0: "in_use dir s" "ino_of dir s = j" "dirents dir s = Some es" "dir_live f dir s"
    using v by (auto simp: dir_view_def)
  have des: "dir_ok es" using dir_viewD [OF ok v] by metis
  obtain s1 where s1: "remove_entry dir name (length name) s = Some s1" "ramfs_st ((\<lambda>_. 0)(?i := (\<lambda>_. 0) ?i + 1)) f s1"
    "dirents dir s1 = Some (dir_delete name es)" "fs_frame s s1" "refs f s1 = refs f s"
    "vnode_inuse_list s1 = vnode_inuse_list s" "vnodes s1 = vnodes s" "?i \<noteq> ino_of dir s"
    "\<And>q. q \<noteq> ino_of dir s \<Longrightarrow> nodes f s1 q = nodes f s q" "\<And>q. inode_of f q s1 = inode_of f q s"
    by (rule remove_entry_step [OF ok v0(1,3) nm]) (use n in auto)
  have n1: "nodes f s1 ?i = Some n" using s1(8,9) n(1) by simp
  have r0: "refs f s ?i \<noteq> 0" using vnode_node(3) [OF ok vn] .
  have l: "refs f s1 ?i \<noteq> 0 \<longrightarrow> 0 < rf_linkcount n + (-1)"
    using tree_okD(4) [OF ramfs_stD(4) [OF s1(2)] n1] names_nonneg [of "nodes f s1" ?i] s1(5) r0 by (cases "?i = 0") auto
  note b = linkcount_step [OF s1(2) n1 l]
  let ?s2 = "upd_inode (inode_of f ?i s1) (\<lambda>n. n\<lparr>rf_linkcount := rf_linkcount n + (-1)\<rparr>) s1"
  have "((\<lambda>_. 0)(?i := (\<lambda>_. 0) ?i + 1))(?i := ((\<lambda>_. 0)(?i := (\<lambda>_. 0) ?i + 1)) ?i + (-1)) = (\<lambda>_. 0 :: int)" by auto
  then have ok2: "ramfs_ok f ?s2" using b(1) by simp
  have u2: "in_use vn ?s2" "ino_of vn ?s2 = ?i" "in_use dir ?s2" "ino_of dir ?s2 = ino_of dir s"
    "dirents dir ?s2 = Some (dir_delete name es)" "refs f ?s2 = refs f s"
    using vn v0(1) s1(3,5-7) by simp_all
  have n2: "nodes f ?s2 (ino_of vn ?s2) = Some (n\<lparr>rf_linkcount := rf_linkcount n - 1\<rparr>)" using b(2) u2(2) by simp
  obtain s' where s': "vput vn ?s2 = Some s'" "ramfs_ok f s'" "refs f s' = (refs f s)(?i := refs f s ?i - 1)"
    "nodes f s' = (if refs f s ?i = 1 \<and> rf_linkcount n = 2 then (nodes f ?s2)(?i := None)
       else (nodes f ?s2)(?i \<mapsto> n\<lparr>rf_linkcount := rf_linkcount n - 1 - of_bool (refs f s ?i = 1)\<rparr>))"
    "fs_frame ?s2 s'" "\<And>w. in_use w ?s2 \<Longrightarrow> w \<noteq> vn \<or> refs f s ?i \<noteq> 1 \<Longrightarrow> in_use w s' \<and> ino_of w s' = ino_of w ?s2"
    by (rule vput_view [OF ok2 u2(1) _ n2]) (use u2(2,6) in auto)
  have dn: "dir \<noteq> vn" using s1(8) by auto
  have "dirents dir s' = Some (dir_delete name es)"
  proof -
    have "nodes f s' (ino_of dir s') = nodes f ?s2 (ino_of dir ?s2)" "in_use dir s'"
      using s'(4) s'(6) [OF u2(3)] dn u2(4) s1(8) by auto
    then show ?thesis using vnode_node(1) [OF s'(2), of dir] vnode_node(1) [OF ok2 u2(3)] u2(5)
      by (simp add: dirents_def)
  qed
  moreover have "vput vn (upd_inode (vn_i (vnodes s vn)) (\<lambda>i. i\<lparr>rf_linkcount := rf_linkcount i - 1\<rparr>) s1) = Some s'"
    using s'(1) vnode_node(2) [OF ok vn] s1(10) by simp
  moreover have "fs_frame s s'" using fs_frame_trans [OF fs_frame_trans [OF s1(4) b(3)] s'(5)] .
  moreover have "nodes f s' q = nodes f s q" if "q \<noteq> ?i" "q \<noteq> j" for q using s'(4) b(2) s1(9) that v0(2) by simp
  moreover have "in_use w s' \<and> ino_of w s' = ino_of w s" if "in_use w s" "w \<noteq> vn \<or> refs f s ?i \<noteq> 1" for w
    using s'(6) [of w] that s1(6,7) by simp
  ultimately show thesis
    using that s1(1,7) s'(2-4) dir_delete_ok(2) [OF des, of name] nm(1) by (simp add: name_ok_def)
qed

text \<open>Looking a name up, and then removing it and what it names.\<close>

lemma lookup_remove:
  assumes ok: "ramfs_ok f s" and v: "dir_view f dir j es s"
    and nm: "name_ok name" "\<not> is_dot name" "dir_abs es name = Some ino"
    and n: "nodes f s ino = Some n" "\<forall>d\<in>set (entries n). \<not> named d" and mem: "vget_room f ino s"
  obtains vn s1 s2 s' where "ramfs_lookup e dir name (length name) s = Some (0, Some vn, s1)"
    "S_ISDIR (vn_mode (vnodes s1 vn)) = (rf_mode n = RAMFS_TYPE_DIR)" "rf_mem (inodes s1 (vn_i (vnodes s1 vn))) = rf_mem n"
    "remove_entry dir name (length name) s1 = Some s2"
    "vput vn (upd_inode (vn_i (vnodes s2 vn)) (\<lambda>i. i\<lparr>rf_linkcount := rf_linkcount i - 1\<rparr>) s2) = Some s'"
    "ramfs_ok f s'" "dirents dir s' = Some (dir_delete name es)" "dir_abs (dir_delete name es) = (dir_abs es)(name := None)"
    "refs f s' = refs f s" "fs_frame s s'"
    "nodes f s' ino = (if refs f s ino = 0 \<and> rf_linkcount n = 1 then None
       else Some (n\<lparr>rf_linkcount := rf_linkcount n - 1\<rparr>))"
    "\<And>w. in_use w s \<Longrightarrow> in_use w s' \<and> ino_of w s' = ino_of w s"
proof -
  have l: "0 \<le> rf_linkcount n" using node_linkcount_nonneg [OF ok n(1)] .
  let ?n = "n\<lparr>rf_linkcount := rf_linkcount n + of_bool (refs f s ino = 0)\<rparr>"
  obtain vn s1 where s1: "vget e f ino s = Some (vn, s1)" "ramfs_ok f s1" "in_use vn s1" "ino_of vn s1 = ino"
    "refs f s1 = (refs f s)(ino := refs f s ino + 1)" "nodes f s1 = (nodes f s)(ino \<mapsto> ?n)" "fs_frame s s1"
    "dir_view f dir j es s1" "\<And>w. in_use w s \<Longrightarrow> in_use w s1 \<and> ino_of w s1 = ino_of w s"
    by (rule vget_view [OF ok n(1) l mem, of e]) (use v in blast)
  have n1: "nodes f s1 (ino_of vn s1) = Some ?n" using s1(4,6) by simp
  have i: "inodes s1 (vn_i (vnodes s1 vn)) = ?n" using vnode_node(1) [OF s1(2,3)] n1 by simp
  have kind: "S_ISDIR (vn_mode (vnodes s1 vn)) = (rf_mode n = RAMFS_TYPE_DIR)"
    using vn_shape_kind [OF vnode_okD(3) [OF cache_ok_vnode [OF ramfs_stD(1) [OF s1(2)] s1(3)]]] i
    by (auto simp: vn_kind_def mode_defs split: rftype.splits)
  have ab: "dir_abs es name = Some (ino_of vn s1)" using nm(3) s1(4) by simp
  obtain s2 s' where s2: "remove_entry dir name (length name) s1 = Some s2" "vn_i (vnodes s2 vn) = vn_i (vnodes s1 vn)"
    "vput vn (upd_inode (vn_i (vnodes s1 vn)) (\<lambda>i. i\<lparr>rf_linkcount := rf_linkcount i - 1\<rparr>) s2) = Some s'"
    "ramfs_ok f s'" "dirents dir s' = Some (dir_delete name es)" "dir_abs (dir_delete name es) = (dir_abs es)(name := None)"
    "refs f s' = (refs f s1)(ino := refs f s1 ino - 1)" "fs_frame s1 s'"
    "nodes f s' ino = (if refs f s1 ino = 1 \<and> rf_linkcount ?n = 2 then None
       else Some (?n\<lparr>rf_linkcount := rf_linkcount ?n - 1 - of_bool (refs f s1 ino = 1)\<rparr>))"
    "\<And>w. in_use w s1 \<Longrightarrow> w \<noteq> vn \<or> refs f s1 ino \<noteq> 1 \<Longrightarrow> in_use w s' \<and> ino_of w s' = ino_of w s1"
    by (rule remove_step [OF s1(2,8,3) nm(1,2) ab n1]) (use n(2) s1(4) in auto)
  have d: "dirents dir s = Some es" "vn_fs (vnodes s dir) = f" using dir_viewD [OF ok v] by metis+
  have "ramfs_lookup e dir name (length name) s = Some (0, Some vn, s1)"
    using lookup_eq [OF d(1) nm(1,3), of e] d(2) s1(1) by simp
  moreover have "refs f s' = refs f s" using s2(7) s1(5) by auto
  moreover have "nodes f s' ino = (if refs f s ino = 0 \<and> rf_linkcount n = 1 then None
          else Some (n\<lparr>rf_linkcount := rf_linkcount n - 1\<rparr>))"
    using s2(9) s1(5) by (auto split: if_splits)
  moreover have "in_use w s' \<and> ino_of w s' = ino_of w s" if w: "in_use w s" for w
    using s2(10) [of w] s1(9) [OF w] vnode_node(3) [OF ok w] s1(4,5) by fastforce
  ultimately show thesis
    using that s2(1-6) kind i fs_frame_trans [OF s1(7) s2(8)] by simp
qed

lemma unlink_step:
  assumes ok: "ramfs_ok f s" and v: "dir_view f dir j es s"
    and nm: "name_ok name" "\<not> is_dot name" "dir_abs es name = Some ino"
    and n: "nodes f s ino = Some n" "rf_mode n \<noteq> RAMFS_TYPE_DIR" and mem: "vget_room f ino s"
  shows "\<exists>s'. ramfs_unlink e dir name (length name) s = Some (0, s') \<and> ramfs_ok f s'
     \<and> dirents dir s' = Some (dir_delete name es) \<and> dir_abs (dir_delete name es) = (dir_abs es)(name := None)
     \<and> refs f s' = refs f s \<and> fs_frame s s'
     \<and> nodes f s' ino = (if refs f s ino = 0 \<and> rf_linkcount n = 1 then None
          else Some (n\<lparr>rf_linkcount := rf_linkcount n - 1\<rparr>))
     \<and> (\<forall>w. in_use w s \<longrightarrow> in_use w s' \<and> ino_of w s' = ino_of w s)"
proof -
  have e: "\<forall>d\<in>set (entries n). \<not> named d"
    using tree_okD(3) [OF ramfs_stD(4) [OF ok] n(1)] n(2)
    by (auto simp: node_ok_def entries_def split: rftype.splits rfmem.splits)
  show ?thesis
    by (rule lookup_remove [OF ok v nm n(1) e mem, of e]) (use n(2) in \<open>simp add: ramfs_unlink_def\<close>)
qed

lemma entry_names:
  assumes ok: "ramfs_ok f s" and v: "dir_view f dir j es s"
    and nm: "\<not> is_dot name" "dir_abs es name = Some ino" and n: "nodes f s ino = Some n"
  shows "0 < names (nodes f s) ino" and "0 < rf_linkcount n"
proof -
  obtain m p where m: "nodes f s j = Some m" "rf_mem m = DirPage p es" "dir_ok es" using dir_viewD [OF ok v] by metis
  obtain k where k: "k < length es" "rd_name (es ! k) = name" "rd_ino (es ! k) = ino" "name \<noteq> []"
    using nm(2) dir_abs_Some [OF m(3)] by auto
  have "0 < names (nodes f s) (rd_ino (es ! k))"
    using m(1,2) k nm(1) names_pos [OF tree_okD(1) [OF ramfs_stD(4) [OF ok]], of j m "es ! k"]
    by (auto simp: entries_def named_def is_dot_def)
  then show "0 < names (nodes f s) ino" using k(3) by simp
  then show "0 < rf_linkcount n"
    using tree_okD(4) [OF ramfs_stD(4) [OF ok] n] by (cases "ino = 0"; cases "refs f s ino = 0") auto
qed

text \<open>A vnode that is only looked at leaves no trace.\<close>

lemma vget_vput_same:
  assumes ok: "ramfs_ok f s" and n: "nodes f s ino = Some n" "0 < rf_linkcount n" and mem: "vget_room f ino s"
  obtains vn s1 s' where "vget e f ino s = Some (vn, s1)" "ramfs_ok f s1" "in_use vn s1" "ino_of vn s1 = ino"
    "vput vn s1 = Some s'" "ramfs_ok f s'" "nodes f s' = nodes f s" "refs f s' = refs f s" "fs_frame s s'"
    "rf_mode (inodes s1 (vn_i (vnodes s1 vn))) = rf_mode n" "rf_mem (inodes s1 (vn_i (vnodes s1 vn))) = rf_mem n"
proof -
  let ?n = "n\<lparr>rf_linkcount := rf_linkcount n + of_bool (refs f s ino = 0)\<rparr>"
  obtain vn s1 where s1: "vget e f ino s = Some (vn, s1)" "ramfs_ok f s1" "in_use vn s1" "ino_of vn s1 = ino"
    "refs f s1 = (refs f s)(ino := refs f s ino + 1)" "nodes f s1 = (nodes f s)(ino \<mapsto> ?n)" "fs_frame s s1"
    by (rule vget_view [OF ok n(1) _ mem, of e]) (use n(2) in auto)
  have n1: "nodes f s1 (ino_of vn s1) = Some ?n" using s1(4,6) by simp
  obtain s' where s': "vput vn s1 = Some s'" "ramfs_ok f s'"
    "refs f s' = (refs f s1)(ino := refs f s1 ino - 1)"
    "nodes f s' = (if refs f s1 ino = 1 \<and> rf_linkcount ?n = 1 then (nodes f s1)(ino := None)
       else (nodes f s1)(ino \<mapsto> ?n\<lparr>rf_linkcount := rf_linkcount ?n - of_bool (refs f s1 ino = 1)\<rparr>))" "fs_frame s1 s'"
    by (rule vput_view [OF s1(2,3) _ n1]) (use s1(4) in auto)
  have "nodes f s' = nodes f s" using s'(4) s1(5,6) n by (auto simp: fun_eq_iff)
  moreover have "refs f s' = refs f s" using s'(3) s1(5) by auto
  moreover have "inodes s1 (vn_i (vnodes s1 vn)) = ?n" using vnode_node(1) [OF s1(2,3)] n1 by simp
  ultimately show thesis using that s1(1-4) s'(1,2) fs_frame_trans [OF s1(7) s'(5)] by simp
qed

lemma rmdir_refused:
  assumes ok: "ramfs_ok f s" and v: "dir_view f dir j es s"
    and nm: "name_ok name" "\<not> is_dot name" "dir_abs es name = Some ino"
    and n: "nodes f s ino = Some n" and mem: "vget_room f ino s"
    and bad: "rf_mode n \<noteq> RAMFS_TYPE_DIR \<or> (\<exists>d\<in>set (entries n). named d)"
  shows "\<exists>s'. ramfs_rmdir e dir name (length name) s
      = Some (if rf_mode n = RAMFS_TYPE_DIR then - ENOTEMPTY else - ENOTDIR, s')
     \<and> ramfs_ok f s' \<and> nodes f s' = nodes f s \<and> refs f s' = refs f s \<and> fs_frame s s'"
proof -
  obtain vn s1 s' where s1: "vget e f ino s = Some (vn, s1)" "ramfs_ok f s1" "in_use vn s1"
    "vput vn s1 = Some s'" "ramfs_ok f s'" "nodes f s' = nodes f s" "refs f s' = refs f s" "fs_frame s s'"
    "rf_mode (inodes s1 (vn_i (vnodes s1 vn))) = rf_mode n" "rf_mem (inodes s1 (vn_i (vnodes s1 vn))) = rf_mem n"
    using vget_vput_same [OF ok n entry_names(2) [OF ok v nm(2,3) n] mem, of e] by metis
  have dir: "S_ISDIR (vn_mode (vnodes s1 vn)) \<longleftrightarrow> rf_mode n = RAMFS_TYPE_DIR"
    using vn_shape_kind [OF vnode_okD(3) [OF cache_ok_vnode [OF ramfs_stD(1) [OF s1(2)] s1(3)]]] s1(9)
    by (auto simp: vn_kind_def mode_defs split: rftype.splits)
  have d: "dirents dir s = Some es" "vn_fs (vnodes s dir) = f" using dir_viewD [OF ok v] by metis+
  have pre: "\<not> ent_match name (length name) \<lparr>rd_ino = 0, rd_name = ''.''\<rparr>"
    "\<not> ent_match name (length name) \<lparr>rd_ino = 0, rd_name = ''..''\<rparr>"
    using nm(2) by (auto simp: ent_match_full is_dot_def)
  show ?thesis
  proof (cases "rf_mode n = RAMFS_TYPE_DIR")
    case True
    then obtain p ds where ds: "rf_mem n = DirPage p ds"
      using tree_okD(3) [OF ramfs_stD(4) [OF ok] n] by (auto simp: node_ok_def split: rfmem.splits)
    have "dirents vn s1 = Some ds" using s1(10) ds by (simp add: dirents_def)
    moreover have "\<exists>d\<in>set ds. rd_name d \<noteq> ''.'' \<and> rd_name d \<noteq> ''..'' \<and> rd_name d \<noteq> []"
      using bad True ds by (auto simp: entries_def named_def)
    ultimately show ?thesis
      using lookup_eq [OF d(1) nm(1,3), of e] d(2) s1(1,4-8) dir True pre by (simp add: ramfs_rmdir_def)
  next
    case False
    then show ?thesis
      using lookup_eq [OF d(1) nm(1,3), of e] d(2) s1(1,4-8) dir pre by (simp add: ramfs_rmdir_def)
  qed
qed

lemma rmdir_step:
  assumes ok: "ramfs_ok f s" and v: "dir_view f dir j es s"
    and nm: "name_ok name" "\<not> is_dot name" "dir_abs es name = Some ino"
    and n: "nodes f s ino = Some n" "rf_mode n = RAMFS_TYPE_DIR" "\<forall>d\<in>set (entries n). \<not> named d"
    and mem: "vget_room f ino s"
  shows "\<exists>s'. ramfs_rmdir e dir name (length name) s = Some (0, s') \<and> ramfs_ok f s'
     \<and> dirents dir s' = Some (dir_delete name es) \<and> dir_abs (dir_delete name es) = (dir_abs es)(name := None)
     \<and> refs f s' = refs f s \<and> fs_frame s s'
     \<and> nodes f s' ino = (if refs f s ino = 0 \<and> rf_linkcount n = 1 then None
          else Some (n\<lparr>rf_linkcount := rf_linkcount n - 1\<rparr>))"
proof -
  obtain p ds where ds: "rf_mem n = DirPage p ds"
    using tree_okD(3) [OF ramfs_stD(4) [OF ok] n(1)] n(2) by (auto simp: node_ok_def split: rfmem.splits)
  have dots: "\<not> ent_match name (length name) \<lparr>rd_ino = 0, rd_name = ''.''\<rparr>"
    "\<not> ent_match name (length name) \<lparr>rd_ino = 0, rd_name = ''..''\<rparr>"
    using nm(2) by (auto simp: ent_match_full is_dot_def)
  have none: "(\<exists>d\<in>set ds. rd_name d \<noteq> ''.'' \<and> rd_name d \<noteq> ''..'' \<and> rd_name d \<noteq> []) = False"
    using n(3) ds by (auto simp: entries_def named_def)
  show ?thesis
    by (rule lookup_remove [OF ok v nm n(1,3) mem, of e])
       (use n(2) ds dots in \<open>simp add: ramfs_rmdir_def dirents_def none\<close>)
qed

end
