(* ===== verification/Ramfs_File.thy ===== *)
theory Ramfs_File
  imports Ramfs_Ops
begin

text \<open>
  Reading and writing files of the RAM file system, mounting it, and the invariant along every
  sequence of its operations.
\<close>

section \<open>Contents of files\<close>

text \<open>The bytes of a file: the first \<open>rf_size\<close> bytes of its page.\<close>

definition file_data :: "ramfs_inode \<Rightarrow> 8 word list" where
  "file_data n = (case rf_mem n of DataPage _ bs \<Rightarrow> take (nat (rf_size n)) bs | _ \<Rightarrow> [])"

text \<open>Writing \<open>xs\<close> at \<open>off\<close>: a gap is filled with what the page held there.\<close>

definition splice :: "nat \<Rightarrow> 'a list \<Rightarrow> 'a list \<Rightarrow> 'a list" where
  "splice off xs bs = take off bs @ xs @ drop (off + length xs) bs"

lemma splice_length: "off + length xs \<le> length bs \<Longrightarrow> length (splice off xs bs) = length bs"
  by (simp add: splice_def)

lemma splice_nth:
  "off + length xs \<le> length bs \<Longrightarrow> i < length bs \<Longrightarrow>
     splice off xs bs ! i = (if off \<le> i \<and> i < off + length xs then xs ! (i - off) else bs ! i)"
  by (auto simp: splice_def nth_append min_def)

lemma splice_read: "off + length xs \<le> length bs \<Longrightarrow> take (length xs) (drop off (splice off xs bs)) = xs"
  by (simp add: splice_def)

lemma tree_data:
  assumes tr: "tree_ok off N R" and n: "N k = Some n" "rf_mode n = RAMFS_TYPE_DATA"
    and d: "length bs = PAGE_SIZE" "0 \<le> z" "z \<le> int PAGE_SIZE"
  shows "tree_ok off (N(k \<mapsto> n\<lparr>rf_mem := DataPage p bs, rf_size := z\<rparr>)) R"
proof -
  let ?n = "n\<lparr>rf_mem := DataPage p bs, rf_size := z\<rparr>"
  note t = tree_okD [OF tr]
  have e: "entries n = []" "entries ?n = []"
    using t(3) [OF n(1)] n(2) by (auto simp: node_ok_def entries_def split: rfmem.splits)
  have nm: "names (N(k \<mapsto> ?n)) i = names N i" for i using names_upd [OF t(1) n(1)] e by (simp add: cnt_def)
  have dm: "dom (N(k \<mapsto> ?n)) = dom N" using n(1) by auto
  have nd: "node_ok (N(k \<mapsto> ?n)) i m = node_ok N i m" for i m using node_ok_mono [of _ i m] dm by blast
  have "node_ok N k ?n" using n(2) d by (simp add: node_ok_def)
  then show ?thesis
    unfolding tree_ok_def nm nd dm using t(1-5) t(4) [OF n(1)] e by (auto split: if_splits)
qed

text \<open>The file a vnode stands for.\<close>

definition file_view :: "nat \<Rightarrow> nat \<Rightarrow> nat \<Rightarrow> ramfs_inode \<Rightarrow> nat \<Rightarrow> 8 word list \<Rightarrow> kstate \<Rightarrow> bool" where
  "file_view f vn ino n p bs s \<longleftrightarrow> in_use vn s \<and> ino_of vn s = ino \<and> nodes f s ino = Some n
     \<and> rf_mode n = RAMFS_TYPE_DATA \<and> rf_mem n = DataPage p bs"

lemma file_viewD:
  assumes ok: "ramfs_ok f s" and v: "file_view f vn ino n p bs s"
  shows "inodes s (vn_i (vnodes s vn)) = n" "length bs = PAGE_SIZE" "0 \<le> rf_size n" "rf_size n \<le> int PAGE_SIZE"
    "vn_len (vnodes s vn) = rf_size n" "\<not> S_ISDIR (vn_mode (vnodes s vn))" "vn_i (vnodes s vn) = inode_of f ino s"
    "vn_ops (vnodes s vn) = RamfsFile"
proof -
  have u: "in_use vn s" "ino_of vn s = ino" "nodes f s ino = Some n" "rf_mode n = RAMFS_TYPE_DATA" "rf_mem n = DataPage p bs"
    using v by (auto simp: file_view_def)
  show i: "inodes s (vn_i (vnodes s vn)) = n" using vnode_node(1) [OF ok u(1)] u(2,3) by simp
  have k: "vn_mode (vnodes s vn) = S_IFREG" "vn_ops (vnodes s vn) = RamfsFile"
    using vn_shape_kind [OF vnode_okD(3) [OF cache_ok_vnode [OF ramfs_stD(1) [OF ok] u(1)]]] i u(4)
    by (simp_all add: vn_kind_def)
  then show "\<not> S_ISDIR (vn_mode (vnodes s vn))" "vn_ops (vnodes s vn) = RamfsFile" by (simp_all add: mode_defs)
  show "vn_len (vnodes s vn) = rf_size n" using ramfs_stD(3) [OF ok] u(1) k(2) i by (simp add: lens_ok_def)
  show "length bs = PAGE_SIZE" "0 \<le> rf_size n" "rf_size n \<le> int PAGE_SIZE"
    using tree_okD(3) [OF ramfs_stD(4) [OF ok] u(3)] u(4,5) by (auto simp: node_ok_def)
  show "vn_i (vnodes s vn) = inode_of f ino s" using vnode_node(2) [OF ok u(1)] u(2) by simp
qed

lemma cache_ok_len: "cache_ok f s \<Longrightarrow> cache_ok f (upd_vnode vn (\<lambda>v. v\<lparr>vn_len := z\<rparr>) s)"
proof -
  assume ok: "cache_ok f s"
  let ?s = "upd_vnode vn (\<lambda>v. v\<lparr>vn_len := z\<rparr>) s"
  have "vn_shape f s (v\<lparr>vn_len := z\<rparr>) = vn_shape f s v" for v by (simp add: vn_shape_def)
  then have "vnode_ok f w ?s" if "in_use w s" for w
    using cache_ok_vnode [OF ok that] by (auto simp: vnode_ok_def)
  moreover have "inj_on (\<lambda>w. ino_of w ?s) (set (vnode_inuse_list s)) = inj_on (\<lambda>w. ino_of w s) (set (vnode_inuse_list s))"
    by (rule inj_on_cong) simp
  ultimately show ?thesis using ok unfolding cache_ok_def by simp
qed

lemma refs_len: "refs f (upd_vnode vn (\<lambda>v. v\<lparr>vn_len := z\<rparr>) s) = refs f s"
proof (rule ext)
  fix i
  have "vnode_search f i (upd_vnode vn (\<lambda>v. v\<lparr>vn_len := z\<rparr>) s) = vnode_search f i s"
    by (rule vnode_search_cong) auto
  then show "refs f (upd_vnode vn (\<lambda>v. v\<lparr>vn_len := z\<rparr>) s) i = refs f s i"
    by (simp add: refs_def split: option.split)
qed

lemma write_step:
  assumes ok: "ramfs_ok f s" and v: "file_view f vn ino n p bs s"
    and arg: "0 \<le> off" "off \<le> int PAGE_SIZE" "count \<le> length buf" "int count < 2 ^ 31"
  defines "m \<equiv> min count (nat (int PAGE_SIZE - off))"
  defines "n' \<equiv> n\<lparr>rf_mem := DataPage p (splice (nat off) (take m buf) bs), rf_size := max (rf_size n) (off + int m)\<rparr>"
  shows "\<exists>s'. ramfs_write vn off buf count s = Some (int m, s') \<and> ramfs_ok f s'
     \<and> file_view f vn ino n' p (splice (nat off) (take m buf) bs) s' \<and> refs f s' = refs f s
     \<and> (\<forall>j. j \<noteq> ino \<longrightarrow> nodes f s' j = nodes f s j) \<and> fs_frame s s'"
proof -
  note d = file_viewD [OF ok v]
  have u: "in_use vn s" "ino_of vn s = ino" "nodes f s ino = Some n" "rf_mode n = RAMFS_TYPE_DATA" "rf_mem n = DataPage p bs"
    using v by (auto simp: file_view_def)
  have m: "min (wrap32 (int count)) (int PAGE_SIZE - off) = int m" "m \<le> length buf" "off + int m \<le> int PAGE_SIZE"
    using arg wrap32_id [of "int count"] by (auto simp: m_def)
  let ?bs = "splice (nat off) (take m buf) bs"
  let ?z = "max (rf_size n) (off + int m)"
  let ?g = "\<lambda>i. i\<lparr>rf_mem := DataPage p ?bs, rf_size := ?z\<rparr>"
  let ?s = "upd_inode (vn_i (vnodes s vn)) ?g (upd_vnode vn (\<lambda>v. v\<lparr>vn_len := ?z\<rparr>) s)"
  have fits: "nat off + length (take m buf) \<le> length bs" using m d(2) arg(1) by auto
  have len: "length ?bs = PAGE_SIZE" using splice_length [OF fits] d(2) by simp
  have sp: "take (nat off) bs @ take m buf @ drop (nat off + m) bs = ?bs" using m(2) by (simp add: splice_def min_def)
  have sp0: "m = 0 \<Longrightarrow> ?bs = bs" by (simp add: splice_def)
  have w: "ramfs_write vn off buf count s = Some (int m, ?s)"
    using d u(5) m arg(1) sp sp0 unfolding ramfs_write_def by (auto simp: Let_def)
  have nd: "nodes f ?s = (nodes f s)(ino \<mapsto> n')"
    using nodes_upd_inode [of f "upd_vnode vn (\<lambda>v. v\<lparr>vn_len := ?z\<rparr>) s" ino n ?g] u(3) d(7) by (simp add: n'_def)
  have rf: "refs f ?s = refs f s" by (simp add: refs_len)
  have tree: "tree_ok (\<lambda>_. 0) (nodes f ?s) (refs f ?s)"
    unfolding nd rf n'_def by (rule tree_data [OF ramfs_stD(4) [OF ok] u(3,4) len]) (use d(3,4) m(3) arg in auto)
  have use: "w = vn" if "in_use w s" "vn_i (vnodes s w) = vn_i (vnodes s vn)" for w
  proof -
    have "ino_of w s = ino_of vn s"
      using vnode_node(1,2) [OF ok that(1)] vnode_node(1,2) [OF ok u(1)] that(2) inode_of_inj
      by (metis nodes_Some)
    then show ?thesis using vnode_search_hit [OF ramfs_stD(1) [OF ok]] that(1) u(1) by (metis option.inject)
  qed
  have "0 < rf_linkcount n"
    using vnode_okD(10) [OF cache_ok_vnode [OF ramfs_stD(1) [OF ok] u(1)]] d(1) by simp
  then have "cache_ok f ?s"
    using d(1) by (intro cache_ok_upd_inode cache_ok_len ramfs_stD(1) [OF ok]) simp_all
  moreover have "table_ok f ?s" using ramfs_stD(2) [OF ok] by (auto simp: table_ok_def)
  moreover have "lens_ok ?s" using ramfs_stD(3) [OF ok] use by (auto simp: lens_ok_def)
  ultimately have "ramfs_ok f ?s" using tree by (simp add: ramfs_st_def)
  moreover have "file_view f vn ino n' p ?bs ?s" using u nd by (simp add: file_view_def n'_def)
  ultimately show ?thesis using w rf nd by (simp add: fs_frame_def)
qed

lemma read_step:
  assumes ok: "ramfs_ok f s" and v: "file_view f vn ino n p bs s" and arg: "0 \<le> off" "int count < 2 ^ 31"
  shows "ramfs_read vn off count s
    = Some (int (length (take count (drop (nat off) (file_data n)))), take count (drop (nat off) (file_data n)))"
proof -
  note d = file_viewD [OF ok v]
  have mem: "rf_mem n = DataPage p bs" using v by (simp add: file_view_def)
  have w: "wrap32 (int count) = int count" using arg(2) by (intro wrap32_id) simp_all
  let ?r = "nat (max 0 (min (int count) (rf_size n - off)))"
  have len: "length (take count (drop (nat off) (file_data n))) = ?r"
    using d(2-4) arg(1) by (auto simp: file_data_def mem)
  have "take count (drop (nat off) (take (nat (rf_size n)) bs)) = take ?r (drop (nat off) bs)"
  proof -
    have "?r = min count (nat (rf_size n) - nat off)" using arg(1) d(3) by auto
    then show ?thesis by (simp only: drop_take take_take)
  qed
  then have "take count (drop (nat off) (file_data n)) = take ?r (drop (nat off) bs)"
    by (simp add: file_data_def mem)
  moreover have "ramfs_read vn off count s = Some (int ?r, take ?r (drop (nat off) bs))"
    using d mem w arg(1) by (auto simp: ramfs_read_def Let_def)
  ultimately show ?thesis using len by simp
qed

section \<open>Mounting\<close>

lemma upd_fs_root:
  fixes s :: kstate and f r :: nat
  defines "s' \<equiv> upd_fs f (\<lambda>x. x\<lparr>fs_root := r\<rparr>) s"
  shows "ramfs_st off f s' = ramfs_st off f s" and "vnode_search g ino s' = vnode_search g ino s"
proof -
  have i: "inode_of f k s' = inode_of f k s" "inode_ok f k s' = inode_ok f k s" for k
    by (simp_all add: inode_of_def inode_ok_def s'_def upd_fs_def)
  have "refs f s' = refs f s" by (rule refs_cong) (simp_all add: s'_def upd_fs_def)
  moreover have nd: "nodes f s' = nodes f s" by (rule ext) (simp add: nodes_def i, simp add: s'_def upd_fs_def)
  moreover have "table_ok f s' = table_ok f s" "lens_ok s' = lens_ok s"
    by (simp_all add: table_ok_def lens_ok_def i) (simp_all add: s'_def upd_fs_def)
  moreover have "vn_shape f s' = vn_shape f s" by (rule ext) (simp add: vn_shape_def i, simp add: s'_def upd_fs_def)
  then have "cache_ok f s' = cache_ok f s" by (simp add: cache_ok_def vnode_ok_def) (simp add: s'_def upd_fs_def)
  ultimately show "ramfs_st off f s' = ramfs_st off f s" by (simp add: ramfs_st_def)
  show "vnode_search g ino s' = vnode_search g ino s" by (simp add: vnode_search_def s'_def upd_fs_def)
qed

text \<open>A file system that holds nothing but its root directory.\<close>

lemma root_only:
  assumes fs: "f \<noteq> 0" "fs_op (fss s f) = RamfsOps" and tab: "ramfss s (fs_i (fss s f)) = (replicate RAMFS_MAX_FILES 0)[0 := a]" "a \<noteq> 0"
    and n: "inodes s a = set_dots 0 0 (new_inode RAMFS_TYPE_DIR 0 p 0)"
    and none: "vnode_inuse_list s = []" and dev: "\<forall>d\<in>set (bytedevs s). dev_id s d \<noteq> 0"
  shows "ramfs_ok f s" and "nodes f s = [0 \<mapsto> set_dots 0 0 (new_inode RAMFS_TYPE_DIR 0 p 0)]" and "refs f s = (\<lambda>_. 0)"
proof -
  let ?n = "set_dots 0 0 (new_inode RAMFS_TYPE_DIR 0 p 0)"
  have io: "inode_of f k s = (if k = 0 then a else 0)" if "k < RAMFS_MAX_FILES" for k
    using that tab by (simp add: inode_of_def nth_list_update kernel_consts)
  have rn: "rf_ino ?n = 0" "rf_linkcount ?n = 1" "rf_mode ?n = RAMFS_TYPE_DIR"
    by (simp_all add: set_dots_def new_inode_def set_dirent_def)
  have tok: "table_ok f s" using tab io n rn(1) by (auto simp: table_ok_def split: if_splits)
  show nd: "nodes f s = [0 \<mapsto> ?n]"
  proof (rule ext)
    fix k
    show "nodes f s k = [0 \<mapsto> ?n] k"
      using table_ok_inode [OF tok, of k] io [of k] tab(2) n by (auto simp: nodes_def kernel_consts split: if_splits)
  qed
  show rf: "refs f s = (\<lambda>_. 0)" using none by (simp add: refs_def vnode_search_def fun_eq_iff)
  have es: "rf_mem ?n = DirPage p (dot_entries 0 0)"
    by (simp add: set_dots_def set_dirent_def new_inode_def dot_entries_def)
  have un: "\<not> named d \<and> rd_ino d = 0" if "d \<in> set (dot_entries 0 0)" for d
    using that by (auto simp: dot_entries_def in_set_conv_nth nth_list_update named_def kernel_consts split: if_splits)
  have "node_ok [0 \<mapsto> ?n] 0 ?n" using un rn es dot_entries_ok by (auto simp: node_ok_def)
  moreover have "cnt ?n 0 = 0" using un es by (auto simp: cnt_zero entries_def)
  ultimately have "tree_ok (\<lambda>_. 0) [0 \<mapsto> ?n] (\<lambda>_. 0)"
    using rn by (auto simp: tree_ok_def names_def split: if_splits)
  moreover have "cache_ok f s" using fs none dev by (simp add: cache_ok_def)
  ultimately show "ramfs_ok f s" using tok nd rf none by (simp add: ramfs_st_def lens_ok_def)
qed

lemma mount_step:
  assumes f: "f \<noteq> 0" and none: "vnode_inuse_list s = []" and dev: "\<forall>d\<in>set (bytedevs s). dev_id s d \<noteq> 0"
    and mem: "answers s = rfs # a # p # vn # as" "rfs \<noteq> 0" "a \<noteq> 0" "p \<noteq> 0" "vn \<noteq> 0"
  shows "\<exists>s'. ramfs_mount e f s = Some (0, s') \<and> ramfs_ok f s' \<and> fs_root (fss s' f) = vn
     \<and> vnode_search f 0 s' = Some vn \<and> refs f s' = (\<lambda>_. 0)(0 := 1)
     \<and> nodes f s' = [0 \<mapsto> (set_dots 0 0 (new_inode RAMFS_TYPE_DIR 0 p 0))\<lparr>rf_linkcount := 2\<rparr>]"
proof -
  define n where "n = set_dots 0 0 (new_inode RAMFS_TYPE_DIR 0 p 0)"
  define s2 where "s2 = upd_fs f (\<lambda>x. x\<lparr>fs_i := rfs, fs_op := RamfsOps\<rparr>)
    (s\<lparr>answers := a # p # vn # as, ramfss := (ramfss s)(rfs := replicate RAMFS_MAX_FILES 0)\<rparr>)"
  define s3 where "s3 = snd (ramfs_alloc_inode f RAMFS_TYPE_DIR 0 s2)"
  define s4 where "s4 = upd_inode a (set_dots 0 0) s3"
  define s5 where "s5 = s4\<lparr>ramfss := (ramfss s4)(rfs := (ramfss s4 rfs)[0 := a])\<rparr>"
  have al: "ramfs_alloc_inode f RAMFS_TYPE_DIR 0 s2 = (0, s3)"
    "s3 = s2\<lparr>answers := vn # as, inodes := (inodes s2)(a := new_inode RAMFS_TYPE_DIR 0 p 0),
       ramfss := (ramfss s2)(rfs := (ramfss s2 rfs)[0 := a])\<rparr>"
  proof -
    have "free_ino f s2 = Some 0" "inode_room f RAMFS_TYPE_DIR s2"
      using mem by (auto simp: s2_def upd_fs_def free_ino_def find_idx_Some kernel_consts inode_room_def)
    from ramfs_alloc_inode_eq [OF this, of 0] show "ramfs_alloc_inode f RAMFS_TYPE_DIR 0 s2 = (0, s3)"
      "s3 = s2\<lparr>answers := vn # as, inodes := (inodes s2)(a := new_inode RAMFS_TYPE_DIR 0 p 0),
       ramfss := (ramfss s2)(rfs := (ramfss s2 rfs)[0 := a])\<rparr>"
      by (simp_all add: s3_def) (simp_all add: s2_def upd_fs_def)
  qed
  have sel: "fss s5 f = (fss s f)\<lparr>fs_i := rfs, fs_op := RamfsOps\<rparr>" "ramfss s5 rfs = (replicate RAMFS_MAX_FILES 0)[0 := a]"
    "inodes s5 a = n" "vnode_inuse_list s5 = []" "bytedevs s5 = bytedevs s" "dev_id s5 = dev_id s" "answers s5 = vn # as"
    using none unfolding s5_def s4_def al(2) by (simp_all add: s2_def upd_fs_def n_def)
  note r = root_only [of f s5 a p]
  have ok: "ramfs_ok f s5" and nd: "nodes f s5 = [0 \<mapsto> n]" and rf: "refs f s5 = (\<lambda>_. 0)"
    using r f dev mem(3) sel by (simp_all add: n_def)
  have l: "rf_linkcount n = 1" by (simp add: n_def set_dots_def set_dirent_def new_inode_def)
  have room: "vget_room f 0 s5" using mem(5) sel by (simp add: vget_room_def vnode_room_def)
  obtain w s6 where s6: "vget e f 0 s5 = Some (w, s6)" "ramfs_ok f s6" "vnode_search f 0 s6 = Some w"
    "refs f s6 = (\<lambda>_. 0)(0 := 1)" "nodes f s6 = [0 \<mapsto> n\<lparr>rf_linkcount := 2\<rparr>]"
    by (rule vget_view [OF ok _ _ room, of n e]) (use nd rf l in auto)
  have w: "w = vn"
  proof -
    have "vnode_search f 0 s5 = None" using sel(4) by (simp add: vnode_search_def)
    moreover have "inode_ok f 0 s5" using nd by (metis nodes_Some map_upd_Some_unfold)
    ultimately show ?thesis using vget_miss [OF ramfs_stD(1) [OF ok] _ _ sel(7) mem(5), of 0 e] s6(1) by simp
  qed
  have "ramfs_mount e f s = Some (0, upd_fs f (\<lambda>x. x\<lparr>fs_root := w\<rparr>) s6)"
  proof -
    have root: "ramfss s3 rfs ! 0 = a" unfolding al(2) by (simp add: s2_def upd_fs_def kernel_consts)
    have "(ramfss s3)(rfs := (ramfss s3 rfs)[0 := a]) = ramfss s3"
      using list_update_id [of "ramfss s3 rfs" 0] unfolding root by simp
    then show ?thesis
      using mem(1,2) al(1) s6(1) root
      by (simp add: ramfs_mount_def alloc_def s2_def [symmetric] s4_def s5_def set_dots_def [abs_def])
  qed
  moreover have "refs f (upd_fs f (\<lambda>x. x\<lparr>fs_root := w\<rparr>) s6) = refs f s6"
    by (rule refs_cong) (simp_all add: upd_fs_def)
  moreover have "nodes f (upd_fs f (\<lambda>x. x\<lparr>fs_root := w\<rparr>) s6) = nodes f s6"
    by (rule ext) (simp add: nodes_def inode_ok_def inode_of_def upd_fs_def)
  ultimately show ?thesis
    using upd_fs_root [where f = f and r = w and s = s6] s6 w by (simp add: n_def) (simp add: upd_fs_def)
qed

section \<open>Sequences of operations\<close>

text \<open>
  One call into the file system, with what its callers check: a directory that still has a name, a
  name of valid length that is new or that exists, and memory for what has to be allocated.
\<close>

definition may_add :: "string \<Rightarrow> ramfs_dirent list \<Rightarrow> bool" where
  "may_add name es \<longleftrightarrow> name_ok name \<and> \<not> is_dot name \<and> dir_abs es name = None"

definition names_node :: "nat \<Rightarrow> string \<Rightarrow> ramfs_dirent list \<Rightarrow> nat \<Rightarrow> ramfs_inode \<Rightarrow> kstate \<Rightarrow> bool" where
  "names_node f name es ino n s \<longleftrightarrow> name_ok name \<and> \<not> is_dot name \<and> dir_abs es name = Some ino
     \<and> nodes f s ino = Some n \<and> vget_room f ino s"

definition no_room :: "nat \<Rightarrow> ramfs_dirent list \<Rightarrow> kstate \<Rightarrow> bool" where
  "no_room f es s \<longleftrightarrow> free_slot es = None \<or> free_ino f s = None"

definition file_room :: "nat \<Rightarrow> kstate \<Rightarrow> bool" where
  "file_room f s \<longleftrightarrow> inode_room f RAMFS_TYPE_DATA s \<and> tl (tl (answers s)) \<noteq> []
     \<and> vnode_room (hd (tl (tl (answers s)))) s"

inductive ramfs_step :: "env \<Rightarrow> nat \<Rightarrow> kstate \<Rightarrow> kstate \<Rightarrow> bool" for e f where
  step_get: "nodes f s ino = Some n \<Longrightarrow> vget_room f ino s \<Longrightarrow> vget e f ino s = Some (vn, s') \<Longrightarrow> ramfs_step e f s s'"
| step_put: "in_use vn s \<Longrightarrow> vput vn s = Some s' \<Longrightarrow> ramfs_step e f s s'"
| step_create: "dir_view f dir j es s \<Longrightarrow> may_add name es \<Longrightarrow> no_room f es s \<or> file_room f s \<Longrightarrow>
    ramfs_create e dir name (length name) s = Some (r, res, s') \<Longrightarrow> ramfs_step e f s s'"
| step_mknod: "dir_view f dir j es s \<Longrightarrow> may_add name es \<Longrightarrow> no_room f es s \<or> inode_room f RAMFS_TYPE_CHR s \<Longrightarrow>
    S_ISCHR mode \<or> S_ISBLK mode \<Longrightarrow>
    ramfs_mknod e dir name (length name) mode devid s = Some (r, s') \<Longrightarrow> ramfs_step e f s s'"
| step_mkdir: "dir_view f dir j es s \<Longrightarrow> may_add name es \<Longrightarrow> no_room f es s \<or> inode_room f RAMFS_TYPE_DIR s \<Longrightarrow>
    ramfs_mkdir e dir name (length name) s = Some (r, s') \<Longrightarrow> ramfs_step e f s s'"
| step_link: "dir_view f dir j es s \<Longrightarrow> may_add name es \<Longrightarrow> in_use old s \<Longrightarrow>
    ramfs_link e old dir name (length name) s = Some (r, s') \<Longrightarrow> ramfs_step e f s s'"
| step_unlink: "dir_view f dir j es s \<Longrightarrow> names_node f name es ino n s \<Longrightarrow> rf_mode n \<noteq> RAMFS_TYPE_DIR \<Longrightarrow>
    ramfs_unlink e dir name (length name) s = Some (r, s') \<Longrightarrow> ramfs_step e f s s'"
| step_rmdir: "dir_view f dir j es s \<Longrightarrow> names_node f name es ino n s \<Longrightarrow>
    ramfs_rmdir e dir name (length name) s = Some (r, s') \<Longrightarrow> ramfs_step e f s s'"
| step_write: "file_view f vn ino n p bs s \<Longrightarrow> 0 \<le> off \<Longrightarrow> off \<le> int PAGE_SIZE \<Longrightarrow> count \<le> length buf \<Longrightarrow>
    int count < 2 ^ 31 \<Longrightarrow> ramfs_write vn off buf count s = Some (r, s') \<Longrightarrow> ramfs_step e f s s'"

lemma add_full:
  assumes "ramfs_ok f s" and "dir_view f dir j es s" and "may_add name es" and "no_room f es s"
  shows "ramfs_create e dir name (length name) s = Some (- ENOSPC, None, s)"
    and "S_ISCHR mode \<or> S_ISBLK mode \<Longrightarrow> ramfs_mknod e dir name (length name) mode devid s = Some (- ENOSPC, s)"
    and "ramfs_mkdir e dir name (length name) s = Some (- ENOSPC, s)"
proof -
  have d: "dirents dir s = Some es" "vn_fs (vnodes s dir) = f" using dir_viewD [OF assms(1,2)] by metis+
  have l: "ramfs_lookup e dir name (length name) s = Some (- ENOENT, None, s)"
    using lookup_missing [OF d(1)] assms(3) by (simp add: may_add_def)
  have a: "free_ino f s = None \<Longrightarrow> ramfs_alloc_inode f type dev s = (- ENOSPC, s)" for type dev
    by (simp add: ramfs_alloc_inode_def free_ino_def Let_def)
  show "ramfs_create e dir name (length name) s = Some (- ENOSPC, None, s)"
    "ramfs_mkdir e dir name (length name) s = Some (- ENOSPC, s)"
    "S_ISCHR mode \<or> S_ISBLK mode \<Longrightarrow> ramfs_mknod e dir name (length name) mode devid s = Some (- ENOSPC, s)"
    using l d a assms(4)
    by (cases "free_slot es"; simp add: no_room_def ramfs_create_def ramfs_mkdir_def ramfs_mknod_def)+
qed

lemma link_full:
  assumes "ramfs_ok f s" and "dir_view f dir j es s" and "may_add name es" and "in_use old s" and "free_slot es = None"
  shows "ramfs_link e old dir name (length name) s = Some (- ENOSPC, s)"
proof -
  have d: "dirents dir s = Some es" "vn_fs (vnodes s dir) = f" using dir_viewD [OF assms(1,2)] by metis+
  then show ?thesis
    using lookup_missing [OF d(1)] assms(3,5) vnode_node(4) [OF assms(1,4)] by (simp add: may_add_def ramfs_link_def)
qed

lemma roomE:
  assumes "\<not> no_room f es s"
  obtains k i where "free_slot es = Some k" "free_ino f s = Some i"
  using assms by (auto simp: no_room_def)

lemma inode_room_dev: "inode_room f RAMFS_TYPE_CHR s \<Longrightarrow> inode_room f RAMFS_TYPE_BLK s"
  by (simp add: inode_room_def)

lemma ramfs_step_ok: "ramfs_step e f s s' \<Longrightarrow> ramfs_ok f s \<Longrightarrow> ramfs_ok f s'"
proof (induction rule: ramfs_step.induct)
  case (step_get s ino n vn s')
  then show ?case
    using vget_step [OF step_get.prems step_get.hyps(1,2) node_linkcount_nonneg [OF step_get.prems step_get.hyps(1)], of e] by auto
next
  case (step_put vn s s')
  then show ?case using vput_step [OF step_put.prems step_put.hyps(1)] by auto
next
  case (step_create dir j es s name r res s')
  show ?case
  proof (cases "no_room f es s")
    case True
    then show ?thesis using add_full(1) [OF step_create.prems step_create.hyps(1,2), of e] step_create.hyps(4) step_create.prems by simp
  next
    case False
    then obtain k i where "free_slot es = Some k" "free_ino f s = Some i" by (rule roomE)
    then show ?thesis using create_step [OF step_create.prems step_create.hyps(1), of name k i e] step_create.hyps False
      by (auto simp: may_add_def file_room_def)
  qed
next
  case (step_mknod dir j es s name mode devid r s')
  show ?case
  proof (cases "no_room f es s")
    case True
    then show ?thesis
      using add_full(2) [OF step_mknod.prems step_mknod.hyps(1,2) _ step_mknod.hyps(4), of e devid] step_mknod.hyps(5) step_mknod.prems by simp
  next
    case False
    then obtain k i where "free_slot es = Some k" "free_ino f s = Some i" by (rule roomE)
    then show ?thesis using mknod_step [OF step_mknod.prems step_mknod.hyps(1), of name mode k i e devid] step_mknod.hyps False inode_room_dev
      by (auto simp: may_add_def)
  qed
next
  case (step_mkdir dir j es s name r s')
  show ?case
  proof (cases "no_room f es s")
    case True
    then show ?thesis using add_full(3) [OF step_mkdir.prems step_mkdir.hyps(1,2), of e] step_mkdir.hyps(4) step_mkdir.prems by simp
  next
    case False
    then obtain k i where "free_slot es = Some k" "free_ino f s = Some i" by (rule roomE)
    then show ?thesis using mkdir_step [OF step_mkdir.prems step_mkdir.hyps(1), of name k i e] step_mkdir.hyps False
      by (auto simp: may_add_def)
  qed
next
  case (step_link dir j es s name old r s')
  then show ?case
    using link_op_step [OF step_link.prems step_link.hyps(1,3), of name _ e] link_full [OF step_link.prems step_link.hyps(1-3), of e]
    by (cases "free_slot es") (auto simp: may_add_def)
next
  case (step_unlink dir j es s name ino n r s')
  then show ?case using unlink_step [OF step_unlink.prems step_unlink.hyps(1), of name ino n e] by (auto simp: names_node_def)
next
  case (step_rmdir dir j es s name ino n r s')
  then show ?case
    using rmdir_step [OF step_rmdir.prems step_rmdir.hyps(1), of name ino n e]
      rmdir_refused [OF step_rmdir.prems step_rmdir.hyps(1), of name ino n e]
    by (cases "rf_mode n = RAMFS_TYPE_DIR \<and> (\<forall>d\<in>set (entries n). \<not> named d)") (auto simp: names_node_def)
next
  case (step_write vn ino n p bs s off count buf r s')
  then show ?case using write_step [OF step_write.prems step_write.hyps(1-5)] by auto
qed

section \<open>An example file system\<close>

lemma demo_dir_nth:
  "k < 128 \<Longrightarrow> demo_dir ! k = (if k = 0 then \<lparr>rd_ino = 0, rd_name = ''.''\<rparr> else if k = 1 then \<lparr>rd_ino = 0, rd_name = ''..''\<rparr>
     else if k = 2 then \<lparr>rd_ino = 1, rd_name = ''a''\<rparr> else \<lparr>rd_ino = 0, rd_name = []\<rparr>)"
  by (auto simp: demo_dir_def nth_append nth_Cons' split: if_splits)

lemma demo_dir_ok: "dir_ok demo_dir" "length demo_dir = 128"
proof -
  show l: "length demo_dir = 128" by (simp add: demo_dir_def)
  show "dir_ok demo_dir"
    unfolding dir_ok_def by (auto simp: l kernel_consts demo_dir_nth in_set_conv_nth split: if_splits)
qed

abbreviation demo_n0 :: ramfs_inode where
  "demo_n0 \<equiv> \<lparr>rf_size = 96, rf_ino = 0, rf_mem = DirPage 600 demo_dir, rf_mode = RAMFS_TYPE_DIR, rf_linkcount = 2\<rparr>"

abbreviation demo_n1 :: ramfs_inode where
  "demo_n1 \<equiv> \<lparr>rf_size = 2, rf_ino = 1, rf_mem = DataPage 700 (104 # 105 # replicate 4094 0),
     rf_mode = RAMFS_TYPE_DATA, rf_linkcount = 1\<rparr>"

lemma demo_refs: "refs 500 demo_fs = (\<lambda>_. 0)(0 := 2)"
  by (auto simp: refs_def vnode_search_def demo_fs_def demo_vnode_def)

lemma demo_tab: "k < 64 \<Longrightarrow> (510 # 520 # replicate 62 0) ! k = (if k = 0 then 510 else if k = 1 then 520 else (0 :: nat))"
  by (auto simp: nth_Cons')

lemma demo_table_ok: "table_ok 500 demo_fs"
  by (auto simp: table_ok_def inode_of_def demo_fs_def kernel_consts demo_tab split: if_splits)

lemma demo_nodes: "nodes 500 demo_fs = [0 \<mapsto> demo_n0, 1 \<mapsto> demo_n1]"
proof (rule ext)
  fix k
  show "nodes 500 demo_fs k = [0 \<mapsto> demo_n0, 1 \<mapsto> demo_n1] k"
    using table_ok_inode [OF demo_table_ok, of k]
    by (auto simp: nodes_def inode_of_def demo_fs_def kernel_consts demo_tab split: if_splits)
qed

lemma demo_cnt: "cnt demo_n0 i = of_bool (i = 1)" "cnt demo_n1 i = 0"
  by (simp_all add: cnt_def entries_def demo_dir_def weight_def named_def sum_list_replicate)

lemma demo_ok: "ramfs_ok 500 demo_fs"
proof -
  let ?N = "[0 \<mapsto> demo_n0, 1 \<mapsto> demo_n1] :: ninodes"
  have nm: "names ?N i = of_bool (i = 1)" for i
    using names_new [of "[0 \<mapsto> demo_n0]" 1 demo_n1 i] names_new [of Map.empty 0 demo_n0 i] demo_cnt
    by (simp add: names_def)
  have "node_ok ?N 0 demo_n0"
    using demo_dir_ok by (auto simp: node_ok_def in_set_conv_nth demo_dir_nth named_def split: if_splits)
  moreover have "node_ok ?N 1 demo_n1" by (simp add: node_ok_def kernel_consts)
  moreover have "entries demo_n1 = []" by (simp add: entries_def)
  ultimately have "tree_ok (\<lambda>_. 0) ?N ((\<lambda>_. 0)(0 := 2))"
    by (auto simp: tree_ok_def nm simp del: One_nat_def split: if_splits)
  moreover have "lens_ok demo_fs" by (simp add: lens_ok_def demo_fs_def demo_vnode_def)
  ultimately show ?thesis using demo_cache_ok demo_table_ok by (simp add: ramfs_st_def demo_nodes demo_refs)
qed

lemma demo_view: "dir_view 500 1000 0 demo_dir demo_fs"
  by (simp add: dir_view_def dir_live_def dirents_def demo_fs_def demo_vnode_def)

lemma find_replicate:
  "find_idx P (replicate n x) = (if 0 < n \<and> P x then Some 0 else None)"
  "List.find P (replicate n x) = (if 0 < n \<and> P x then Some x else None)"
  by (induction n) auto

lemma demo_room:
  "free_slot demo_dir = Some 3" "free_ino 500 demo_fs = Some 2" "file_room 500 demo_fs"
  "inode_room 500 RAMFS_TYPE_DIR demo_fs" "may_add ''b'' demo_dir" "names_node 500 ''a'' demo_dir 1 demo_n1 demo_fs"
proof -
  show "free_slot demo_dir = Some 3" by (simp add: free_slot_def demo_dir_def find_replicate)
  show "free_ino 500 demo_fs = Some 2" by (simp add: free_ino_def demo_fs_def find_replicate)
  show "file_room 500 demo_fs" "inode_room 500 RAMFS_TYPE_DIR demo_fs"
    by (simp_all add: file_room_def inode_room_def vnode_room_def vn_mutex_def demo_fs_def)
  have "dir_abs demo_dir ''b'' = None" "dir_abs demo_dir ''a'' = Some 1"
    by (simp_all add: dir_abs_def demo_dir_def find_replicate)
  moreover have "vget_room 500 1 demo_fs"
    by (simp add: vget_room_def vnode_room_def demo_refs) (simp add: demo_fs_def vn_mutex_def)
  ultimately show "may_add ''b'' demo_dir" "names_node 500 ''a'' demo_dir 1 demo_n1 demo_fs"
    by (simp_all add: may_add_def names_node_def name_ok_def is_dot_def demo_nodes kernel_consts)
qed

end
