(* ===== verification/Ramfs_Props.thy ===== *)
theory Ramfs_Props
  imports Ramfs_File
begin

text \<open>
  What the RAM file system promises its callers: the invariant along every sequence of calls, the
  effect of each directory operation on the names of the directory, and files that read as they
  were written.
\<close>

section \<open>The invariant\<close>

definition demo_boot :: kstate where
  "demo_boot = demo_fs\<lparr>answers := [501, 510, 600, 1000, 520, 700, 2000], vnode_inuse_list := []\<rparr>"

lemma ramfs_steps_ok: "(ramfs_step e f)\<^sup>*\<^sup>* s s' \<Longrightarrow> ramfs_ok f s \<Longrightarrow> ramfs_ok f s'"
  by (induction rule: rtranclp_induct) (auto intro: ramfs_step_ok)


lemma demo_boot_run:
  "\<exists>r s1 s2. ramfs_mount demo_env 500 demo_boot = Some (r, s1) \<and> ramfs_step demo_env 500 s1 s2 \<and> refs 500 s2 0 = 2"
proof -
  have m: "vnode_inuse_list demo_boot = []" "bytedevs demo_boot = []" "answers demo_boot = [501, 510, 600, 1000, 520, 700, 2000]"
    by (simp_all add: demo_boot_def demo_fs_def)
  from mount_step [of 500, OF _ m(1) _ m(3), of demo_env] m(2)
  obtain s1 where s1: "ramfs_mount demo_env 500 demo_boot = Some (0, s1)" "ramfs_ok 500 s1" "refs 500 s1 = (\<lambda>_. 0)(0 := 1)"
      "nodes 500 s1 0 \<noteq> None" by auto
  then obtain n where n: "nodes 500 s1 0 = Some n" by blast
  have r: "vget_room 500 0 s1" by (simp add: vget_room_def s1(3))
  from vget_step [OF s1(2) n r node_linkcount_nonneg [OF s1(2) n], of demo_env] s1(3)
  obtain vn s2 where "vget demo_env 500 0 s1 = Some (vn, s2)" "refs 500 s2 0 = 2" by auto
  then show ?thesis using s1(1) step_get [OF n r] by blast
qed


section \<open>Directory operations\<close>

text \<open>
  C22: \<^verbatim>\<open>ramfs_create\<close> in a directory that has a name, with a new name of valid length: it returns
  ENOSPC and changes nothing when the directory or the inode table is full.  Otherwise, given
  memory, it returns 0 and the vnode of a fresh empty file with one reference, the directory maps
  exactly the new name in addition, no other reference changes and the file system stays in order.
\<close>

theorem ramfs_create_adds:
  assumes "ramfs_ok f s" and "dir_view f dir j es s" and "may_add name es" and "no_room f es s \<or> file_room f s"
  shows "if no_room f es s then ramfs_create e dir name (length name) s = Some (- ENOSPC, None, s)
    else \<exists>i vn s' es' n. ramfs_create e dir name (length name) s = Some (0, Some vn, s') \<and> ramfs_ok f s'
      \<and> nodes f s i = None \<and> nodes f s' i = Some n \<and> rf_mode n = RAMFS_TYPE_DATA \<and> rf_size n = 0
      \<and> dirents dir s' = Some es' \<and> dir_abs es' = (dir_abs es)(name \<mapsto> i)
      \<and> vnode_search f i s' = Some vn \<and> refs f s' = (refs f s)(i := 1)"
proof (cases "no_room f es s")
  case True
  then show ?thesis using add_full(1) [OF assms(1-3)] by simp
next
  case False
  then obtain k i where "free_slot es = Some k" "free_ino f s = Some i" by (rule roomE)
  then show ?thesis
    using False assms(3,4) create_step [OF assms(1,2), of name k i e] unfolding may_add_def file_room_def by auto blast
qed

theorem ramfs_create_adds_witness:
  "\<exists>i vn s' es'. ramfs_create demo_env 1000 ''b'' 1 demo_fs = Some (0, Some vn, s')
     \<and> dirents 1000 s' = Some es' \<and> dir_abs es' ''b'' = Some i \<and> dir_abs es' ''a'' = Some 1"
proof -
  have "\<not> no_room 500 demo_dir demo_fs" using demo_room by (simp add: no_room_def)
  then show ?thesis
    using ramfs_create_adds [OF demo_ok demo_view demo_room(5), of demo_env] demo_room(3,6) by (auto simp: names_node_def)
qed

lemma dot_entries_used: "used_entries (dot_entries i j) = [(i, ''.''), (j, ''..'')]"
proof -
  have "dot_entries i j = \<lparr>rd_ino = i, rd_name = ''.''\<rparr> # \<lparr>rd_ino = j, rd_name = ''..''\<rparr> # replicate 126 \<lparr>rd_ino = 0, rd_name = []\<rparr>"
    by (auto simp: dot_entries_def kernel_consts nth_list_update nth_Cons' intro: nth_equalityI)
  then show ?thesis by (simp add: used_entries_def)
qed

lemma dir_view_isdir:
  assumes "ramfs_ok f s" and "dir_view f dir j es s"
  shows "S_ISDIR (vn_mode (vnodes s dir))"
proof -
  obtain n p where n: "nodes f s (ino_of dir s) = Some n" "rf_mode n = RAMFS_TYPE_DIR" "n = inodes s (vn_i (vnodes s dir))" "in_use dir s"
    using dir_node [OF assms(1)] assms(2) unfolding dir_view_def by metis
  then show ?thesis
    using vn_shape_kind [OF vnode_okD(3) [OF cache_ok_vnode [OF ramfs_stD(1) [OF assms(1)] n(4)]]]
    by (simp add: vn_kind_def mode_defs)
qed

text \<open>
  C23: \<^verbatim>\<open>ramfs_mkdir\<close> in a directory that has a name, with a new name: ENOSPC and no change when the
  directory or the inode table is full; otherwise, given memory, 0, the directory maps exactly the
  new name in addition, and the new inode is a directory of two entries, itself and its parent.
  Whatever the result, no vnode reference is kept.
\<close>

theorem ramfs_mkdir_adds:
  assumes "ramfs_ok f s" and "dir_view f dir j es s" and "may_add name es"
    and "no_room f es s \<or> inode_room f RAMFS_TYPE_DIR s"
  shows "if no_room f es s then ramfs_mkdir e dir name (length name) s = Some (- ENOSPC, s)
    else \<exists>i s' es' n. ramfs_mkdir e dir name (length name) s = Some (0, s') \<and> ramfs_ok f s'
      \<and> nodes f s i = None \<and> nodes f s' i = Some n \<and> rf_mode n = RAMFS_TYPE_DIR
      \<and> used_entries (entries n) = [(i, ''.''), (j, ''..'')]
      \<and> dirents dir s' = Some es' \<and> dir_abs es' = (dir_abs es)(name \<mapsto> i) \<and> refs f s' = refs f s"
proof (cases "no_room f es s")
  case True
  then show ?thesis using add_full(3) [OF assms(1-3)] by simp
next
  case False
  then obtain k i where "free_slot es = Some k" "free_ino f s = Some i" by (rule roomE)
  then show ?thesis
    using False assms(3,4) mkdir_step [OF assms(1,2), of name k i e] dot_entries_used unfolding may_add_def by auto metis
qed

theorem ramfs_mkdir_adds_witness:
  "\<exists>i s' es'. ramfs_mkdir demo_env 1000 ''b'' 1 demo_fs = Some (0, s')
     \<and> dirents 1000 s' = Some es' \<and> dir_abs es' ''b'' = Some i \<and> dir_abs es' ''a'' = Some 1"
proof -
  have "\<not> no_room 500 demo_dir demo_fs" using demo_room by (simp add: no_room_def)
  then show ?thesis
    using ramfs_mkdir_adds [OF demo_ok demo_view demo_room(5), of demo_env] demo_room(4,6) by (auto simp: names_node_def)
qed

text \<open>
  C24: \<^verbatim>\<open>ramfs_unlink\<close> of a name that leads to no directory returns 0, takes exactly that name out of
  the directory, and keeps every reference and the order of the file system.  The inode goes with its
  last name when nobody has it open, and otherwise loses one link.
\<close>

theorem ramfs_unlink_removes:
  assumes "ramfs_ok f s" and "dir_view f dir j es s" and "names_node f name es ino n s"
    and "rf_mode n \<noteq> RAMFS_TYPE_DIR"
  shows "\<exists>s' es'. ramfs_unlink e dir name (length name) s = Some (0, s') \<and> ramfs_ok f s'
     \<and> dirents dir s' = Some es' \<and> dir_abs es' = (dir_abs es)(name := None) \<and> refs f s' = refs f s
     \<and> nodes f s' ino = (if refs f s ino = 0 \<and> rf_linkcount n = 1 then None
          else Some (n\<lparr>rf_linkcount := rf_linkcount n - 1\<rparr>))"
  using unlink_step [OF assms(1,2), of name ino n e] assms(3,4) unfolding names_node_def by blast

theorem ramfs_unlink_removes_witness:
  "\<exists>s'. ramfs_unlink demo_env 1000 ''a'' 1 demo_fs = Some (0, s') \<and> nodes 500 s' 1 = None"
  using ramfs_unlink_removes [OF demo_ok demo_view demo_room(6), of demo_env] by (auto simp: demo_refs)

text \<open>
  C25: \<^verbatim>\<open>ramfs_rmdir\<close> refuses what is not a directory with ENOTDIR and a directory that has names left
  with ENOTEMPTY, leaving every inode and reference as it was; an empty directory loses its name,
  with result 0, and its inode goes with the last name when nobody has it open.
\<close>

theorem ramfs_rmdir_empty_only:
  assumes "ramfs_ok f s" and "dir_view f dir j es s" and "names_node f name es ino n s"
  shows "\<exists>r s'. ramfs_rmdir e dir name (length name) s = Some (r, s') \<and> ramfs_ok f s' \<and> refs f s' = refs f s
     \<and> (if rf_mode n \<noteq> RAMFS_TYPE_DIR then r = - ENOTDIR \<and> nodes f s' = nodes f s
        else if list_ex named (entries n) then r = - ENOTEMPTY \<and> nodes f s' = nodes f s
        else r = 0 \<and> (\<exists>es'. dirents dir s' = Some es' \<and> dir_abs es' = (dir_abs es)(name := None))
          \<and> nodes f s' ino = (if refs f s ino = 0 \<and> rf_linkcount n = 1 then None
               else Some (n\<lparr>rf_linkcount := rf_linkcount n - 1\<rparr>)))"
proof (cases "rf_mode n \<noteq> RAMFS_TYPE_DIR \<or> list_ex named (entries n)")
  case True
  then obtain s' where "ramfs_rmdir e dir name (length name) s
      = Some (if rf_mode n = RAMFS_TYPE_DIR then - ENOTEMPTY else - ENOTDIR, s')"
      "ramfs_ok f s'" "nodes f s' = nodes f s" "refs f s' = refs f s"
    using rmdir_refused [OF assms(1,2), of name ino n e] assms(3) unfolding names_node_def list_ex_iff by blast
  then show ?thesis using True by auto
next
  case False
  then have d: "rf_mode n = RAMFS_TYPE_DIR" "\<forall>d\<in>set (entries n). \<not> named d" by (auto simp: list_ex_iff)
  obtain s' where "ramfs_rmdir e dir name (length name) s = Some (0, s')" "ramfs_ok f s'" "refs f s' = refs f s"
      "dirents dir s' = Some (dir_delete name es)" "dir_abs (dir_delete name es) = (dir_abs es)(name := None)"
      "nodes f s' ino = (if refs f s ino = 0 \<and> rf_linkcount n = 1 then None
         else Some (n\<lparr>rf_linkcount := rf_linkcount n - 1\<rparr>))"
    using rmdir_step [OF assms(1,2) _ _ _ _ d, of name ino e] assms(3) unfolding names_node_def by blast
  then show ?thesis using False by auto
qed

theorem ramfs_rmdir_empty_only_witness:
  "\<exists>s'. ramfs_rmdir demo_env 1000 ''a'' 1 demo_fs = Some (- ENOTDIR, s') \<and> refs 500 s' 0 = 2"
  using ramfs_rmdir_empty_only [OF demo_ok demo_view demo_room(6), of demo_env] by (auto simp: demo_refs)

text \<open>
  C26: A directory can be listed.  Calling \<^verbatim>\<open>ramfs_readdir\<close> from offset 0, each time where the last call
  ended, gives every used entry once, in the order of the page, and then says that there is no more;
  129 calls are always enough.
\<close>

theorem ramfs_readdir_lists:
  assumes "ramfs_ok f s" and "dir_view f dir j es s" and "128 < n"
  shows "readdir_all n dir 0 s = Some (used_entries es)"
proof -
  have "dirents dir s = Some es" "S_ISDIR (vn_mode (vnodes s dir))" "dir_ok es"
    using dir_viewD [OF assms(1,2)] dir_view_isdir [OF assms(1,2)] by metis+
  then show ?thesis using readdir_all_from [of s dir es 0 n] assms(3) by (simp add: kernel_consts)
qed

theorem ramfs_readdir_lists_witness:
  "readdir_all 129 1000 0 demo_fs = Some [(0, ''.''), (0, ''..''), (1, ''a'')]"
  using ramfs_readdir_lists [OF demo_ok demo_view, of 129] by (simp add: used_entries_def demo_dir_def)

section \<open>Files\<close>

lemma read_range:
  assumes "ramfs_ok f s" and "file_view f vn ino n p bs s" and "0 \<le> off" and "int m < 2 ^ 31" and "off + int m \<le> rf_size n"
  shows "ramfs_read vn off m s = Some (int m, take m (drop (nat off) bs))"
proof -
  have "length bs = PAGE_SIZE" "rf_size n \<le> int PAGE_SIZE" "rf_mem n = DataPage p bs"
    using file_viewD [OF assms(1,2)] assms(2) by (auto simp: file_view_def)
  moreover have "nat off + m \<le> nat (rf_size n)" using assms(3,5) by linarith
  ultimately have "take m (drop (nat off) (file_data n)) = take m (drop (nat off) bs)" "nat off + m \<le> length bs"
    by (simp_all add: file_data_def take_drop add.commute min_absorb1)
  then show ?thesis using read_step [OF assms(1-4)] by simp
qed

text \<open>
  C12: What is written is read back.  A write at an offset within the page takes as many bytes as fit
  into the page and says so, makes the file at least that long, and keeps the order of the file
  system; reading the same range then gives the bytes written, and reading any other byte of the old
  file gives what it held.
\<close>

theorem ramfs_write_read:
  assumes "ramfs_ok f s" and "file_view f vn ino n p bs s"
    and "0 \<le> off" and "off \<le> int PAGE_SIZE" and "count \<le> length buf" and "int count < 2 ^ 31"
  defines "m \<equiv> min count (nat (int PAGE_SIZE - off))"
  shows "\<exists>s'. ramfs_write vn off buf count s = Some (int m, s') \<and> ramfs_ok f s'
     \<and> ramfs_read vn off m s' = Some (int m, take m buf)
     \<and> (\<forall>k. 0 \<le> k \<and> k < rf_size n \<and> (k < off \<or> off + int m \<le> k) \<longrightarrow> ramfs_read vn k 1 s' = ramfs_read vn k 1 s)"
proof -
  let ?bs = "splice (nat off) (take m buf) bs"
  let ?n = "n\<lparr>rf_mem := DataPage p ?bs, rf_size := max (rf_size n) (off + int m)\<rparr>"
  obtain s' where s': "ramfs_write vn off buf count s = Some (int m, s')" "ramfs_ok f s'" "file_view f vn ino ?n p ?bs s'"
    using write_step [OF assms(1-6)] by (auto simp: m_def)
  note v = file_viewD [OF assms(1,2)]
  have m: "nat off + length (take m buf) \<le> length bs" "m \<le> count" "length (take m buf) = m"
    using assms(3-5) v(2) by (auto simp: m_def)
  have r: "ramfs_read vn off m s' = Some (int m, take m buf)"
    using read_range [OF s'(2,3) assms(3), of m] m assms(6) splice_read [OF m(1)] by simp
  have "ramfs_read vn k 1 s' = ramfs_read vn k 1 s" if k: "0 \<le> k" "k < rf_size n" "k < off \<or> off + int m \<le> k" for k
  proof -
    have l: "nat k < length bs" using k v(2,4) by simp
    have "\<not> (nat off \<le> nat k \<and> nat k < nat off + m)" using k assms(3) by linarith
    then have "?bs ! nat k = bs ! nat k" using splice_nth [OF m(1) l] unfolding m(3) by auto
    then have "take 1 (drop (nat k) ?bs) = take 1 (drop (nat k) bs)"
      using l splice_length [OF m(1)] by (simp add: take_Suc_conv_app_nth hd_drop_conv_nth take_Suc)
    then show ?thesis
      using read_range [OF s'(2,3) k(1), of 1] read_range [OF assms(1,2) k(1), of 1] k by simp
  qed
  then show ?thesis using s' r by blast
qed

definition demo_open :: kstate where
  "demo_open = snd (the (vget demo_env 500 1 demo_fs))"

lemma demo_open_view:
  "ramfs_ok 500 demo_open" "fs_frame demo_fs demo_open" "\<exists>vn n p bs. file_view 500 vn 1 n p bs demo_open \<and> rf_size n = 2"
proof -
  have n: "nodes 500 demo_fs 1 = Some demo_n1" and r: "vget_room 500 1 demo_fs"
    using demo_room(6) by (auto simp: names_node_def)
  from vget_step [OF demo_ok n r, of demo_env]
  obtain vn s' where s': "vget demo_env 500 1 demo_fs = Some (vn, s')" "ramfs_ok 500 s'" "vnode_search 500 1 s' = Some vn"
     "refs 500 s' = (refs 500 demo_fs)(1 := 1)" "nodes 500 s' = (nodes 500 demo_fs)(1 \<mapsto> demo_n1\<lparr>rf_linkcount := 2\<rparr>)"
     "fs_frame demo_fs s'"
    by (auto simp: demo_refs)
  then show "ramfs_ok 500 demo_open" "fs_frame demo_fs demo_open" by (simp_all add: demo_open_def)
  have "in_use vn s'" "ino_of vn s' = 1" using vnode_search_Some [OF s'(3)] by auto
  then have "file_view 500 vn 1 (demo_n1\<lparr>rf_linkcount := 2\<rparr>) 700 (104 # 105 # replicate 4094 0) demo_open"
    using s' by (simp add: file_view_def demo_open_def)
  then show "\<exists>vn n p bs. file_view 500 vn 1 n p bs demo_open \<and> rf_size n = 2" by force
qed

theorem ramfs_write_read_witness:
  "\<exists>vn s'. ramfs_write vn 4094 [1, 2, 3, 4] 4 demo_open = Some (2, s') \<and> ramfs_read vn 4094 2 s' = Some (2, [1, 2])"
proof -
  obtain vn n p bs where v: "file_view 500 vn 1 n p bs demo_open" using demo_open_view(3) by blast
  from ramfs_write_read [OF demo_open_view(1) v, of 4094 4 "[1, 2, 3, 4]"]
  show ?thesis by (auto simp: kernel_consts)
qed

text \<open>
  C27: A write never leaves the page.  Past the end of the page \<^verbatim>\<open>ramfs_write\<close> has a negative length for
  the copy and does not return normally, whatever it is to write; and where it does return, the
  file is at most one page long.
\<close>

theorem ramfs_write_bounded:
  assumes "ramfs_ok f s" and "file_view f vn ino n p bs s" and "0 \<le> off" and "count \<le> length buf" and "int count < 2 ^ 31"
  shows "if int PAGE_SIZE < off then ramfs_write vn off buf count s = None
    else \<exists>r s'. ramfs_write vn off buf count s = Some (r, s') \<and> 0 \<le> r \<and> off + r \<le> int PAGE_SIZE
      \<and> vn_len (vnodes s' vn) = max (vn_len (vnodes s vn)) (off + r) \<and> vn_len (vnodes s' vn) \<le> int PAGE_SIZE"
proof (cases "int PAGE_SIZE < off")
  case True
  then show ?thesis using file_viewD(1) [OF assms(1,2)] by (auto simp: ramfs_write_def Let_def kassert_def split: rfmem.splits)
next
  case False
  let ?m = "min count (nat (int PAGE_SIZE - off))"
  obtain s' n' bs' where s': "ramfs_write vn off buf count s = Some (int ?m, s')" "ramfs_ok f s'"
      "file_view f vn ino n' p bs' s'" "rf_size n' = max (rf_size n) (off + int ?m)"
    using write_step [OF assms(1-3) _ assms(4,5)] False by force
  then show ?thesis using file_viewD(4,5) [OF s'(2,3)] file_viewD(5) [OF assms(1,2)] False by auto
qed

theorem ramfs_write_bounded_witness:
  "\<exists>vn. ramfs_write vn 4097 [1] 1 demo_open = None \<and> (\<exists>s'. ramfs_write vn 4096 [1] 1 demo_open = Some (0, s'))"
proof -
  obtain vn n p bs where v: "file_view 500 vn 1 n p bs demo_open" using demo_open_view(3) by blast
  from ramfs_write_bounded [OF demo_open_view(1) v, of 4097 1 "[1]"] ramfs_write_bounded [OF demo_open_view(1) v, of 4096 1 "[1]"]
  show ?thesis by (auto simp: kernel_consts)
qed

end
