(* ===== verification/Namev.thy ===== *)
theory Namev
  imports Ramfs_Props
begin

text \<open>
  Open files and path names: \<^verbatim>\<open>kernel/fs/file.c\<close>, \<^verbatim>\<open>kernel/fs/namev.c\<close> and \<^verbatim>\<open>kernel/fs/open.c\<close>.
  A path is the list of its characters.  A buffer that a path does not fit in, and a pointer used
  before it was set, are faults.  The call through a null operation of a vnode is a fault too.
\<close>

section \<open>Files\<close>

definition cur :: "kstate \<Rightarrow> proc" where "cur s = procs s (curproc s)"

definition set_fd :: "nat \<Rightarrow> nat \<Rightarrow> kstate \<Rightarrow> kstate" where
  "set_fd fd f s = upd_proc (curproc s) (\<lambda>p. p\<lparr>p_files := (p_files p)[fd := f]\<rparr>) s"

definition fref :: "nat \<Rightarrow> kstate \<Rightarrow> kstate option" where
  "fref f s = do {
     let x = files s f;
     kassert (f_mode x < 8);
     kassert (f_pos x \<ge> -1);
     kassert (f_refcount x \<ge> 0);
     kassert (f_refcount x \<noteq> 0 \<longrightarrow> f_vnode x \<noteq> 0);
     Some (upd_file f (\<lambda>x. x\<lparr>f_refcount := f_refcount x + 1\<rparr>) s)
   }"

definition fget :: "int \<Rightarrow> kstate \<Rightarrow> (nat \<times> kstate) option" where
  "fget fd s =
     (if fd = -1 then
        let (f, s1) = alloc s in
        if f = 0 then Some (0, s1)
        else do {
          s2 \<leftarrow> fref f (upd_file f (\<lambda>_. \<lparr>f_pos = 0, f_mode = 0, f_refcount = 0, f_vnode = 0\<rparr>) s1);
          Some (f, s2)
        }
      else if fd < 0 \<or> fd \<ge> int NFILES then Some (0, s)
      else
        let f = p_files (cur s) ! nat fd in
        if f = 0 then Some (0, s) else do { s1 \<leftarrow> fref f s; Some (f, s1) })"

definition fput :: "nat \<Rightarrow> kstate \<Rightarrow> kstate option" where
  "fput f s = do {
     kassert (f \<noteq> 0);
     let x = files s f;
     kassert (f_mode x < 8);
     kassert (f_pos x \<ge> -1);
     kassert (f_refcount x > 0);
     kassert (f_refcount x \<noteq> 1 \<longrightarrow> f_vnode x \<noteq> 0);
     let s1 = upd_file f (\<lambda>x. x\<lparr>f_refcount := f_refcount x - 1\<rparr>) s;
     if f_refcount (files s1 f) = 0 then do {
       s2 \<leftarrow> (if f_vnode (files s1 f) \<noteq> 0 then vput (f_vnode (files s1 f)) s1 else Some s1);
       Some (free_obj f s2)
     } else Some s1
   }"

section \<open>Looking up names\<close>

definition vop_lookup ::
  "env \<Rightarrow> nat \<Rightarrow> string \<Rightarrow> nat \<Rightarrow> kstate \<Rightarrow> (int \<times> nat option \<times> kstate) option" where
  "vop_lookup e dir name len s = do {
     kassert (vn_ops (vnodes s dir) = RamfsDir);
     ramfs_lookup e dir name len s
   }"

definition lookup ::
  "env \<Rightarrow> nat \<Rightarrow> string \<Rightarrow> nat \<Rightarrow> kstate \<Rightarrow> (int \<times> nat option \<times> kstate) option" where
  "lookup e dir name len s = do {
     v \<leftarrow> vnode_at dir s;
     if vn_mode v \<noteq> S_IFDIR then Some (- ENOTDIR, Some 0, s)
     else if name = ''.'' then vop_lookup e dir name (length name) s
     else if name = ''..'' then vop_lookup e dir name (length name) s
     else do {
       (retval, result, s1) \<leftarrow> vop_lookup e dir name len s;
       if retval = - ENOENT then Some (- ENOENT, Some 0, s1) else Some (retval, result, s1)
     }
   }"

abbreviation slash :: char where "slash \<equiv> CHR ''/''"

definition from_slash :: "string \<Rightarrow> string" where
  "from_slash p = dropWhile (\<lambda>c. c \<noteq> slash) p"

definition base_name :: "string \<Rightarrow> string" where
  "base_name p = rev (takeWhile (\<lambda>c. c \<noteq> slash) (rev p))"

text \<open>The loop that copies a path without the repetitions of its separators.\<close>

fun collapse :: "string \<Rightarrow> string" where
  "collapse [] = []"
| "collapse [c] = [c]"
| "collapse (c # d # cs) = (if c = slash \<and> d = slash then collapse (d # cs) else c # collapse (d # cs))"

fun split_slash :: "string \<Rightarrow> string list" where
  "split_slash [] = [[]]"
| "split_slash (c # cs) =
     (if c = slash then [] # split_slash cs
      else case split_slash cs of [] \<Rightarrow> [[c]] | w # ws \<Rightarrow> (c # w) # ws)"

text \<open>
  The loop of \<^verbatim>\<open>dir_namev\<close> over all components but the last.  The reference to a directory is
  given back before the directory is used.
\<close>

fun namev_walk ::
  "env \<Rightarrow> nat \<Rightarrow> string list \<Rightarrow> kstate \<Rightarrow> (int \<times> nat \<times> nat option \<times> kstate) option" where
  "namev_walk e cdir [] s = Some (0, cdir, None, s)"
| "namev_walk e cdir (c # cs) s =
     (if length c > NAME_LEN + 1 then None
      else if length c > NAME_LEN then Some (- ENAMETOOLONG, cdir, Some 0, s)
      else do {
        (err, res, s1) \<leftarrow> lookup e cdir c (length c) s;
        if err \<noteq> 0 then Some (err, cdir, res, s1)
        else do {
          v \<leftarrow> res;
          s2 \<leftarrow> vput v s1;
          namev_walk e v cs s2
        }
      })"

definition dir_namev ::
  "env \<Rightarrow> string \<Rightarrow> kstate \<Rightarrow> (int \<times> string \<times> nat option \<times> kstate) option" where
  "dir_namev e pathname s =
     (if length pathname > 1024 then Some (- ENAMETOOLONG, [], Some 0, s)
      else do {
        let final_path = (if pathname = [] \<or> hd pathname \<noteq> slash \<and> hd pathname \<noteq> CHR ''.''
                          then ''./'' @ pathname else pathname);
        kassert (length final_path < MAXPATHLEN);
        (err, f_name, curr_dir, s1) \<leftarrow>
          (if take 2 final_path = ''./'' then Some (0, from_slash final_path, Some (p_cwd (cur s)), s)
           else if take 3 final_path = ''../'' then do {
             (err, r, s1) \<leftarrow> lookup e (p_cwd (cur s)) ''..'' 2 s;
             Some (err, from_slash final_path, r, s1)
           } else Some (0, final_path, Some (vfs_root_vn s), s));
        if err \<noteq> 0 then Some (err, [], None, s1)
        else do {
          cdir \<leftarrow> curr_dir;
          let name = base_name pathname;
          if length name > NAME_LEN then Some (- ENAMETOOLONG, name, Some 0, s1)
          else
            let dup_path = (if length f_name \<ge> length name + 1
                            then take (length f_name - length name - 1) f_name else f_name) in
            if dup_path = [] then do { s2 \<leftarrow> vref cdir s1; Some (0, name, Some cdir, s2) }
            else do {
              let comps = split_slash (tl (collapse dup_path));
              (err, dir, res, s2) \<leftarrow> namev_walk e cdir (butlast comps) s1;
              if err \<noteq> 0 then Some (err, name, res, s2)
              else do {
                let search = (if pathname = ''.'' then ''.'' else if pathname = ''..'' then ''..''
                              else last comps);
                kassert (length search \<le> NAME_LEN + 1);
                if length search > NAME_LEN then Some (- ENAMETOOLONG, name, Some 0, s2)
                else do {
                  (err, r, s3) \<leftarrow> lookup e dir search (length search) s2;
                  Some (err, name, (case r of None \<Rightarrow> res | Some x \<Rightarrow> Some x), s3)
                }
              }
            }
        }
      })"

definition O_CREAT :: int where "O_CREAT = 0x100"
definition O_APPEND :: int where "O_APPEND = 0x400"
definition O_RDONLY :: int where "O_RDONLY = 0"
definition O_WRONLY :: int where "O_WRONLY = 1"
definition O_RDWR :: int where "O_RDWR = 2"

lemmas open_flags = O_CREAT_def O_APPEND_def O_RDONLY_def O_WRONLY_def O_RDWR_def

definition open_namev ::
  "env \<Rightarrow> string \<Rightarrow> int \<Rightarrow> kstate \<Rightarrow> (int \<times> nat option \<times> kstate) option" where
  "open_namev e pathname flag s =
     (if length pathname > MAXPATHLEN then Some (- ENAMETOOLONG, None, s)
      else if flag = O_CREAT then
        (if take 2 pathname = ''./'' then do {
           v \<leftarrow> vnode_at (p_cwd (cur s)) s;
           if \<not> S_ISDIR (vn_mode v) then Some (- ENOTDIR, Some 0, s) else None
         }
         else if take 3 pathname = ''../'' then None
         else do {
           (retval, name, res, s1) \<leftarrow> dir_namev e pathname s;
           if retval \<in> {- EEXIST, - ENOENT, - ENOTDIR, - ENAMETOOLONG} then Some (retval, None, s1)
           else do {
             curr_dir \<leftarrow> res;
             s2 \<leftarrow> vput curr_dir s1;
             v \<leftarrow> vnode_at curr_dir s2;
             if \<not> S_ISDIR (vn_mode v) then Some (- ENOTDIR, Some 0, s2)
             else do {
               kassert (vn_ops v = RamfsDir);
               (ret, result, s3) \<leftarrow> ramfs_create e curr_dir name (length name) s2;
               vn \<leftarrow> result;
               s4 \<leftarrow> vref vn s3;
               Some (ret, Some vn, s4)
             }
           }
         })
      else do {
        (name, curr_dir, s1) \<leftarrow>
          (if pathname \<noteq> ''.'' \<and> pathname \<noteq> ''..'' then do {
             (retval, name, res, s1) \<leftarrow> dir_namev e pathname s;
             curr_dir \<leftarrow> res;
             s2 \<leftarrow> vput curr_dir s1;
             Some (name, curr_dir, s2)
           } else Some (pathname, p_cwd (cur s), s));
        (retval, result, s2) \<leftarrow> lookup e curr_dir name (length name) s1;
        if retval = - ENOENT \<or> retval = - ENOTDIR then Some (retval, result, s2)
        else Some (e_undef e, result, s2)
      })"

section \<open>Opening\<close>

definition get_empty_fd :: "proc \<Rightarrow> int" where
  "get_empty_fd p = (case find_idx (\<lambda>f. f = 0) (p_files p) of Some fd \<Rightarrow> int fd | None \<Rightarrow> - EMFILE)"

definition FMODE_READ :: nat where "FMODE_READ = 1"
definition FMODE_WRITE :: nat where "FMODE_WRITE = 2"
definition FMODE_APPEND :: nat where "FMODE_APPEND = 4"

lemmas fmode_defs = FMODE_READ_def FMODE_WRITE_def FMODE_APPEND_def

definition open_fmode :: "int \<Rightarrow> nat option" where
  "open_fmode oflags =
     (if oflags = O_RDONLY \<or> oflags = O_RDONLY + O_CREAT then Some FMODE_READ
      else if oflags = O_WRONLY \<or> oflags = O_WRONLY + O_CREAT then Some FMODE_WRITE
      else if oflags = O_WRONLY + O_APPEND \<or> oflags = O_WRONLY + O_APPEND + O_CREAT
      then Some (FMODE_WRITE + FMODE_APPEND)
      else if oflags = O_RDWR \<or> oflags = O_RDWR + O_CREAT then Some (FMODE_READ + FMODE_WRITE)
      else if oflags = O_RDWR + O_APPEND \<or> oflags = O_RDWR + O_APPEND + O_CREAT
      then Some (FMODE_READ + FMODE_WRITE + FMODE_APPEND)
      else None)"

definition open_dup_flags :: "int \<Rightarrow> int" where
  "open_dup_flags oflags =
     (if oflags \<in> {O_RDONLY + O_CREAT, O_WRONLY + O_CREAT, O_RDWR + O_CREAT,
        O_WRONLY + O_APPEND + O_CREAT, O_RDWR + O_APPEND + O_CREAT} then O_CREAT else oflags)"

definition do_open :: "env \<Rightarrow> string \<Rightarrow> int \<Rightarrow> kstate \<Rightarrow> (int \<times> kstate) option" where
  "do_open e filename oflags s =
     (if (oflags - 3) mod 2 = 0 \<and> oflags - 3 \<ge> 0 then Some (EINVAL, s)
      else do {
        (fls, s1) \<leftarrow> fget (-1) s;
        let new_fd = get_empty_fd (cur s1);
        (fp, s2) \<leftarrow> fget new_fd s1;
        (file_ptr, s3) \<leftarrow> (if fp = 0 then Some (fls, s2)
                           else do { s' \<leftarrow> fput fls s2; Some (fp, s') });
        kassert (0 \<le> new_fd);
        let s4 = set_fd (nat new_fd) file_ptr s3;
        (retval, res, s5) \<leftarrow> open_namev e filename (open_dup_flags oflags) s4;
        if retval \<noteq> 0 then do {
          r \<leftarrow> res;
          let s6 = set_fd (nat new_fd) 0 s5;
          s7 \<leftarrow> (if r \<noteq> 0 then vput r s6 else Some s6);
          Some (retval, s7)
        }
        else do {
          r \<leftarrow> res;
          v \<leftarrow> vnode_at r s5;
          if S_ISDIR (vn_mode v) \<and> (oflags = O_WRONLY \<or> oflags = O_RDWR) then do {
            s6 \<leftarrow> vput r (set_fd (nat new_fd) 0 s5);
            Some (- EISDIR, s6)
          }
          else do {
            kassert (file_ptr \<noteq> 0 \<and> fls \<noteq> 0);
            let s6 = upd_file file_ptr (\<lambda>x. x\<lparr>f_vnode := r\<rparr>) s5;
            Some (new_fd, (case open_fmode oflags of
               Some m \<Rightarrow> upd_file fls (\<lambda>x. x\<lparr>f_mode := m\<rparr>) s6 | None \<Rightarrow> s6))
          }
        }
      })"

end
