(* ===== verification/Namev_Props.thy ===== *)
theory Namev_Props
  imports Namev
begin

text \<open>
  Path names: what \<^verbatim>\<open>lookup\<close> and \<^verbatim>\<open>dir_namev\<close> of \<^verbatim>\<open>kernel/fs/namev.c\<close> find, against the tree of inodes.
\<close>

section \<open>Lookup\<close>

text \<open>The inode a directory of the tree has under a name, and the one at the end of a path.\<close>

definition child_ino :: "ninodes \<Rightarrow> nat \<Rightarrow> string \<Rightarrow> nat option" where
  "child_ino N i c = (case N i of None \<Rightarrow> None
     | Some n \<Rightarrow> if rf_mode n = RAMFS_TYPE_DIR then dir_abs (entries n) c else None)"

fun path_ino :: "ninodes \<Rightarrow> nat \<Rightarrow> string list \<Rightarrow> nat option" where
  "path_ino N i [] = Some i"
| "path_ino N i (c # cs) = (case child_ino N i c of None \<Rightarrow> None | Some k \<Rightarrow> path_ino N k cs)"

lemma path_ino_append:
  "path_ino N i (cs @ ds) = (case path_ino N i cs of None \<Rightarrow> None | Some k \<Rightarrow> path_ino N k ds)"
  by (induction cs arbitrary: i) (auto split: option.splits)

lemma dir_vnode:
  assumes ok: "ramfs_ok f s" and d: "vnode_search f i s = Some dir" "nodes f s i = Some n" "rf_mode n = RAMFS_TYPE_DIR"
  shows "dirents dir s = Some (entries n)" "vn_mode (vnodes s dir) = S_IFDIR" "vn_ops (vnodes s dir) = RamfsDir"
    "in_use dir s" "vn_fs (vnodes s dir) = f"
proof -
  have u: "in_use dir s" "ino_of dir s = i" using vnode_search_Some [OF d(1)] by auto
  then have n: "inodes s (vn_i (vnodes s dir)) = n" using vnode_node(1) [OF ok u(1)] d(2) by simp
  show "vn_mode (vnodes s dir) = S_IFDIR" "vn_ops (vnodes s dir) = RamfsDir"
    using vn_shape_kind [OF vnode_okD(3) [OF cache_ok_vnode [OF ramfs_stD(1) [OF ok] u(1)]]] n d(3)
    by (simp_all add: vn_kind_def)
  have "node_ok (nodes f s) i n" using tree_okD(3) [OF ramfs_stD(4) [OF ok] d(2)] .
  then show "dirents dir s = Some (entries n)"
    using n d(3) by (auto simp: dirents_def entries_def node_ok_def split: rfmem.splits)
  show "in_use dir s" "vn_fs (vnodes s dir) = f" using u(1) vnode_node(4) [OF ok u(1)] by auto
qed

lemma lookup_vget:
  assumes ok: "ramfs_ok f s" and d: "vnode_search f i s = Some dir" "child_ino (nodes f s) i c = Some k" and c: "name_ok c"
  shows "lookup e dir c (length c) s = do { (vn, s1) \<leftarrow> vget e f k s; Some (0, Some vn, s1) }"
proof -
  obtain n where n: "nodes f s i = Some n" "rf_mode n = RAMFS_TYPE_DIR" "dir_abs (entries n) c = Some k"
    using d(2) by (auto simp: child_ino_def split: option.splits if_splits)
  note v = dir_vnode [OF ok d(1) n(1,2)]
  have "vop_lookup e dir c (length c) s = do { (vn, s1) \<leftarrow> vget e f k s; Some (0, Some vn, s1) }"
    using lookup_eq [OF v(1) c n(3), of e] v(3,5) by (simp add: vop_lookup_def)
  then show ?thesis using v(2,4) by (cases "vget e f k s") (auto simp: lookup_def vnode_at_def)
qed

lemma lookup_none:
  assumes ok: "ramfs_ok f s" and d: "vnode_search f i s = Some dir" "nodes f s i = Some n" "rf_mode n = RAMFS_TYPE_DIR"
    "dir_abs (entries n) c = None" and c: "name_ok c"
  shows "\<exists>r. lookup e dir c (length c) s = Some (- ENOENT, r, s)"
  using dir_vnode [OF ok d(1-3)] lookup_missing [of dir s _ c e] c d(4)
  by (auto simp: lookup_def vop_lookup_def vnode_at_def)

text \<open>The loop over the components: a directory in use stays as it is, one that is not is gone.\<close>

lemma walk_step:
  assumes ok: "ramfs_ok f s" and d: "vnode_search f i s = Some dir" "child_ino (nodes f s) i c = Some k"
    and c: "name_ok c" and v: "vnode_search f k s = Some v"
  shows "namev_walk e dir (c # cs) s = namev_walk e v cs s"
proof -
  have co: "cache_ok f s" using ramfs_stD(1) [OF ok] .
  have "lookup e dir c (length c) s = Some (0, Some v, add_ref v 1 s)"
    using lookup_vget [OF ok d c, of e] vget_hit [OF co v, of e] by simp
  moreover have "vput v (add_ref v 1 s) = Some s"
    using vput_add_ref [OF co] vnode_search_Some [OF v] by simp
  moreover have "length c \<le> NAME_LEN" using c by (simp add: name_ok_def)
  ultimately show ?thesis by simp
qed

lemma namev_walk_in_use:
  assumes ok: "ramfs_ok f s" and nm: "\<forall>c\<in>set cs. name_ok c"
  shows "vnode_search f i s = Some dir \<Longrightarrow> path_ino (nodes f s) i cs = Some k \<Longrightarrow>
    (\<forall>m\<le>length cs. refs f s (the (path_ino (nodes f s) i (take m cs))) \<noteq> 0) \<Longrightarrow>
    \<exists>v. namev_walk e dir cs s = Some (0, v, None, s) \<and> vnode_search f k s = Some v"
  using nm
proof (induction cs arbitrary: i dir)
  case (Cons c cs)
  obtain j where j: "child_ino (nodes f s) i c = Some j" "path_ino (nodes f s) j cs = Some k"
    using Cons.prems(2) by (auto split: option.splits)
  have u: "refs f s (the (path_ino (nodes f s) j (take m cs))) \<noteq> 0" if "m \<le> length cs" for m
    using Cons.prems(3)[rule_format, of "Suc m"] that j(1) by simp
  then obtain v where v: "vnode_search f j s = Some v"
    using u [of 0] refs_zero [OF ramfs_stD(1) [OF ok], of j] by auto
  show ?case
    using walk_step [OF ok Cons.prems(1) j(1) _ v, of e cs] Cons.IH [OF v j(2)] u Cons.prems(4) by auto
qed simp

lemma lookup_freed: "\<not> in_use dir s \<Longrightarrow> lookup e dir c n s = None"
  by (simp add: lookup_def vnode_at_def)

lemma namev_walk_append:
  "namev_walk e dir (cs @ ds) s = do {
     (err, v, r, s1) \<leftarrow> namev_walk e dir cs s;
     if err \<noteq> 0 then Some (err, v, r, s1) else namev_walk e v ds s1
   }"
proof (induction cs arbitrary: dir s)
  case (Cons c cs)
  show ?case
  proof (cases "lookup e dir c (length c) s")
    case (Some x)
    obtain err res s1 where "x = (err, res, s1)" by (cases x)
    with Some show ?thesis
      by (cases res; cases "vput (the res) s1") (simp_all add: Cons.IH)
  qed simp
qed simp

lemma walk_freed:
  assumes ok: "ramfs_ok f s" and d: "vnode_search f i s = Some dir" "child_ino (nodes f s) i c = Some k"
    and c: "name_ok c" and n: "nodes f s k = Some n" "refs f s k = 0" and mem: "vget_room f k s"
  obtains v s' where "namev_walk e dir [c] s = Some (0, v, None, s')" "\<not> in_use v s'"
proof -
  obtain v s1 where v: "vget e f k s = Some (v, s1)" "ramfs_ok f s1" "in_use v s1" "ino_of v s1 = k"
      "refs f s1 = (refs f s)(k := refs f s k + 1)"
    using vget_view [OF ok n(1) node_linkcount_nonneg [OF ok n(1)] mem, of e] by metis
  have co: "cache_ok f s1" using ramfs_stD(1) [OF v(2)] .
  then have "vn_refcount (vnodes s1 v) = 1" using refs_vnode [OF co v(3)] v(4,5) n(2) by simp
  then have "vput v s1 = Some (without_vnode v s1)" using vput_last [OF co v(3)] by simp
  moreover have "\<not> in_use v (without_vnode v s1)" using co by (simp add: cache_ok_def)
  moreover have "lookup e dir c (length c) s = Some (0, Some v, s1)" using lookup_vget [OF ok d c, of e] v(1) by simp
  moreover have "length c \<le> NAME_LEN" using c by (simp add: name_ok_def)
  ultimately show ?thesis using that by simp
qed

section \<open>Splitting a path\<close>

definition join_path :: "string list \<Rightarrow> string" where
  "join_path cs = concat (map ((#) slash) cs)"

lemma join_path_simps [simp]: "join_path [] = []" "join_path (c # cs) = slash # c @ join_path cs"
  by (simp_all add: join_path_def)

lemma split_slash_append: "slash \<notin> set c \<Longrightarrow> split_slash (c @ slash # r) = c # split_slash r"
  by (induction c) auto

lemma split_slash_word: "slash \<notin> set c \<Longrightarrow> split_slash c = [c]"
  by (induction c) auto

lemma split_slash_join: "\<forall>w\<in>set (c # cs). slash \<notin> set w \<Longrightarrow> split_slash (c @ join_path cs) = c # cs"
  by (induction cs arbitrary: c) (auto simp: split_slash_append split_slash_word)

lemma collapse_word: "slash \<notin> set c \<Longrightarrow> collapse (c @ join_path cs) = c @ collapse (join_path cs)"
proof (induction c)
  case (Cons a c)
  then show ?case by (cases "c @ join_path cs") auto
qed simp

lemma collapse_join: "\<forall>w\<in>set cs. slash \<notin> set w \<and> w \<noteq> [] \<Longrightarrow> collapse (join_path cs) = join_path cs"
proof (induction cs)
  case (Cons c cs)
  then have "collapse (c @ join_path cs) = c @ join_path cs" by (simp add: collapse_word)
  moreover obtain a c' where "c = a # c'" "a \<noteq> slash" using Cons.prems by (cases c) auto
  ultimately show ?case by simp
qed simp

lemma base_name_last:
  assumes "slash \<notin> set name"
  shows "base_name (p @ slash # name) = name" "base_name name = name"
proof -
  have "takeWhile (\<lambda>c. c \<noteq> slash) (rev name @ r) = rev name @ takeWhile (\<lambda>c. c \<noteq> slash) r" for r
    using assms by (intro takeWhile_append2) auto
  from this [of "slash # rev p"] this [of "[]"] show "base_name (p @ slash # name) = name" "base_name name = name"
    by (simp_all only: base_name_def rev_append rev.simps append.simps append_assoc append_Nil2 takeWhile.simps rev_rev_ident
        simp_thms if_False)
qed

text \<open>
  A path with directory part \<open>cs\<close> and last component \<open>name\<close>, and the directory it starts from: the root
  for an absolute path, the working directory for a relative one that does not begin with a dot.
\<close>

definition path_parts :: "string \<Rightarrow> string list \<Rightarrow> string \<Rightarrow> bool" where
  "path_parts path cs name \<longleftrightarrow> (path = join_path cs @ slash # name
       \<or> slash # path = join_path cs @ slash # name \<and> path \<noteq> [] \<and> hd path \<notin> {slash, CHR ''.''})
     \<and> (\<forall>c\<in>set cs. name_ok c \<and> slash \<notin> set c) \<and> slash \<notin> set name \<and> length name \<le> NAME_LEN
     \<and> length path + 2 < MAXPATHLEN"

definition path_start :: "string \<Rightarrow> kstate \<Rightarrow> nat" where
  "path_start path s = (if path \<noteq> [] \<and> hd path = slash then vfs_root_vn s else p_cwd (cur s))"

lemma path_partsD:
  assumes "path_parts path cs name"
  shows "\<forall>c\<in>set cs. name_ok c \<and> slash \<notin> set c \<and> c \<noteq> []" "slash \<notin> set name" "length name \<le> NAME_LEN"
    "base_name path = name" "path \<noteq> ''.''" "path \<noteq> ''..''"
proof -
  show c: "\<forall>c\<in>set cs. name_ok c \<and> slash \<notin> set c \<and> c \<noteq> []" and n: "slash \<notin> set name" "length name \<le> NAME_LEN"
    using assms by (auto simp: path_parts_def name_ok_def)
  have "path = join_path cs @ slash # name \<or> (\<exists>c r. cs = c # r \<and> path = (c @ join_path r) @ slash # name)
      \<or> cs = [] \<and> path = name"
    using assms by (cases cs) (auto simp: path_parts_def)
  then show "base_name path = name" using base_name_last [OF n(1)] by metis
  have "path = [] \<or> hd path \<noteq> CHR ''.''" using assms by (cases cs) (auto simp: path_parts_def)
  then show "path \<noteq> ''.''" "path \<noteq> ''..''" by auto
qed

text \<open>What is left of \<^verbatim>\<open>dir_namev\<close> once the path is taken apart.\<close>

lemma dir_namev_parts:
  assumes p: "path_parts path cs name"
  shows "dir_namev e path s = (if cs = [] then do { s2 \<leftarrow> vref (path_start path s) s; Some (0, name, Some (path_start path s), s2) }
    else do {
      (err, dir, res, s2) \<leftarrow> namev_walk e (path_start path s) (butlast cs) s;
      if err \<noteq> 0 then Some (err, name, res, s2)
      else do {
        (err, r, s3) \<leftarrow> lookup e dir (last cs) (length (last cs)) s2;
        Some (err, name, (case r of None \<Rightarrow> res | Some x \<Rightarrow> Some x), s3)
      }
    })"
proof -
  note d = path_partsD [OF p]
  have f: "(if take 2 fp = ''./'' then Some (0, from_slash fp, Some (p_cwd (cur s)), s)
       else if take 3 fp = ''../'' then do { (err, r, s1) \<leftarrow> lookup e (p_cwd (cur s)) ''..'' 2 s; Some (err, from_slash fp, r, s1) }
       else Some (0, fp, Some (vfs_root_vn s), s)) = Some (0, join_path cs @ slash # name, Some (path_start path s), s)"
    if fp: "fp = (if path = [] \<or> hd path \<noteq> slash \<and> hd path \<noteq> CHR ''.'' then ''./'' @ path else path)" for fp
  proof (cases "path = join_path cs @ slash # name")
    case True
    then obtain r where r: "path = slash # r" by (cases cs) auto
    then have "fp = path" using fp by simp
    then show ?thesis unfolding True [symmetric] using r by (simp add: path_start_def)
  next
    case False
    then have r: "slash # path = join_path cs @ slash # name" "path \<noteq> []" "hd path \<noteq> slash" "hd path \<noteq> CHR ''.''"
      using p by (auto simp: path_parts_def)
    then have "fp = CHR ''.'' # slash # path" using fp by simp
    then show ?thesis unfolding r(1) [symmetric] using r(2-4) by (simp add: path_start_def from_slash_def)
  qed
  have l: "\<not> 1024 < length path" "kassert (length (if path = [] \<or> hd path \<noteq> slash \<and> hd path \<noteq> CHR ''.'' then ''./'' @ path else path) < MAXPATHLEN) = Some ()"
    "\<not> NAME_LEN < length name"
    using p by (auto simp: path_parts_def kernel_consts)
  have t: "(if length name + 1 \<le> length (join_path cs @ slash # name)
      then take (length (join_path cs @ slash # name) - length name - 1) (join_path cs @ slash # name)
      else join_path cs @ slash # name) = join_path cs" by simp
  have c: "split_slash (tl (collapse (join_path cs))) = cs" if "cs \<noteq> []"
    using collapse_join [of cs] split_slash_join [of "hd cs" "tl cs"] d(1) that by (cases cs) auto
  have s: "length (last cs) \<le> Suc NAME_LEN" "\<not> NAME_LEN < length (last cs)" if "cs \<noteq> []"
    using bspec [OF d(1) last_in_set [OF that]] by (auto simp: name_ok_def)
  have j: "join_path cs = [] \<longleftrightarrow> cs = []" by (cases cs) auto
  show ?thesis
    unfolding dir_namev_def Let_def f [OF refl] d(4) l(2)
    by (simp add: l(1,3) t j c s d(5,6) cong: if_cong)
qed


lemma mkdir_memory:
  assumes "ramfs_mkdir e dir name (length name) s = Some (0, s')" and "dirents dir s = Some es" and "name_ok name"
    and "dir_abs es name = None" and "free_slot es = Some k"
  shows "answers s' = tl (tl (answers s)) \<and> vnode_inuse_list s' = vnode_inuse_list s \<and> vnodes s' = vnodes s"
  using assms lookup_missing [OF assms(2-4), of e]
  by (auto simp: ramfs_mkdir_def ramfs_alloc_inode_def alloc_def add_entry_def upd_inode_def Let_def
      split: if_splits list.splits option.splits prod.splits)

text \<open>A directory \<^verbatim>\<open>/b\<close> that nobody uses.\<close>

lemma demo_sub:
  obtains s n where "ramfs_ok 500 s" "nodes 500 s 2 = Some n" "rf_mode n = RAMFS_TYPE_DIR" "refs 500 s 2 = 0" "vget_room 500 2 s"
    "vnode_search 500 0 s = Some (vfs_root_vn s)" "child_ino (nodes 500 s) 0 ''b'' = Some 2" "entries n = dot_entries 2 0"
proof -
  have m: "name_ok ''b''" "\<not> is_dot ''b''" "dir_abs demo_dir ''b'' = None" using demo_room(5) by (auto simp: may_add_def)
  have d: "dirents 1000 demo_fs = Some demo_dir" using demo_view by (simp add: dir_view_def)
  obtain s es n where s: "ramfs_mkdir demo_env 1000 ''b'' (length ''b'') demo_fs = Some (0, s)" "ramfs_ok 500 s"
      "dirents 1000 s = Some es" "dir_abs es = (dir_abs demo_dir)(''b'' \<mapsto> 2)" "refs 500 s = refs 500 demo_fs"
      "nodes 500 s 2 = Some n" "rf_mode n = RAMFS_TYPE_DIR" "entries n = dot_entries 2 0" "fs_frame demo_fs s"
    using mkdir_step [OF demo_ok demo_view m demo_room(1,2,4), of demo_env] by blast
  note a = mkdir_memory [OF s(1) d m(1,3) demo_room(1)]
  have u: "in_use 1000 s" "ino_of 1000 s = 0" "vnode_inuse_list s = [1000]" using a by (simp_all add: demo_fs_def demo_vnode_def)
  have "vnode_search 500 0 s = Some (vfs_root_vn s)"
    using vnode_search_hit [OF ramfs_stD(1) [OF s(2)] u(1)] u(2) s(9) by (simp add: fs_frame_def demo_fs_def)
  moreover have "vget_room 500 2 s" using a u(3) by (simp add: vget_room_def vnode_room_def demo_fs_def vn_mutex_def)
  moreover have "child_ino (nodes 500 s) 0 ''b'' = Some 2"
  proof -
    obtain n0 where "nodes 500 s (ino_of 1000 s) = Some n0" "rf_mode n0 = RAMFS_TYPE_DIR" "entries n0 = es"
      using dir_node [OF s(2) u(1) s(3)] by metis
    then show ?thesis using u(2) s(4) by (simp add: child_ino_def)
  qed
  ultimately show ?thesis using that s by (simp add: demo_refs)
qed




end
