(* ===== verification/Vfs_Syscall.thy ===== *)
theory Vfs_Syscall
  imports Namev_Props
begin

text \<open>
  The file system calls (\<^verbatim>\<open>kernel/fs/vfs_syscall.c\<close>) and the mounting of the root file system
  (\<^verbatim>\<open>kernel/fs/vfs.c\<close>).  Descriptors are checked with \<^verbatim>\<open>fd > NFILES\<close>, so 32 passes; the word behind
  \<^verbatim>\<open>p_files\<close> is \<^verbatim>\<open>p_cwd\<close>.
\<close>

definition p_files_at :: "int \<Rightarrow> kstate \<Rightarrow> nat" where
  "p_files_at fd s = (if fd < int NFILES then p_files (cur s) ! nat fd else p_cwd (cur s))"

definition bad_fd :: "int \<Rightarrow> kstate \<Rightarrow> bool" where
  "bad_fd fd s \<longleftrightarrow> fd < 0 \<or> fd > int NFILES \<or> p_files_at fd s = 0"

text \<open>A descriptor 32 that passes the check is no file: \<^verbatim>\<open>fget\<close> returns a null pointer for it.\<close>

definition fget_checked :: "int \<Rightarrow> kstate \<Rightarrow> (nat \<times> kstate) option" where
  "fget_checked fd s = do { (f, s1) \<leftarrow> fget fd s; kassert (f \<noteq> 0); Some (f, s1) }"

section \<open>Seeking, reading and writing\<close>

definition SEEK_SET :: int where "SEEK_SET = 0"
definition SEEK_CUR :: int where "SEEK_CUR = 1"
definition SEEK_END :: int where "SEEK_END = 2"

lemmas seek_defs = SEEK_SET_def SEEK_CUR_def SEEK_END_def

definition do_lseek :: "int \<Rightarrow> int \<Rightarrow> int \<Rightarrow> kstate \<Rightarrow> (int \<times> kstate) option" where
  "do_lseek fd offset whence s =
     (if bad_fd fd s then Some (- EBADF, s)
      else do {
        (f, s1) \<leftarrow> fget_checked fd s;
        s2 \<leftarrow> fput f s1;
        let x = files s2 f;
        let orig_seek = f_pos x;
        if whence \<noteq> SEEK_SET \<and> whence \<noteq> SEEK_CUR \<and> whence \<noteq> SEEK_END then Some (- EINVAL, s2)
        else do {
          pos \<leftarrow> (if whence = SEEK_SET then Some offset
                  else if whence = SEEK_CUR then Some (wrap32 (f_pos x + offset))
                  else do { v \<leftarrow> vnode_at (f_vnode x) s2; Some (wrap32 (offset + vn_len v)) });
          let s3 = upd_file f (\<lambda>x. x\<lparr>f_pos := pos\<rparr>) s2;
          if pos < 0 then Some (- EINVAL, upd_file f (\<lambda>x. x\<lparr>f_pos := orig_seek\<rparr>) s3)
          else Some (pos, s3)
        }
      })"

definition special_file_read ::
  "env \<Rightarrow> nat \<Rightarrow> int \<Rightarrow> nat \<Rightarrow> kstate \<Rightarrow> (int \<times> 8 word list \<times> kstate) option" where
  "special_file_read e vn offset count s =
     (if S_ISBLK (vn_mode (vnodes s vn)) then Some (- ENOTSUP, [], s)
      else do {
        cd \<leftarrow> bytedev_lookup (vn_devid (vnodes s vn)) s;
        let s1 = upd_vnode vn (\<lambda>v. v\<lparr>vn_cdev := cd\<rparr>) s;
        kassert (cd \<noteq> 0);
        e_dev_read e cd offset count s1
      })"

definition special_file_write ::
  "env \<Rightarrow> nat \<Rightarrow> int \<Rightarrow> 8 word list \<Rightarrow> nat \<Rightarrow> kstate \<Rightarrow> (int \<times> kstate) option" where
  "special_file_write e vn offset buf count s =
     (if S_ISBLK (vn_mode (vnodes s vn)) then Some (- ENOTSUP, s)
      else do {
        cd \<leftarrow> bytedev_lookup (vn_devid (vnodes s vn)) s;
        let s1 = upd_vnode vn (\<lambda>v. v\<lparr>vn_cdev := cd\<rparr>) s;
        kassert (cd \<noteq> 0);
        e_dev_write e cd offset buf count s1
      })"

definition vop_read ::
  "env \<Rightarrow> nat \<Rightarrow> int \<Rightarrow> nat \<Rightarrow> kstate \<Rightarrow> (int \<times> 8 word list \<times> kstate) option" where
  "vop_read e vn offset count s = (case vn_ops (vnodes s vn) of
       RamfsFile \<Rightarrow> do { (r, bs) \<leftarrow> ramfs_read vn offset count s; Some (r, bs, s) }
     | BytedevSpec \<Rightarrow> special_file_read e vn offset count s
     | _ \<Rightarrow> None)"

definition vop_write ::
  "env \<Rightarrow> nat \<Rightarrow> int \<Rightarrow> 8 word list \<Rightarrow> nat \<Rightarrow> kstate \<Rightarrow> (int \<times> kstate) option" where
  "vop_write e vn offset buf count s = (case vn_ops (vnodes s vn) of
       RamfsFile \<Rightarrow> ramfs_write vn offset buf count s
     | BytedevSpec \<Rightarrow> special_file_write e vn offset buf count s
     | _ \<Rightarrow> None)"

definition do_read :: "env \<Rightarrow> int \<Rightarrow> nat \<Rightarrow> kstate \<Rightarrow> (int \<times> 8 word list \<times> kstate) option" where
  "do_read e fd nbytes s =
     (if bad_fd fd s then Some (- EBADF, [], s)
      else do {
        (f, s1) \<leftarrow> fget_checked fd s;
        let vn = f_vnode (files s1 f);
        v \<leftarrow> vnode_at vn s1;
        if S_ISDIR (vn_mode v) then Some (- EISDIR, [], s1)
        else if f_mode (files s1 f) = 2 \<or> f_mode (files s1 f) = 4 \<or> f_mode (files s1 f) = 6
        then Some (- EBADF, [], s1)
        else do {
          let offset = f_pos (files s1 f);
          (count, bs, s2) \<leftarrow> vop_read e vn offset nbytes s1;
          let s3 = upd_file f (\<lambda>x. x\<lparr>f_pos := wrap32 (offset + count)\<rparr>) s2;
          s4 \<leftarrow> fput f s3;
          Some (count, bs, s4)
        }
      })"

definition do_write :: "env \<Rightarrow> int \<Rightarrow> 8 word list \<Rightarrow> nat \<Rightarrow> kstate \<Rightarrow> (int \<times> kstate) option" where
  "do_write e fd buf nbytes s =
     (if bad_fd fd s then Some (- EBADF, s)
      else do {
        (f, s1) \<leftarrow> fget_checked fd s;
        let vn = f_vnode (files s1 f);
        v \<leftarrow> vnode_at vn s1;
        if S_ISDIR (vn_mode v) then Some (- EISDIR, s1)
        else if f_mode (files s1 f) = FMODE_READ then Some (- EBADF, s1)
        else do {
          s2 \<leftarrow> (if f_mode (files s1 f) div 4 mod 2 = 1 then do {
                  (pos, s') \<leftarrow> do_lseek fd 0 SEEK_END s1;
                  Some (upd_file f (\<lambda>x. x\<lparr>f_pos := pos\<rparr>) s')
                } else Some s1);
          let offset = f_pos (files s2 f);
          (count, s3) \<leftarrow> vop_write e vn offset buf nbytes s2;
          let s4 = upd_file f (\<lambda>x. x\<lparr>f_pos := wrap32 (offset + int nbytes)\<rparr>) s3;
          s5 \<leftarrow> fput f s4;
          Some (count, s5)
        }
      })"

section \<open>Descriptors\<close>

definition do_close :: "int \<Rightarrow> kstate \<Rightarrow> (int \<times> kstate) option" where
  "do_close fd s =
     (if bad_fd fd s then Some (- EBADF, s)
      else do {
        kassert (fd < int NFILES);
        let f = p_files_at fd s;
        s1 \<leftarrow> fput f (set_fd (nat fd) 0 s);
        Some (0, s1)
      })"

definition do_dup :: "int \<Rightarrow> kstate \<Rightarrow> (int \<times> kstate) option" where
  "do_dup fd s =
     (if bad_fd fd s then Some (- EBADF, s)
      else do {
        (f, s1) \<leftarrow> fget_checked fd s;
        let new_fd = get_empty_fd (cur s1);
        if new_fd > int NFILES then Some (- EMFILE, s1)
        else do {
          kassert (0 \<le> new_fd);
          Some (new_fd, set_fd (nat new_fd) (p_files_at fd s1) s1)
        }
      })"

definition do_dup2 :: "int \<Rightarrow> int \<Rightarrow> kstate \<Rightarrow> (int \<times> kstate) option" where
  "do_dup2 ofd nfd s =
     (if ofd < 0 \<or> ofd > int NFILES then Some (- EBADF, s)
      else if nfd < 0 \<or> nfd > int NFILES then Some (- EBADF, s)
      else if p_files_at ofd s = 0 then Some (EBADF, s)
      else do {
        s1 \<leftarrow> (if p_files_at nfd s \<noteq> 0 \<and> nfd \<noteq> ofd then map_option snd (do_close nfd s) else Some s);
        kassert (ofd < int NFILES \<and> nfd < int NFILES);
        let s2 = set_fd (nat nfd) (p_files_at ofd s1) s1;
        s3 \<leftarrow> fref (p_files_at nfd s2) s2;
        Some (nfd, s3)
      })"

section \<open>Names\<close>

definition vop_dir :: "nat \<Rightarrow> kstate \<Rightarrow> unit option" where
  "vop_dir vn s = do { v \<leftarrow> vnode_at vn s; kassert (vn_ops v = RamfsDir) }"

text \<open>
  \<^verbatim>\<open>do_mknod\<close> clears four bytes at an uninitialised pointer before it does its work, which is
  \<open>mknod_at\<close>: \<open>scratch\<close> is \<open>None\<close> when that address is not writable, which is a fault, and otherwise
  an address outside the objects of this model.
\<close>

definition mknod_at :: "env \<Rightarrow> string \<Rightarrow> nat \<Rightarrow> nat \<Rightarrow> kstate \<Rightarrow> (int \<times> kstate) option" where
  "mknod_at e path mode devid s = do {
     (retval, name, res, s1) \<leftarrow> dir_namev e path s;
     if retval \<noteq> 0 then Some (retval, s1)
     else do {
       dir \<leftarrow> res;
       (retval, result, s2) \<leftarrow> lookup e dir name (length name) s1;
       s3 \<leftarrow> vput dir s2;
       if retval = 0 then do { r \<leftarrow> result; s4 \<leftarrow> vput r s3; Some (- EEXIST, s4) }
       else if retval = - ENOTDIR \<or> retval = - ENAMETOOLONG then Some (retval, s3)
       else do {
         vop_dir dir s3;
         (ino, s4) \<leftarrow> ramfs_mknod e dir name (length name) mode devid s3;
         s5 \<leftarrow> (if ino = 0 then map_option (snd \<circ> snd) (lookup e dir name (length name) s4) else Some s4);
         Some (ino, s5)
       }
     }
   }"

definition do_mknod :: "env \<Rightarrow> nat option \<Rightarrow> string \<Rightarrow> nat \<Rightarrow> nat \<Rightarrow> kstate \<Rightarrow> (int \<times> kstate) option" where
  "do_mknod e scratch path mode devid s =
     (if \<not> S_ISCHR mode \<and> \<not> S_ISBLK mode then Some (- EINVAL, s)
      else if length path > MAXPATHLEN then Some (- ENAMETOOLONG, s)
      else do { _ \<leftarrow> scratch; mknod_at e path mode devid s })"

definition do_mkdir :: "env \<Rightarrow> string \<Rightarrow> kstate \<Rightarrow> (int \<times> kstate) option" where
  "do_mkdir e path s = do {
     (err, name, res, s1) \<leftarrow> dir_namev e path s;
     if err \<noteq> 0 then Some (err, s1)
     else do {
       dir \<leftarrow> res;
       (err, result, s2) \<leftarrow> lookup e dir name (length name) s1;
       s3 \<leftarrow> vput dir s2;
       if err = 0 then do { r \<leftarrow> result; s4 \<leftarrow> vput r s3; Some (- EEXIST, s4) }
       else if err = - ENOTDIR \<or> err = - ENAMETOOLONG then Some (err, s3)
       else do {
         vop_dir dir s3;
         (retval, s4) \<leftarrow> ramfs_mkdir e dir name (length name) s3;
         s5 \<leftarrow> (if retval = 0 then map_option (snd \<circ> snd) (lookup e dir name (length name) s4) else Some s4);
         Some (retval, s5)
       }
     }
   }"

definition do_rmdir :: "env \<Rightarrow> string \<Rightarrow> kstate \<Rightarrow> (int \<times> kstate) option" where
  "do_rmdir e path s =
     (if path = ''.'' then Some (- EINVAL, s)
      else if path = ''..'' then Some (- ENOTEMPTY, s)
      else do {
        (err, name, res, s1) \<leftarrow> dir_namev e path s;
        if err \<noteq> 0 then Some (err, s1)
        else if name = ''.'' then Some (- EINVAL, s1)
        else if name = ''..'' then Some (- ENOTEMPTY, s1)
        else do {
          dir \<leftarrow> res;
          (err, result, s2) \<leftarrow> lookup e dir name (length name) s1;
          s3 \<leftarrow> vput dir s2;
          if err \<noteq> 0 then Some (err, s3)
          else do {
            r \<leftarrow> result;
            v \<leftarrow> vnode_at r s3;
            s4 \<leftarrow> vput r s3;
            if S_ISDIR (vn_mode v) then do {
              vop_dir dir s4;
              ramfs_rmdir e dir name (length name) s4
            } else Some (- ENOTDIR, s4)
          }
        }
      })"

definition do_unlink :: "env \<Rightarrow> string \<Rightarrow> kstate \<Rightarrow> (int \<times> kstate) option" where
  "do_unlink e path s = do {
     (err, name, res, s1) \<leftarrow> dir_namev e path s;
     if err \<noteq> 0 then Some (err, s1)
     else do {
       dir \<leftarrow> res;
       (err, result, s2) \<leftarrow> lookup e dir name (length name) s1;
       if err \<noteq> 0 then do { s3 \<leftarrow> vput dir s2; Some (err, s3) }
       else do {
         r \<leftarrow> result;
         v \<leftarrow> vnode_at r s2;
         if \<not> S_ISDIR (vn_mode v) then do {
           vop_dir dir s2;
           (err, s3) \<leftarrow> ramfs_unlink e dir name (length name) s2;
           s4 \<leftarrow> vput r s3;
           s5 \<leftarrow> vput dir s4;
           Some (err, s5)
         } else do {
           s3 \<leftarrow> vput dir s2;
           s4 \<leftarrow> vput r s3;
           Some (- EISDIR, s4)
         }
       }
     }
   }"

definition do_link :: "env \<Rightarrow> string \<Rightarrow> string \<Rightarrow> kstate \<Rightarrow> (int \<times> kstate) option" where
  "do_link e from to s = do {
     (open_ret, from_res, s1) \<leftarrow> open_namev e from 0 s;
     if open_ret \<in> {- EEXIST, - ENOENT, - ENOTDIR, - ENAMETOOLONG} then Some (open_ret, s1)
     else do {
       from_vnode \<leftarrow> from_res;
       s2 \<leftarrow> vput from_vnode s1;
       (dir_ret, name, to_res, s3) \<leftarrow> dir_namev e to s2;
       if dir_ret \<in> {- EEXIST, - ENOENT, - ENOTDIR, - ENAMETOOLONG} then Some (dir_ret, s3)
       else do {
         to_vnode \<leftarrow> to_res;
         (r, result, s4) \<leftarrow> lookup e to_vnode name (length name) s3;
         s5 \<leftarrow> vput to_vnode s4;
         if r = 0 then do { x \<leftarrow> result; s6 \<leftarrow> vput x s5; Some (- EEXIST, s6) }
         else do {
           vop_dir to_vnode s5;
           _ \<leftarrow> vnode_at from_vnode s5;
           ramfs_link e from_vnode to_vnode name (length name) s5
         }
       }
     }
   }"

definition do_rename :: "env \<Rightarrow> string \<Rightarrow> string \<Rightarrow> kstate \<Rightarrow> (int \<times> kstate) option" where
  "do_rename e oldname newname s = do {
     (_, s1) \<leftarrow> do_link e oldname newname s;
     do_unlink e oldname s1
   }"

definition set_cwd :: "nat \<Rightarrow> kstate \<Rightarrow> kstate" where
  "set_cwd vn s = upd_proc (curproc s) (\<lambda>p. p\<lparr>p_cwd := vn\<rparr>) s"

definition do_chdir :: "env \<Rightarrow> string \<Rightarrow> kstate \<Rightarrow> (int \<times> kstate) option" where
  "do_chdir e path s =
     (if path = ''.'' then Some (0, s)
      else if path = ''..'' then do {
        (err, result, s1) \<leftarrow> lookup e (p_cwd (cur s)) path (length path) s;
        if err \<noteq> 0 then Some (err, s1)
        else do {
          r \<leftarrow> result;
          s2 \<leftarrow> vput (p_cwd (cur s1)) s1;
          Some (0, set_cwd r s2)
        }
      }
      else do {
        (err, name, res, s1) \<leftarrow> dir_namev e path s;
        if err \<noteq> 0 then Some (err, s1)
        else do {
          dir \<leftarrow> res;
          (err, result, s2) \<leftarrow> lookup e dir name (length name) s1;
          s3 \<leftarrow> vput dir s2;
          if err \<noteq> 0 then Some (err, s3)
          else do {
            r \<leftarrow> result;
            v \<leftarrow> vnode_at r s3;
            if S_ISDIR (vn_mode v) then do {
              s4 \<leftarrow> vput (p_cwd (cur s3)) s3;
              Some (0, set_cwd r s4)
            } else do { s4 \<leftarrow> vput r s3; Some (- ENOTDIR, s4) }
          }
        }
      })"

definition dirent_t_size :: int where "dirent_t_size = 40"

definition do_getdent :: "int \<Rightarrow> kstate \<Rightarrow> (int \<times> (nat \<times> string) option \<times> kstate) option" where
  "do_getdent fd s =
     (if bad_fd fd s then Some (- EBADF, None, s)
      else do {
        (f, s1) \<leftarrow> fget_checked fd s;
        s2 \<leftarrow> fput f s1;
        let vn = f_vnode (files s2 f);
        v \<leftarrow> vnode_at vn s2;
        if \<not> S_ISDIR (vn_mode v) then Some (- ENOTDIR, None, s2)
        else if vn_ops v \<noteq> RamfsDir then Some (- EBADF, None, s2)
        else do {
          (read_ret, d) \<leftarrow> ramfs_readdir vn (f_pos (files s2 f)) s2;
          let s3 = upd_file f (\<lambda>x. x\<lparr>f_pos := f_pos x + read_ret\<rparr>) s2;
          Some (if read_ret > 0 then dirent_t_size else 0, d, s3)
        }
      })"

definition special_file_stat :: "nat \<Rightarrow> kstate \<Rightarrow> stat option" where
  "special_file_stat vn s = do {
     r \<leftarrow> vnode_at (fs_root (fss s (vn_fs (vnodes s vn)))) s;
     kassert (vn_ops r = RamfsDir \<or> vn_ops r = RamfsFile);
     Some (ramfs_stat vn s)
   }"

definition vop_stat :: "nat \<Rightarrow> kstate \<Rightarrow> stat option" where
  "vop_stat vn s = (case vn_ops (vnodes s vn) of
       RamfsDir \<Rightarrow> Some (ramfs_stat vn s)
     | RamfsFile \<Rightarrow> Some (ramfs_stat vn s)
     | BytedevSpec \<Rightarrow> special_file_stat vn s
     | BlockdevSpec \<Rightarrow> special_file_stat vn s
     | NullVops \<Rightarrow> None)"

definition do_stat :: "env \<Rightarrow> string \<Rightarrow> kstate \<Rightarrow> (int \<times> stat option \<times> kstate) option" where
  "do_stat e path s = do {
     let (res0, s0) = alloc s;
     (ret, r, s1) \<leftarrow> open_namev e path 0 s0;
     if ret \<in> {- ENOENT, - ENOTDIR, - ENAMETOOLONG} then Some (ret, None, s1)
     else do {
       let res = (case r of None \<Rightarrow> res0 | Some x \<Rightarrow> x);
       _ \<leftarrow> vnode_at res s1;
       st \<leftarrow> vop_stat res s1;
       s2 \<leftarrow> vput res s1;
       Some (0, Some st, s2)
     }
   }"

section \<open>The root file system\<close>

definition mountfunc :: "env \<Rightarrow> nat \<Rightarrow> kstate \<Rightarrow> (int \<times> kstate) option" where
  "mountfunc e f s = (if fs_type (fss s f) = ''ramfs'' then ramfs_mount e f s else Some (- EINVAL, s))"

definition vfs_init :: "env \<Rightarrow> string \<Rightarrow> string \<Rightarrow> kstate \<Rightarrow> kstate option" where
  "vfs_init e rootfs_type rootfs_dev s = do {
     let (f, s1) = alloc s;
     kassert (f \<noteq> 0);
     let s2 = upd_fs f (\<lambda>_. \<lparr>fs_dev = rootfs_dev, fs_type = rootfs_type, fs_op = NullFsOps, fs_root = 0,
                            fs_i = 0\<rparr>) s1;
     (err, s3) \<leftarrow> mountfunc e f s2;
     kassert (0 \<le> err);
     Some (s3\<lparr>vfs_root_vn := fs_root (fss s3 f)\<rparr>)
   }"

definition vfs_shutdown :: "kstate \<Rightarrow> (int \<times> kstate) option" where
  "vfs_shutdown s = do {
     kassert (vfs_root_vn s \<noteq> 0);
     v \<leftarrow> vnode_at (vfs_root_vn s) s;
     let f = vn_fs v;
     busy \<leftarrow> vfs_is_in_use f s;
     kassert (0 \<le> busy);
     kassert (fs_op (fss s f) = RamfsOps);
     (ret, s1) \<leftarrow> ramfs_umount f s;
     kassert (vnode_inuse f s1 = 0);
     Some (ret, free_obj f (s1\<lparr>vfs_root_vn := 0\<rparr>))
   }"

end
