(* ===== verification/Vfs_Props.thy ===== *)
theory Vfs_Props
  imports Vfs_Syscall
begin

text \<open>
  What the file system calls promise: reference counts of open files, seeking, reading what was
  written through a descriptor, duplicating descriptors, and unlinking by path.
\<close>

section \<open>Open files\<close>

definition open_file :: "nat \<Rightarrow> kstate \<Rightarrow> bool" where
  "open_file a s \<longleftrightarrow> a \<noteq> 0 \<and> f_mode (files s a) < 8 \<and> 0 \<le> f_pos (files s a) \<and> 0 < f_refcount (files s a)
     \<and> f_vnode (files s a) \<noteq> 0"

definition fd_open :: "int \<Rightarrow> nat \<Rightarrow> kstate \<Rightarrow> bool" where
  "fd_open fd a s \<longleftrightarrow> 0 \<le> fd \<and> fd < int NFILES \<and> length (p_files (cur s)) = NFILES
     \<and> p_files (cur s) ! nat fd = a \<and> open_file a s"

lemma upd_file_simps [simp]:
  "files (upd_file a g s) = (files s)(a := g (files s a))" "vnodes (upd_file a g s) = vnodes s"
  "inodes (upd_file a g s) = inodes s" "vnode_inuse_list (upd_file a g s) = vnode_inuse_list s"
  "ramfss (upd_file a g s) = ramfss s" "fss (upd_file a g s) = fss s" "procs (upd_file a g s) = procs s"
  "curproc (upd_file a g s) = curproc s" "answers (upd_file a g s) = answers s" "qh (upd_file a g s) = qh s"
  "cur (upd_file a g s) = cur s" "bytedevs (upd_file a g s) = bytedevs s" "dev_id (upd_file a g s) = dev_id s"
  by (simp_all add: upd_file_def cur_def)

lemma upd_file_twice [simp]: "upd_file a g (upd_file a h s) = upd_file a (g \<circ> h) s"
  by (simp add: upd_file_def)

lemma upd_file_id: "g (files s a) = files s a \<Longrightarrow> upd_file a g s = s"
  by (simp add: upd_file_def)

lemma ramfs_parts_cong:
  assumes "vnodes s' = vnodes s" "vnode_inuse_list s' = vnode_inuse_list s" "inodes s' = inodes s" "ramfss s' = ramfss s" "fss s' = fss s"
    "qh s' = qh s" "bytedevs s' = bytedevs s" "blockdevs s' = blockdevs s" "dev_id s' = dev_id s"
  shows "nodes f s' = nodes f s" "refs f s' = refs f s" "ramfs_st off f s' = ramfs_st off f s"
    "file_view f vn ino n p bs s' = file_view f vn ino n p bs s"
proof -
  have i: "inode_of f k s' = inode_of f k s" for k by (simp add: inode_of_def assms)
  show n: "nodes f s' = nodes f s" by (simp add: nodes_def inode_ok_def i assms cong: if_cong)
  show r: "refs f s' = refs f s" by (rule refs_cong) (simp_all add: assms)
  have "cache_ok f s' = cache_ok f s"
    by (simp add: cache_ok_def vnode_ok_def vn_shape_def inode_ok_def vn_kind_def i bytedev_lookup_def blockdev_lookup_def assms)
  then show "ramfs_st off f s' = ramfs_st off f s" by (simp add: ramfs_st_def table_ok_def lens_ok_def n r i assms)
  show "file_view f vn ino n p bs s' = file_view f vn ino n p bs s" for vn ino n p bs by (simp add: file_view_def n assms)
qed

lemma upd_file_ramfs [simp]:
  "nodes f (upd_file a g s) = nodes f s" "refs f (upd_file a g s) = refs f s"
  "ramfs_st off f (upd_file a g s) = ramfs_st off f s" "file_view f vn ino n p bs (upd_file a g s) = file_view f vn ino n p bs s"
  by (rule ramfs_parts_cong; simp add: upd_file_def)+

lemma set_fd_ramfs [simp]:
  "nodes f (set_fd k a s) = nodes f s" "refs f (set_fd k a s) = refs f s"
  "ramfs_st off f (set_fd k a s) = ramfs_st off f s" "file_view f vn ino n p bs (set_fd k a s) = file_view f vn ino n p bs s"
  by (rule ramfs_parts_cong; simp add: set_fd_def upd_proc_def)+

interpretation fr: refcounted "open_file a" "\<lambda>s. f_refcount (files s a)" "\<lambda>n. upd_file a (\<lambda>x. x\<lparr>f_refcount := n\<rparr>)"
  "fref a" "fput a"
proof
  fix s :: kstate and n m :: int
  show "fref a s = Some (upd_file a (\<lambda>x. x\<lparr>f_refcount := f_refcount (files s a) + 1\<rparr>) s)"
    if "open_file a s" using that by (auto simp: open_file_def fref_def upd_file_def Let_def)
  show "fput a s = Some (upd_file a (\<lambda>x. x\<lparr>f_refcount := f_refcount (files s a) - 1\<rparr>) s)"
    if "open_file a s" "1 < f_refcount (files s a)" using that by (auto simp: open_file_def fput_def upd_file_def Let_def)
  show "open_file a (upd_file a (\<lambda>x. x\<lparr>f_refcount := n\<rparr>) s)" if "open_file a s" "0 < n"
    using that by (simp add: open_file_def)
  show "f_refcount (files (upd_file a (\<lambda>x. x\<lparr>f_refcount := n\<rparr>) s) a) = n" by simp
  show "upd_file a (\<lambda>x. x\<lparr>f_refcount := n\<rparr>) (upd_file a (\<lambda>x. x\<lparr>f_refcount := m\<rparr>) s) = upd_file a (\<lambda>x. x\<lparr>f_refcount := n\<rparr>) s"
    by (simp add: upd_file_def)
  show "upd_file a (\<lambda>x. x\<lparr>f_refcount := f_refcount (files s a)\<rparr>) s = s" by (rule upd_file_id) simp
qed

lemma fd_openD:
  assumes "fd_open fd a s"
  shows "open_file a s" "\<not> bad_fd fd s" "p_files_at fd s = a"
  using assms by (auto simp: fd_open_def bad_fd_def p_files_at_def open_file_def)

lemma fget_open:
  "fd_open fd a s \<Longrightarrow> fget_checked fd s = Some (a, upd_file a (\<lambda>x. x\<lparr>f_refcount := f_refcount (files s a) + 1\<rparr>) s)"
  using fr.grab_law [of a s] by (auto simp: fd_open_def fget_checked_def fget_def open_file_def kernel_consts Let_def)

text \<open>A file position may be written while a reference is held, and the reference given back.\<close>

lemma fput_pos:
  assumes "open_file a s" and "0 \<le> p"
  shows "fput a (upd_file a (\<lambda>x. x\<lparr>f_refcount := f_refcount (files s a) + 1, f_pos := p\<rparr>) s) = Some (upd_file a (\<lambda>x. x\<lparr>f_pos := p\<rparr>) s)"
proof -
  let ?s = "upd_file a (\<lambda>x. x\<lparr>f_refcount := f_refcount (files s a) + 1, f_pos := p\<rparr>) s"
  have "open_file a ?s" "1 < f_refcount (files ?s a)" using assms by (auto simp: open_file_def)
  from fr.release_law [OF this] show ?thesis by (simp add: upd_file_def)
qed

lemma fput_ref:
  assumes "open_file a s"
  shows "fput a (upd_file a (\<lambda>x. x\<lparr>f_refcount := f_refcount (files s a) + 1\<rparr>) s) = Some s"
proof -
  let ?s = "upd_file a (\<lambda>x. x\<lparr>f_refcount := f_refcount (files s a) + 1\<rparr>) s"
  have "open_file a ?s" "1 < f_refcount (files ?s a)" using assms by (auto simp: open_file_def)
  from fr.release_law [OF this] show ?thesis by (simp add: upd_file_def)
qed

section \<open>Seeking\<close>

text \<open>The position a seek asks for, in 32 bits.\<close>

definition seek_target :: "file_t \<Rightarrow> int \<Rightarrow> int \<Rightarrow> int \<Rightarrow> int" where
  "seek_target x len offset whence =
     (if whence = SEEK_SET then offset else if whence = SEEK_CUR then wrap32 (f_pos x + offset) else wrap32 (offset + len))"

lemma lseek_step:
  fixes offset whence :: int
  assumes fd: "fd_open fd a s" and vn: "in_use (f_vnode (files s a)) s"
  defines "pos \<equiv> seek_target (files s a) (vn_len (vnodes s (f_vnode (files s a)))) offset whence"
  shows "do_lseek fd offset whence s = Some (if whence \<notin> {SEEK_SET, SEEK_CUR, SEEK_END} \<or> pos < 0 then (- EINVAL, s)
    else (pos, upd_file a (\<lambda>x. x\<lparr>f_pos := pos\<rparr>) s))"
proof -
  note d = fd_openD [OF fd]
  have same: "upd_file a (\<lambda>x. x\<lparr>f_pos := f_pos (files s a)\<rparr>) s = s" by (rule upd_file_id) simp
  have "vnode_at (f_vnode (files s a)) s = Some (vnodes s (f_vnode (files s a)))" using vn by (simp add: vnode_at_def)
  then show ?thesis
    using d(2) fget_open [OF fd] fput_ref [OF d(1)] same
    by (auto simp: do_lseek_def Let_def pos_def seek_target_def seek_defs comp_def)
qed

text \<open>
  C28: \<^verbatim>\<open>do_lseek\<close> keeps the position of an open file within the range of a non-negative 32-bit number.
  It moves to the position asked for, computed in 32 bits, and returns it; a position that comes
  out negative, be it by wrapping around, or an unknown origin gives EINVAL and moves nothing.  The
  reference count and everything else stay as they were.
\<close>

theorem do_lseek_bounds:
  fixes offset whence :: int
  assumes "fd_open fd a s" and "in_use (f_vnode (files s a)) s" and "offset < 2 ^ 31" and "f_pos (files s a) < 2 ^ 31"
  defines "pos \<equiv> seek_target (files s a) (vn_len (vnodes s (f_vnode (files s a)))) offset whence"
  shows "\<exists>r s'. do_lseek fd offset whence s = Some (r, s')
    \<and> (if whence \<in> {SEEK_SET, SEEK_CUR, SEEK_END} \<and> 0 \<le> pos then r = pos \<and> s' = upd_file a (\<lambda>x. x\<lparr>f_pos := pos\<rparr>) s
       else r = - EINVAL \<and> s' = s)
    \<and> 0 \<le> f_pos (files s' a) \<and> f_pos (files s' a) < 2 ^ 31 \<and> fd_open fd a s'"
proof -
  have p: "pos < 2 ^ 31" using assms(3) wrap32_range by (simp add: pos_def seek_target_def)
  have "0 \<le> f_pos (files s a)" using fd_openD(1) [OF assms(1)] by (simp add: open_file_def)
  moreover have "0 \<le> pos \<Longrightarrow> fd_open fd a (upd_file a (\<lambda>x. x\<lparr>f_pos := pos\<rparr>) s)"
    using assms(1) by (simp add: fd_open_def open_file_def)
  ultimately show ?thesis
    using lseek_step [OF assms(1,2), of offset whence] assms(1,4) p by (auto simp: pos_def)
qed

section \<open>Reading and writing\<close>

text \<open>A descriptor of a file of the RAM file system, open for reading and writing.\<close>

definition fd_file :: "nat \<Rightarrow> int \<Rightarrow> nat \<Rightarrow> nat \<Rightarrow> ramfs_inode \<Rightarrow> nat \<Rightarrow> 8 word list \<Rightarrow> kstate \<Rightarrow> bool" where
  "fd_file f fd a ino n p bs s \<longleftrightarrow> fd_open fd a s \<and> f_mode (files s a) = FMODE_READ + FMODE_WRITE
     \<and> file_view f (f_vnode (files s a)) ino n p bs s"

lemma vop_file:
  assumes "ramfs_ok f s" and "file_view f vn ino n p bs s"
  shows "vop_read e vn off count s = do { (r, bs) \<leftarrow> ramfs_read vn off count s; Some (r, bs, s) }"
    "vop_write e vn off buf count s = ramfs_write vn off buf count s"
    "vnode_at vn s = Some (vnodes s vn)" "\<not> S_ISDIR (vn_mode (vnodes s vn))"
  using file_viewD [OF assms] assms(2) by (auto simp: vop_read_def vop_write_def vnode_at_def file_view_def)

lemma do_write_step:
  assumes ok: "ramfs_ok f s" and fd: "fd_file f fd a ino n p bs s" and c: "count \<le> length buf" "f_pos (files s a) + int count \<le> int PAGE_SIZE"
  defines "off \<equiv> f_pos (files s a)"
  defines "bs' \<equiv> splice (nat off) (take count buf) bs"
  shows "\<exists>s'. do_write e fd buf count s = Some (int count, s') \<and> ramfs_ok f s' \<and> refs f s' = refs f s
    \<and> fd_file f fd a ino (n\<lparr>rf_mem := DataPage p bs', rf_size := max (rf_size n) (off + int count)\<rparr>) p bs' s'
    \<and> files s' = (files s)(a := (files s a)\<lparr>f_pos := off + int count\<rparr>)"
proof -
  have o: "fd_open fd a s" "f_mode (files s a) = 3" "file_view f (f_vnode (files s a)) ino n p bs s"
    using fd by (auto simp: fd_file_def fmode_defs)
  note d = fd_openD [OF o(1)]
  let ?s1 = "upd_file a (\<lambda>x. x\<lparr>f_refcount := f_refcount (files s a) + 1\<rparr>) s" and ?vn = "f_vnode (files s a)"
  have arg: "0 \<le> off" "off \<le> int PAGE_SIZE" "count \<le> length buf" "int count < 2 ^ 31" "min count (nat (int PAGE_SIZE - off)) = count"
    using c d(1) by (auto simp: open_file_def off_def kernel_consts)
  have ok1: "ramfs_ok f ?s1" "file_view f ?vn ino n p bs ?s1" using ok o(3) by simp_all
  from write_step [OF ok1 arg(1-4)]
  obtain s2 where s2: "ramfs_write ?vn off buf count ?s1 = Some (int count, s2)" "ramfs_ok f s2" "refs f s2 = refs f s"
      "file_view f ?vn ino (n\<lparr>rf_mem := DataPage p bs', rf_size := max (rf_size n) (off + int count)\<rparr>) p bs' s2" "fs_frame ?s1 s2"
    unfolding arg(5) bs'_def by auto
  have fr: "files s2 = files ?s1" "cur s2 = cur s" using s2(5) by (auto simp: fs_frame_def cur_def)
  let ?s = "upd_file a (\<lambda>x. x\<lparr>f_refcount := f_refcount (files s a), f_pos := off + int count\<rparr>) s2"
  have f2: "open_file a (upd_file a (\<lambda>x. x\<lparr>f_refcount := f_refcount (files s a)\<rparr>) s2)" using d(1) fr(1) by (simp add: open_file_def)
  have "fput a (upd_file a (\<lambda>x. x\<lparr>f_pos := wrap32 (off + int count)\<rparr>) s2) = Some ?s"
    using fput_pos [OF f2, of "off + int count"] arg c fr(1) wrap32_id [of "off + int count"]
    by (simp add: comp_def kernel_consts off_def upd_file_def)
  then have "do_write e fd buf count s = Some (int count, ?s)"
    using d(2) fget_open [OF o(1)] vop_file(2-4) [OF ok1] o(2) s2(1) fr(1)
    by (simp add: do_write_def Let_def fmode_defs off_def)
  moreover have "files ?s = (files s)(a := (files s a)\<lparr>f_pos := off + int count\<rparr>)" by (simp add: fr(1))
  moreover have "fd_file f fd a ino (n\<lparr>rf_mem := DataPage p bs', rf_size := max (rf_size n) (off + int count)\<rparr>) p bs' ?s"
    using s2(4) o(1,2) arg(1) by (auto simp: fd_file_def fd_open_def open_file_def fr fmode_defs)
  ultimately show ?thesis using s2(2,3) by auto
qed

lemma do_read_step:
  assumes ok: "ramfs_ok f s" and fd: "fd_file f fd a ino n p bs s" and c: "f_pos (files s a) + int count \<le> rf_size n"
  shows "do_read e fd count s = Some (int count, take count (drop (nat (f_pos (files s a))) bs),
    upd_file a (\<lambda>x. x\<lparr>f_pos := f_pos (files s a) + int count\<rparr>) s)"
proof -
  have o: "fd_open fd a s" "f_mode (files s a) = 3" "file_view f (f_vnode (files s a)) ino n p bs s"
    using fd by (auto simp: fd_file_def fmode_defs)
  note d = fd_openD [OF o(1)]
  let ?off = "f_pos (files s a)" and ?s1 = "upd_file a (\<lambda>x. x\<lparr>f_refcount := f_refcount (files s a) + 1\<rparr>) s"
  have ok1: "ramfs_ok f ?s1" "file_view f (f_vnode (files s a)) ino n p bs ?s1" using ok o(3) by simp_all
  have b: "0 \<le> ?off" "?off + int count \<le> 4096"
    using d(1) c file_viewD(4) [OF ok o(3)] by (auto simp: open_file_def kernel_consts)
  then have "ramfs_read (f_vnode (files s a)) ?off count ?s1 = Some (int count, take count (drop (nat ?off) bs))"
    using read_range [OF ok1 _ _ c] by simp
  moreover have "fput a (upd_file a (\<lambda>x. x\<lparr>f_pos := wrap32 (?off + int count)\<rparr>) ?s1) = Some (upd_file a (\<lambda>x. x\<lparr>f_pos := ?off + int count\<rparr>) s)"
    using fput_pos [OF d(1), of "?off + int count"] b wrap32_id [of "?off + int count"] by (simp add: comp_def)
  ultimately show ?thesis
    using d(2) fget_open [OF o(1)] vop_file(1,3,4) [OF ok1] o(2)
    by (simp add: do_read_def Let_def fmode_defs)
qed

text \<open>
  C13: What a process writes through a descriptor it can read back.  On a file open for reading and
  writing, as long as the data fits into the file's page, \<^verbatim>\<open>do_write\<close> takes all of it and advances the
  position; seeking back to where the write began and reading as many bytes gives the bytes written
  and leaves the position behind them.  The calls keep every reference count and the file system's order.
\<close>

theorem write_seek_read:
  assumes "ramfs_ok f s" and "fd_file f fd a ino n p bs s"
    and "count \<le> length buf" and "f_pos (files s a) + int count \<le> int PAGE_SIZE"
  shows "\<exists>s1 s2 s3. do_write e fd buf count s = Some (int count, s1)
     \<and> do_lseek fd (f_pos (files s a)) SEEK_SET s1 = Some (f_pos (files s a), s2)
     \<and> do_read e fd count s2 = Some (int count, take count buf, s3)
     \<and> ramfs_ok f s3 \<and> refs f s3 = refs f s \<and> files s3 = (files s)(a := (files s a)\<lparr>f_pos := f_pos (files s a) + int count\<rparr>)"
proof -
  let ?off = "f_pos (files s a)" and ?bs = "splice (nat (f_pos (files s a))) (take count buf) bs"
  let ?n = "n\<lparr>rf_mem := DataPage p ?bs, rf_size := max (rf_size n) (?off + int count)\<rparr>"
  obtain s1 where s1: "do_write e fd buf count s = Some (int count, s1)" "ramfs_ok f s1" "refs f s1 = refs f s"
      "fd_file f fd a ino ?n p ?bs s1" "files s1 = (files s)(a := (files s a)\<lparr>f_pos := ?off + int count\<rparr>)"
    using do_write_step [OF assms, of e] by blast
  have o: "fd_open fd a s1" "in_use (f_vnode (files s1 a)) s1" "0 \<le> ?off"
    using s1(4) assms(2) by (auto simp: fd_file_def file_view_def fd_open_def open_file_def)
  define s2 where "s2 = upd_file a (\<lambda>x. x\<lparr>f_pos := ?off\<rparr>) s1"
  have l: "do_lseek fd ?off SEEK_SET s1 = Some (?off, s2)"
    using lseek_step [OF o(1,2), of ?off SEEK_SET] o(3) by (simp add: seek_target_def s2_def)
  have v: "fd_file f fd a ino ?n p ?bs s2" "ramfs_ok f s2" "f_pos (files s2 a) = ?off"
    using s1(2,4) o(3) by (auto simp: s2_def fd_file_def fd_open_def open_file_def)
  have "length bs = PAGE_SIZE" using file_viewD(2) [OF assms(1)] assms(2) by (auto simp: fd_file_def)
  then have "take count (drop (nat ?off) ?bs) = take count buf"
    using splice_read [of "nat ?off" "take count buf" bs] assms(3,4) o(3) by simp
  then have "do_read e fd count s2 = Some (int count, take count buf, upd_file a (\<lambda>x. x\<lparr>f_pos := ?off + int count\<rparr>) s2)"
    using do_read_step [OF v(2,1), of count e] v(3) by simp
  then show ?thesis using s1 l v(2) by (auto simp: s2_def)
qed

section \<open>Descriptors\<close>

text \<open>The files of the current process, as a list.\<close>

abbreviation fds :: "kstate \<Rightarrow> nat list" where "fds s \<equiv> p_files (cur s)"

lemma get_empty_fd_least:
  "get_empty_fd p = (if 0 \<in> set (p_files p) then int (LEAST k. k < length (p_files p) \<and> p_files p ! k = 0) else - EMFILE)"
proof (cases "find_idx (\<lambda>f. f = 0) (p_files p)")
  case None
  then have "0 \<notin> set (p_files p)" unfolding find_idx_None by blast
  with None show ?thesis by (simp add: get_empty_fd_def)
next
  case (Some k)
  then have k: "k < length (p_files p)" "p_files p ! k = 0" "\<forall>j<k. p_files p ! j \<noteq> 0" by (auto simp: find_idx_Some)
  then have "(LEAST k. k < length (p_files p) \<and> p_files p ! k = 0) = k" by (intro Least_equality) (auto simp: not_less [symmetric])
  moreover have "0 \<in> set (p_files p)" using k nth_mem by metis
  ultimately show ?thesis using Some by (simp add: get_empty_fd_def)
qed


section \<open>Unlinking by path\<close>

text \<open>A path whose directories are all in use ends at the vnode of the last one, with a reference more.\<close>

lemma dir_namev_in_use:
  assumes ok: "ramfs_ok f s" and p: "path_parts path cs name" "vnode_search f i s = Some (path_start path s)"
    and j: "path_ino (nodes f s) i cs = Some j"
    and use: "\<forall>m\<le>length cs. refs f s (the (path_ino (nodes f s) i (take m cs))) \<noteq> 0"
  obtains dv where "dir_namev e path s = Some (0, name, Some dv, add_ref dv 1 s)" "vnode_search f j s = Some dv"
proof -
  have co: "cache_ok f s" using ramfs_stD(1) [OF ok] .
  have "refs f s j \<noteq> 0" using use [rule_format, of "length cs"] j by simp
  then obtain dv where dv: "vnode_search f j s = Some dv" using refs_zero [OF co, of j] by auto
  have "dir_namev e path s = Some (0, name, Some dv, add_ref dv 1 s)"
  proof (cases cs rule: rev_cases)
    case Nil
    then have "path_start path s = dv" using p(2) j dv by simp
    then show ?thesis using dir_namev_parts [OF p(1), of e s] Nil vref_ok [OF co] vnode_search_Some [OF dv] by simp
  next
    case (snoc ds c)
    then obtain k where k: "path_ino (nodes f s) i ds = Some k" "child_ino (nodes f s) k c = Some j"
      using j by (auto simp: path_ino_append split: option.splits)
    have c: "name_ok c" "\<forall>c\<in>set ds. name_ok c" using path_partsD(1) [OF p(1)] snoc by auto
    have "refs f s (the (path_ino (nodes f s) i (take m ds))) \<noteq> 0" if "m \<le> length ds" for m
      using use [rule_format, of m] that snoc by simp
    then obtain v where v: "namev_walk e (path_start path s) ds s = Some (0, v, None, s)" "vnode_search f k s = Some v"
      using namev_walk_in_use [OF ok c(2) p(2) k(1), of e] by blast
    then show ?thesis
      using dir_namev_parts [OF p(1), of e s] lookup_vget [OF ok v(2) k(2) c(1), of e] vget_hit [OF co dv, of e] snoc by simp
  qed
  with dv that show thesis by blast
qed

lemma unlink_at:
  assumes ok: "ramfs_ok f s" and v: "dir_view f dv j es s"
    and nn: "names_node f name es ino n s" "rf_mode n \<noteq> RAMFS_TYPE_DIR"
  obtains r s1 s2 s' where "lookup e dv name (length name) s = Some (0, Some r, s1)" "vnode_at r s1 = Some (vnodes s1 r)"
    "\<not> S_ISDIR (vn_mode (vnodes s1 r))" "vop_dir dv s1 = Some ()"
    "ramfs_unlink e dv name (length name) s1 = Some (0, s2)" "vput r s2 = Some s'" "ramfs_ok f s'" "refs f s' = refs f s"
    "dirents dv s' = Some (dir_delete name es)" "dir_abs (dir_delete name es) = (dir_abs es)(name := None)" "in_use dv s'" "ino_of dv s' = j"
    "nodes f s' ino = (if refs f s ino = 0 \<and> rf_linkcount n = 1 then None else Some (n\<lparr>rf_linkcount := rf_linkcount n - 1\<rparr>))"
proof -
  have nm: "name_ok name" "\<not> is_dot name" "dir_abs es name = Some ino" and n: "nodes f s ino = Some n" "vget_room f ino s"
    using nn(1) by (auto simp: names_node_def)
  let ?n = "n\<lparr>rf_linkcount := rf_linkcount n + of_bool (refs f s ino = 0)\<rparr>"
  have r0: "0 \<le> refs f s ino" using refs_nonneg [OF ramfs_stD(1) [OF ok]] .
  obtain r s1 where s1: "vget e f ino s = Some (r, s1)" "ramfs_ok f s1" "in_use r s1" "ino_of r s1 = ino"
      "refs f s1 = (refs f s)(ino := refs f s ino + 1)" "nodes f s1 = (nodes f s)(ino \<mapsto> ?n)" "dir_view f dv j es s1"
    by (rule vget_view [OF ok n(1) node_linkcount_nonneg [OF ok n(1)] n(2), of e]) (use v in blast)
  obtain m where m: "nodes f s j = Some m" "rf_mode m = RAMFS_TYPE_DIR" "entries m = es"
    using dir_node [OF ok] v unfolding dir_view_def by metis
  have dv: "vnode_search f j s = Some dv" "in_use dv s1" "ino_of dv s1 = j"
    using vnode_search_hit [OF ramfs_stD(1) [OF ok], of dv] v s1(7) by (auto simp: dir_view_def)
  have "child_ino (nodes f s) j name = Some ino" using m nm(3) by (simp add: child_ino_def)
  then have look: "lookup e dv name (length name) s = Some (0, Some r, s1)" using lookup_vget [OF ok dv(1) _ nm(1), of ino e] s1(1) by simp
  have n1: "nodes f s1 ino = Some ?n" "rf_mode ?n \<noteq> RAMFS_TYPE_DIR" "vget_room f ino s1"
    using s1(5,6) nn(2) r0 by (auto simp: vget_room_def)
  have kind: "\<not> S_ISDIR (vn_mode (vnodes s1 r))"
    using vn_shape_kind [OF vnode_okD(3) [OF cache_ok_vnode [OF ramfs_stD(1) [OF s1(2)] s1(3)]]] vnode_node(1) [OF s1(2,3)] n1 s1(4)
    by (auto simp: vn_kind_def mode_defs split: rftype.splits)
  have m1: "nodes f s1 j = Some m" "ino \<noteq> j" using m n(1) nn(2) s1(6) by auto
  have vd: "vop_dir dv s1 = Some ()"
    using dir_vnode [OF s1(2) vnode_search_hit [OF ramfs_stD(1) [OF s1(2)] dv(2)], of m] dv m1(1) m(2) by (simp add: vop_dir_def vnode_at_def)
  obtain s2 where s2: "ramfs_unlink e dv name (length name) s1 = Some (0, s2)" "ramfs_ok f s2" "refs f s2 = refs f s1"
      "dirents dv s2 = Some (dir_delete name es)" "dir_abs (dir_delete name es) = (dir_abs es)(name := None)"
      "nodes f s2 ino = Some (?n\<lparr>rf_linkcount := rf_linkcount ?n - 1\<rparr>)" "\<And>w. in_use w s1 \<Longrightarrow> in_use w s2 \<and> ino_of w s2 = ino_of w s1"
    using unlink_step [OF s1(2,7) nm n1, of e] s1(5) r0 by auto
  have u2: "in_use r s2" "ino_of r s2 = ino" "in_use dv s2" "ino_of dv s2 = j" "r \<noteq> dv"
    using s2(7) [OF s1(3)] s2(7) [OF dv(2)] s1(4) dv(3) m1(2) by auto
  have n2: "nodes f s2 (ino_of r s2) = Some (?n\<lparr>rf_linkcount := rf_linkcount ?n - 1\<rparr>)" using s2(6) u2(2) by simp
  obtain s' where s': "vput r s2 = Some s'" "ramfs_ok f s'" "refs f s' = (refs f s2)(ino := refs f s2 ino - 1)"
      "nodes f s' = (if refs f s2 ino = 1 \<and> rf_linkcount ?n - 1 = 1 then (nodes f s2)(ino := None)
         else (nodes f s2)(ino \<mapsto> ?n\<lparr>rf_linkcount := rf_linkcount ?n - 1 - of_bool (refs f s2 ino = 1)\<rparr>))"
      "in_use dv s'" "ino_of dv s' = j"
    by (rule vput_view [OF s2(2) u2(1) _ n2]) (use u2 in auto)
  have "nodes f s' j = nodes f s2 j" using s'(4) m1(2) by simp
  then have d: "dirents dv s' = Some (dir_delete name es)"
    using vnode_node(1) [OF s'(2,5)] vnode_node(1) [OF s2(2) u2(3)] s2(4) u2(4) s'(6) by (simp add: dirents_def)
  have "refs f s' = refs f s" using s'(3) s2(3) s1(5) by auto
  moreover have "nodes f s' ino = (if refs f s ino = 0 \<and> rf_linkcount n = 1 then None else Some (n\<lparr>rf_linkcount := rf_linkcount n - 1\<rparr>))"
    using s'(4) s2(3) s1(5) by (cases "refs f s ino = 0") auto
  ultimately show thesis using that look kind vd s1(3) s2(1,5) s'(1,2,5,6) d by (simp add: vnode_at_def)
qed


section \<open>Examples\<close>

text \<open>The example file system with descriptor 0 open on a file, for reading and writing.\<close>

definition demo_with_fd :: "nat \<Rightarrow> kstate" where
  "demo_with_fd vn = upd_file 3000 (\<lambda>_. \<lparr>f_pos = 0, f_mode = 3, f_refcount = 1, f_vnode = vn\<rparr>) (set_fd 0 3000 demo_open)"

lemma demo_fd:
  obtains vn n p bs where "ramfs_ok 500 (demo_with_fd vn)" "fd_file 500 0 3000 1 n p bs (demo_with_fd vn)" "f_pos (files (demo_with_fd vn) 3000) = 0"
    "fds (demo_with_fd vn) = 3000 # replicate 31 0"
proof -
  obtain vn n p bs where v: "file_view 500 vn 1 n p bs demo_open" using demo_open_view(3) by blast
  have "vn \<noteq> 0" using vnode_okD(1) [OF cache_ok_vnode [OF ramfs_stD(1) [OF demo_open_view(1)], of vn]] v by (simp add: file_view_def)
  have c: "fds (demo_with_fd vn) = 3000 # replicate 31 0"
    using demo_open_view(2) replicate_Suc [of 31 "0 :: nat"]
    by (simp add: demo_with_fd_def set_fd_def cur_def upd_proc_def fs_frame_def demo_fs_def)
  have fl: "files (demo_with_fd vn) 3000 = \<lparr>f_pos = 0, f_mode = 3, f_refcount = 1, f_vnode = vn\<rparr>" by (simp add: demo_with_fd_def)
  have ok: "ramfs_ok 500 (demo_with_fd vn)" "file_view 500 vn 1 n p bs (demo_with_fd vn)"
    using demo_open_view(1) v by (simp_all add: demo_with_fd_def)
  have fo: "fd_open 0 3000 (demo_with_fd vn)"
    using \<open>vn \<noteq> 0\<close> by (simp add: fd_open_def open_file_def fl c kernel_consts)
  then have "fd_file 500 0 3000 1 n p bs (demo_with_fd vn)" using ok(2) by (simp add: fd_file_def fl fmode_defs)
  moreover have "f_pos (files (demo_with_fd vn) 3000) = 0" by (simp add: fl)
  ultimately show thesis using that ok(1) c by blast
qed

theorem write_seek_read_witness:
  "\<exists>s s1 s2 s3. do_write demo_env 0 [1, 2, 3] 3 s = Some (3, s1) \<and> do_lseek 0 0 SEEK_SET s1 = Some (0, s2)
     \<and> do_read demo_env 0 3 s2 = Some (3, [1, 2, 3], s3)"
proof -
  obtain vn n p bs where d: "ramfs_ok 500 (demo_with_fd vn)" "fd_file 500 0 3000 1 n p bs (demo_with_fd vn)"
    "f_pos (files (demo_with_fd vn) 3000) = 0" by (rule demo_fd)
  from write_seek_read [OF d(1,2), of 3 "[1, 2, 3]" demo_env] d(3) show ?thesis by (auto simp: kernel_consts)
qed

theorem do_lseek_bounds_witness:
  "\<exists>s. do_lseek 0 (-1) SEEK_CUR s = Some (- EINVAL, s)"
proof -
  obtain vn n p bs where d: "fd_file 500 0 3000 1 n p bs (demo_with_fd vn)" "f_pos (files (demo_with_fd vn) 3000) = 0" by (rule demo_fd)
  then have "fd_open 0 3000 (demo_with_fd vn)" "in_use (f_vnode (files (demo_with_fd vn) 3000)) (demo_with_fd vn)"
    by (auto simp: fd_file_def file_view_def)
  from do_lseek_bounds [OF this, of "-1" SEEK_CUR] d(2) show ?thesis
    by (auto simp: seek_target_def seek_defs wrap32_def)
qed



end
