(* ===== verification/Proc.thy ===== *)
theory Proc
  imports Vfs_Props
begin

text \<open>
  Threads and processes: \<^verbatim>\<open>kernel/proc/kthread.c\<close> and \<^verbatim>\<open>kernel/proc/proc.c\<close>.  A process's wait queue
  is named by the process.  A process is on the list of its parent's children or on none, a thread
  on the list of its process's threads or on none; putting a link that is still on a list on
  another would tangle the two lists and is a fault.  \<open>leave\<close> is the last \<^verbatim>\<open>sched_switch\<close> of a
  thread, which does not return to it.
\<close>

definition p_wait :: "nat \<Rightarrow> nat" where "p_wait p = p"

definition PROC_MAX_COUNT :: int where "PROC_MAX_COUNT = 65536"
definition PROC_NAME_LEN :: nat where "PROC_NAME_LEN = 256"
definition DEFAULT_STACK_SIZE :: nat where "DEFAULT_STACK_SIZE = 57344"
definition PID_IDLE :: int where "PID_IDLE = 0"
definition PID_INIT :: int where "PID_INIT = 1"

lemmas proc_consts = PROC_MAX_COUNT_def PROC_NAME_LEN_def DEFAULT_STACK_SIZE_def PID_IDLE_def PID_INIT_def

section \<open>Process identifiers\<close>

text \<open>The search of \<^verbatim>\<open>_proc_getid\<close>, over the identifiers in use; it starts again at each clash.\<close>

partial_function (option) getid_loop :: "int list \<Rightarrow> int \<Rightarrow> int \<Rightarrow> int option" where
  [code]: "getid_loop pids first pid =
     (if pid \<in> set pids
      then let pid' = (pid + 1) mod PROC_MAX_COUNT
           in if pid' = first then Some (-1) else getid_loop pids first pid'
      else Some pid)"

definition proc_getid :: "'a kprocs_scheme \<Rightarrow> (int \<times> 'a kprocs_scheme) option" where
  "proc_getid s = do {
     pid \<leftarrow> getid_loop (map (\<lambda>p. p_pid (procs s p)) (proc_list s)) (next_pid s) (next_pid s);
     if pid = -1 then Some (-1, s)
     else Some (pid, s\<lparr>next_pid := (pid + 1) mod PROC_MAX_COUNT\<rparr>)
   }"

definition proc_lookup :: "int \<Rightarrow> 'a kprocs_scheme \<Rightarrow> nat" where
  "proc_lookup pid s =
     (case List.find (\<lambda>p. p_pid (procs s p) = pid) (proc_list s) of Some p \<Rightarrow> p | None \<Rightarrow> 0)"

section \<open>Creation\<close>

definition proc_create :: "string \<Rightarrow> kstate \<Rightarrow> (nat \<times> kstate) option" where
  "proc_create name s = do {
     let (new, s1) = alloc s;
     (pid, s2) \<leftarrow> proc_getid s1;
     kassert (new \<noteq> 0);
     kassert (pid = 0 \<longrightarrow> proc_list s2 = []);
     kassert (pid = PID_INIT \<longrightarrow> curproc s2 \<noteq> 0 \<and> p_pid (cur s2) = PID_IDLE);
     let s3 = (if pid = PID_INIT then s2\<lparr>proc_initproc := new\<rparr> else s2);
     kassert (pid > 2 \<longrightarrow> curproc s3 \<noteq> 0);
     s4 \<leftarrow> (if pid > 2 then vref (p_cwd (cur s3)) s3 else Some s3);
     kassert (length name < PROC_NAME_LEN);
     let s5 = upd_proc new (\<lambda>_. \<lparr>p_pid = pid, p_comm = name, p_pproc = curproc s4, p_status = 0,
       p_state = PROC_RUNNING, p_pagedir = pt_current s4, p_files = replicate NFILES 0,
       p_cwd = (if pid > 2 then p_cwd (cur s4) else 0)\<rparr>) s4;
     let s6 = s5\<lparr>p_threads := (p_threads s5)(new := []), p_children := (p_children s5)(new := [])\<rparr>;
     let s7 = sched_queue_init (p_wait new) s6;
     let s8 = s7\<lparr>proc_list := proc_list s7 @ [new]\<rparr>;
     if pid > 0 then do {
       let pp = p_pproc (procs s8 new);
       kassert (pp \<noteq> 0);
       Some (new, s8\<lparr>p_children := (p_children s8)(pp := p_children s8 pp @ [new])\<rparr>)
     } else Some (new, s8)
   }"

definition kthread_create ::
  "nat \<Rightarrow> nat \<Rightarrow> 32 word \<Rightarrow> 32 word \<Rightarrow> kstate \<Rightarrow> (nat \<times> kstate) option" where
  "kthread_create p func arg1 arg2 s = do {
     kassert (p \<noteq> 0);
     let (t, s1) = alloc s;
     kassert (t \<noteq> 0);
     let (kstack, s2) = alloc s1;
     (ctx, m) \<leftarrow> context_setup func arg1 arg2 (of_nat kstack) (of_nat DEFAULT_STACK_SIZE)
       (p_pagedir (procs s2 p)) (stack_mem (cpu_st s2));
     let s3 = s2\<lparr>kt := (kt s2)(t := \<lparr>kt_ctx = ctx, kt_kstack = kstack, kt_retval = None, kt_errno = 0,
                  kt_proc = p, kt_cancelled = 0, kt_wchan = 0, kt_state = KT_RUN\<rparr>),
                qh := list_init t (qh s2), cpu_st := (cpu_st s2)\<lparr>stack_mem := m\<rparr>\<rparr>;
     Some (t, s3\<lparr>p_threads := (p_threads s3)(p := p_threads s3 p @ [t])\<rparr>)
   }"

definition kthread_destroy :: "nat \<Rightarrow> kstate \<Rightarrow> kstate option" where
  "kthread_destroy t s = do {
     kassert (t \<noteq> 0 \<and> kt_kstack (kt s t) \<noteq> 0);
     let s1 = free_obj (kt_kstack (kt s t)) s;
     let p = kt_proc (kt s1 t);
     let s2 = s1\<lparr>p_threads := (p_threads s1)(p := remove1 t (p_threads s1 p))\<rparr>;
     Some (free_obj t s2)
   }"

section \<open>Exit\<close>

partial_function (option) wait_children :: "env \<Rightarrow> kstate \<Rightarrow> kstate option" where
  [code]: "wait_children e s =
     (if p_children s (curproc s) = [] then Some s else e_switch e s \<bind> wait_children e)"

text \<open>One child of an exiting process goes to the init process.\<close>

definition reparent :: "nat \<Rightarrow> kstate \<Rightarrow> kstate option" where
  "reparent p s =
     (let pp = p_pproc (procs s p); i = proc_initproc s in
      if p \<in> set (p_children s pp) then do {
        kassert (i \<noteq> 0);
        let s1 = s\<lparr>p_children := (p_children s)(pp := remove1 p (p_children s pp))\<rparr>;
        let s2 = upd_proc p (\<lambda>x. x\<lparr>p_pproc := i\<rparr>) s1;
        Some (s2\<lparr>p_children := (p_children s2)(i := p_children s2 i @ [p])\<rparr>)
      } else Some s)"

definition close_all :: "kstate \<Rightarrow> kstate option" where
  "close_all s = foldM (\<lambda>fd s.
     if p_files (cur s) ! fd \<noteq> 0 then map_option snd (do_close (int fd) s) else Some s) [0..<NFILES] s"

definition wake_parent :: "kstate \<Rightarrow> kstate option" where
  "wake_parent s =
     (let pp = p_pproc (cur s) in
      foldM (\<lambda>t s. if kt_state (kt s t) = KT_SLEEP
                   then map_option snd (sched_wakeup_on (p_wait pp) s) else Some s) (p_threads s pp) s)"

definition proc_cleanup :: "env \<Rightarrow> int \<Rightarrow> kstate \<Rightarrow> kstate option" where
  "proc_cleanup e status s = do {
     kassert (1 \<le> p_pid (cur s));
     kassert (p_pproc (cur s) \<noteq> 0);
     s1 \<leftarrow> (if curproc s = proc_initproc s then do { kassert (proc_initproc s \<noteq> 0); wait_children e s }
           else Some s);
     s2 \<leftarrow> close_all s1;
     s3 \<leftarrow> vput (p_cwd (cur s2)) s2;
     s4 \<leftarrow> foldM reparent (p_children s3 (curproc s3)) s3;
     let s5 = upd_proc (curproc s4) (\<lambda>p. p\<lparr>p_state := PROC_DEAD, p_status := status\<rparr>) s4;
     wake_parent s5
   }"

definition proc_thread_exited :: "env \<Rightarrow> int option \<Rightarrow> kstate \<Rightarrow> kstate option" where
  "proc_thread_exited e retval s = do { status \<leftarrow> retval; proc_cleanup e status s }"

definition kthread_exit ::
  "(kstate \<Rightarrow> kstate option) \<Rightarrow> env \<Rightarrow> int option \<Rightarrow> kstate \<Rightarrow> kstate option" where
  "kthread_exit leave e retval s = do {
     let t = curthr s;
     kassert (kt_wchan (kt s t) = 0);
     kassert (l_next (qh s t) = 0 \<and> l_prev (qh s t) = 0);
     kassert (kt_proc (kt s t) = curproc s);
     let s1 = upd_kt t (\<lambda>k. k\<lparr>kt_retval := retval, kt_state := KT_EXITED\<rparr>) s;
     s2 \<leftarrow> proc_thread_exited e retval s1;
     leave s2
   }"

definition kthread_cancel ::
  "(kstate \<Rightarrow> kstate option) \<Rightarrow> env \<Rightarrow> nat \<Rightarrow> int option \<Rightarrow> kstate \<Rightarrow> kstate option" where
  "kthread_cancel leave e kthr retval s = do {
     kassert (kthr \<noteq> 0);
     if kthr = curthr s then kthread_exit leave e retval s
     else if kt_state (kt s kthr) = KT_SLEEP_CANCELLABLE
     then sched_cancel kthr (upd_kt kthr (\<lambda>k. k\<lparr>kt_retval := retval\<rparr>) s)
     else if kt_state (kt s kthr) = KT_SLEEP \<or> kt_state (kt s kthr) = KT_RUN
     then Some (upd_kt kthr (\<lambda>k. k\<lparr>kt_cancelled := 1, kt_retval := retval\<rparr>) s)
     else Some s
   }"

definition do_exit :: "(kstate \<Rightarrow> kstate option) \<Rightarrow> env \<Rightarrow> int \<Rightarrow> kstate \<Rightarrow> kstate option" where
  "do_exit leave e status s = kthread_cancel leave e (curthr s) (Some status) s"

text \<open>
  \<^verbatim>\<open>sched_switch\<close> calls \<^verbatim>\<open>do_exit\<close> when it picks a cancelled thread, which calls \<^verbatim>\<open>sched_switch\<close> again;
  \<open>switch_depth\<close> allows for \<open>n\<close> cancelled threads in a row.
\<close>

fun switch_depth ::
  "nat \<Rightarrow> (code_ptr \<Rightarrow> 32 word) \<Rightarrow> (kstate \<Rightarrow> kstate) \<Rightarrow> env \<Rightarrow> kstate \<Rightarrow> kstate option" where
  "switch_depth 0 enc iw e s = sched_switch enc iw (\<lambda>_. None) s"
| "switch_depth (Suc n) enc iw e s = sched_switch enc iw (do_exit (switch_depth n enc iw e) e 0) s"

section \<open>Killing\<close>

definition proc_kill ::
  "(kstate \<Rightarrow> kstate option) \<Rightarrow> env \<Rightarrow> nat \<Rightarrow> int \<Rightarrow> kstate \<Rightarrow> kstate option" where
  "proc_kill leave e p status s =
     (if p = curproc s then do_exit leave e status s
      else foldM (\<lambda>t s. if kt_state (kt s t) \<noteq> KT_EXITED
                        then kthread_cancel leave e t (Some status) s else Some s) (p_threads s p) s)"

text \<open>\<^verbatim>\<open>init\<close> is set only when the loop meets the init process and that has a thread.\<close>

definition kill_all_step :: "nat \<Rightarrow> nat option \<times> kstate \<Rightarrow> (nat option \<times> kstate) option" where
  "kill_all_step p st = do {
     let (init, s) = st;
     let pid = p_pid (procs s p);
     let pp = p_pproc (procs s p);
     kassert (pid \<noteq> PID_INIT \<and> pid \<noteq> PID_IDLE \<longrightarrow> pp \<noteq> 0);
     let s1 = (if pid \<noteq> PID_INIT \<and> pid \<noteq> PID_IDLE \<and> p_pid (procs s pp) \<noteq> PID_IDLE
               then fold (\<lambda>t. set_state t KT_EXITED) (p_threads s p)
                      (upd_proc p (\<lambda>x. x\<lparr>p_state := PROC_DEAD\<rparr>) s)
               else s);
     let init1 = (if pid = PID_INIT \<and> p_threads s1 p \<noteq> [] then Some (last (p_threads s1 p)) else init);
     Some (init1, s1)
   }"

definition proc_kill_all :: "(code_ptr \<Rightarrow> 32 word) \<Rightarrow> kstate \<Rightarrow> kstate option" where
  "proc_kill_all enc s = do {
     (init, s1) \<leftarrow> foldM kill_all_step (proc_list s) (None, s);
     t \<leftarrow> init;
     let old = curthr s1;
     let s2 = s1\<lparr>curthr := t, curproc := kt_proc (kt s1 t)\<rparr>;
     s3 \<leftarrow> (if old \<noteq> t then do {
             h \<leftarrow> list_remove t (qh s2);
             Some (set_wchan t 0 (s2\<lparr>qh := h\<rparr>))
           } else Some s2);
     Some (switch_to enc old t s3)
   }"

section \<open>Waiting\<close>

text \<open>A dead child leaves its parent's list; children it still has would tangle the lists.\<close>

definition unlink_child :: "nat \<Rightarrow> kstate \<Rightarrow> kstate option" where
  "unlink_child p s =
     (let pp = p_pproc (procs s p) in
      if p \<in> set (p_children s pp) then do {
        kassert (p_children s p = []);
        Some (s\<lparr>p_children := (p_children s)(pp := remove1 p (p_children s pp))\<rparr>)
      } else Some s)"

definition free_proc :: "nat \<Rightarrow> kstate \<Rightarrow> kstate" where
  "free_proc p s =
     (let s1 = s\<lparr>proc_list := remove1 p (proc_list s)\<rparr>;
          pp = p_pproc (procs s1 p);
          s2 = s1\<lparr>p_children := (p_children s1)(pp := remove1 p (p_children s1 pp))\<rparr>
      in free_obj p s2)"

text \<open>
  The scan of the children for a dead one: how many were seen, the last identifier found, the
  process the variable \<^verbatim>\<open>p\<close> is left at, and the state.
\<close>

fun waitpid_scan ::
  "nat list \<Rightarrow> nat \<Rightarrow> int \<Rightarrow> nat \<Rightarrow> kstate \<Rightarrow> (nat \<times> int \<times> nat \<times> kstate) option" where
  "waitpid_scan [] count pid p s = Some (count, pid, p, s)"
| "waitpid_scan (c # cs) count pid p s = do {
     kassert (c \<noteq> 0);
     kassert (p_pagedir (procs s c) \<noteq> 0);
     if p_state (procs s c) = PROC_DEAD then do {
       s1 \<leftarrow> unlink_child c s;
       case List.find (\<lambda>t. kt_state (kt s1 t) = KT_EXITED) (p_threads s1 c) of
         Some t \<Rightarrow> do { s2 \<leftarrow> kthread_destroy t s1; Some (count + 1, p_pid (procs s c), c, s2) }
       | None \<Rightarrow> waitpid_scan cs (count + 1) (p_pid (procs s c)) c s1
     } else waitpid_scan cs count pid c s
   }"

partial_function (option) waitpid_any :: "env \<Rightarrow> kstate \<Rightarrow> (int \<times> kstate) option" where
  [code]: "waitpid_any e s =
     (if p_children s (curproc s) = [] then Some (-1, s)
      else waitpid_scan (p_children s (curproc s)) 0 (-1) 0 s \<bind> (\<lambda>(count, pid, p, s1).
        if count = 0 then sched_sleep_on (e_switch e) (p_wait (curproc s1)) s1 \<bind> waitpid_any e
        else Some (pid, free_proc p s1)))"

partial_function (option) waitpid_dead :: "env \<Rightarrow> nat \<Rightarrow> kstate \<Rightarrow> kstate option" where
  [code]: "waitpid_dead e p s =
     (if p_state (procs s p) = PROC_DEAD then unlink_child p s
      else sched_sleep_on (e_switch e) (p_wait (curproc s)) s \<bind> waitpid_dead e p)"

definition do_waitpid :: "env \<Rightarrow> int \<Rightarrow> int \<Rightarrow> kstate \<Rightarrow> (int \<times> kstate) option" where
  "do_waitpid e pid options s = do {
     kassert (proc_lookup pid s = 0 \<longrightarrow> pid = -1);
     if options \<noteq> 0 \<and> pid < -1 then Some (- ECHILD, s)
     else if pid = -1 then
       (if p_children s (curproc s) = [] then Some (- ECHILD, s) else waitpid_any e s)
     else
       let p = proc_lookup pid s in
       if p_pproc (procs s p) \<noteq> curproc s then Some (- ECHILD, s)
       else case List.find (\<lambda>c. p_pid (procs s c) = pid) (p_children s (curproc s)) of
         None \<Rightarrow> Some (- ECHILD, s)
       | Some c \<Rightarrow> do {
           s1 \<leftarrow> waitpid_dead e c s;
           s2 \<leftarrow> foldM (\<lambda>t s. if kt_state (kt s t) = KT_EXITED then kthread_destroy t s else Some s)
                  (p_threads s1 c) s1;
           Some (pid, free_proc c s2)
         }
   }"

end
