(* ===== verification/Proc_Props.thy ===== *)
theory Proc_Props
  imports Proc
begin

text \<open>
  What the process calls promise: identifiers are fresh, the process list and the lists of children
  stay consistent, an exiting process hands its children to init, and waiting reaps a dead child.
\<close>

section \<open>Identifiers\<close>

text \<open>The identifiers in the order \<^verbatim>\<open>_proc_getid\<close> tries them, and the first free one of them.\<close>

definition pid_order :: "int \<Rightarrow> int list" where
  "pid_order first = map (\<lambda>k. (first + int k) mod PROC_MAX_COUNT) [0..<nat PROC_MAX_COUNT]"

definition first_free :: "int list \<Rightarrow> int list \<Rightarrow> int" where
  "first_free pids ps = (case List.find (\<lambda>p. p \<notin> set pids) ps of Some p \<Rightarrow> p | None \<Rightarrow> -1)"

lemma pid_order_set: "set (pid_order first) = {0..<PROC_MAX_COUNT}"
proof -
  have "p \<in> set (pid_order first)" if "0 \<le> p" "p < PROC_MAX_COUNT" for p
  proof -
    have "(first + int (nat ((p - first) mod PROC_MAX_COUNT))) mod PROC_MAX_COUNT = p"
      using that by (simp add: mod_add_right_eq proc_consts)
    moreover have "nat ((p - first) mod PROC_MAX_COUNT) < nat PROC_MAX_COUNT" by (simp add: proc_consts)
    ultimately show ?thesis unfolding pid_order_def by (auto simp: image_iff intro!: bexI [of _ "nat ((p - first) mod PROC_MAX_COUNT)"])
  qed
  then show ?thesis by (auto simp: pid_order_def proc_consts)
qed

lemma getid_loop_from:
  assumes f: "0 \<le> first" "first < PROC_MAX_COUNT"
  shows "k < nat PROC_MAX_COUNT \<Longrightarrow>
    getid_loop pids first ((first + int k) mod PROC_MAX_COUNT) = Some (first_free pids (drop k (pid_order first)))"
proof (induction "nat PROC_MAX_COUNT - k" arbitrary: k)
  case (Suc d)
  let ?p = "(first + int k) mod PROC_MAX_COUNT"
  have len: "length (pid_order first) = nat PROC_MAX_COUNT" by (simp add: pid_order_def)
  have d: "drop k (pid_order first) = ?p # drop (Suc k) (pid_order first)"
    using Suc.prems Cons_nth_drop_Suc [of k "pid_order first"] len by (simp add: pid_order_def)
  have next_p: "(?p + 1) mod PROC_MAX_COUNT = (first + int (Suc k)) mod PROC_MAX_COUNT"
    using mod_add_left_eq [of "first + int k" PROC_MAX_COUNT 1] by (simp add: algebra_simps)
  show ?case
  proof (cases "?p \<in> set pids")
    case False
    then show ?thesis by (subst getid_loop.simps) (simp add: d first_free_def)
  next
    case True
    show ?thesis
    proof (cases "Suc k = nat PROC_MAX_COUNT")
      case True
      then have "(first + int (Suc k)) mod PROC_MAX_COUNT = first" using f by (simp add: proc_consts)
      then show ?thesis using \<open>?p \<in> set pids\<close> next_p True len
        by (subst getid_loop.simps) (simp add: d first_free_def Let_def)
    next
      case False
      then have k: "Suc k < nat PROC_MAX_COUNT" using Suc.prems by simp
      have "(first + int (Suc k)) mod PROC_MAX_COUNT \<noteq> first"
      proof
        assume "(first + int (Suc k)) mod PROC_MAX_COUNT = first"
        then have "PROC_MAX_COUNT dvd int (Suc k)" using f by (metis add_diff_cancel_left' mod_eq_dvd_iff mod_pos_pos_trivial)
        then show False using k zdvd_imp_le [of PROC_MAX_COUNT "int (Suc k)"] by simp
      qed
      moreover have "getid_loop pids first ((first + int (Suc k)) mod PROC_MAX_COUNT) = Some (first_free pids (drop (Suc k) (pid_order first)))"
        using Suc.hyps(1) [of "Suc k"] Suc.hyps(2) k by simp
      ultimately show ?thesis using \<open>?p \<in> set pids\<close> next_p
        by (subst getid_loop.simps) (simp add: d first_free_def Let_def)
    qed
  qed
qed simp

text \<open>The identifiers in use.\<close>

definition pids :: "'a kprocs_scheme \<Rightarrow> int list" where
  "pids s = map (\<lambda>p. p_pid (procs s p)) (proc_list s)"

lemma getid_fresh:
  assumes "0 \<le> next_pid s" and "next_pid s < PROC_MAX_COUNT"
  shows "\<exists>pid s'. proc_getid s = Some (pid, s') \<and> pid = first_free (pids s) (pid_order (next_pid s))
    \<and> (if {0..<PROC_MAX_COUNT} \<subseteq> set (pids s) then pid = -1 \<and> s' = s
       else pid \<in> {0..<PROC_MAX_COUNT} \<and> pid \<notin> set (pids s) \<and> s' = s\<lparr>next_pid := (pid + 1) mod PROC_MAX_COUNT\<rparr>)"
proof -
  define pid where "pid = first_free (pids s) (pid_order (next_pid s))"
  have g: "getid_loop (pids s) (next_pid s) (next_pid s) = Some pid"
    using getid_loop_from [OF assms(1,2), of 0 "pids s"] assms(1,2) by (simp add: pid_def proc_consts)
  show ?thesis
  proof (cases "List.find (\<lambda>p. p \<notin> set (pids s)) (pid_order (next_pid s))")
    case None
    then have "\<forall>p\<in>{0..<PROC_MAX_COUNT}. p \<in> set (pids s)"
      using pid_order_set [of "next_pid s"] unfolding find_None_iff by blast
    moreover have "pid = -1" using None by (simp add: pid_def first_free_def)
    ultimately show ?thesis using g by (auto simp: proc_getid_def pids_def pid_def)
  next
    case (Some p)
    then have "p \<in> set (pid_order (next_pid s))" "p \<notin> set (pids s)" unfolding find_Some_iff by (auto dest: nth_mem)
    moreover have "pid = p" using Some by (simp add: pid_def first_free_def)
    ultimately show ?thesis using g pid_order_set [of "next_pid s"] by (auto simp: proc_getid_def pids_def pid_def)
  qed
qed

lemma getid_some:
  assumes "0 \<le> next_pid s" and "next_pid s < PROC_MAX_COUNT" and "\<not> {0..<PROC_MAX_COUNT} \<subseteq> set (pids s)"
  shows "\<exists>pid. proc_getid s = Some (pid, s\<lparr>next_pid := (pid + 1) mod PROC_MAX_COUNT\<rparr>) \<and> pid \<in> {0..<PROC_MAX_COUNT} \<and> pid \<notin> set (pids s)"
  using getid_fresh [OF assms(1,2)] unfolding if_not_P [OF assms(3)] by blast

text \<open>
  C21: \<^verbatim>\<open>_proc_getid\<close> ends and returns the first identifier at or after \<^verbatim>\<open>next_pid\<close>, going round at
  PROC_MAX_COUNT, that no process has, and continues behind it next time; it returns -1, changing
  nothing, exactly when all identifiers are taken.
\<close>

theorem proc_getid_first_free:
  assumes "0 \<le> next_pid s" and "next_pid s < PROC_MAX_COUNT"
  shows "\<exists>pid s'. proc_getid s = Some (pid, s') \<and> pid = first_free (pids s) (pid_order (next_pid s))
    \<and> (if {0..<PROC_MAX_COUNT} \<subseteq> set (pids s) then pid = -1 \<and> s' = s
       else pid \<in> {0..<PROC_MAX_COUNT} \<and> pid \<notin> set (pids s) \<and> s' = s\<lparr>next_pid := (pid + 1) mod PROC_MAX_COUNT\<rparr>)"
  using getid_fresh [OF assms(1,2)] .

theorem proc_getid_first_free_witness:
  "\<exists>pid. proc_getid demo_fs = Some (pid, demo_fs\<lparr>next_pid := (pid + 1) mod PROC_MAX_COUNT\<rparr>) \<and> pid \<noteq> 3 \<and> 0 \<le> pid"
proof -
  have n: "0 \<le> next_pid demo_fs" "next_pid demo_fs < PROC_MAX_COUNT" "pids demo_fs = [3]"
    by (simp_all add: demo_fs_def proc_consts pids_def)
  have "0 \<in> {0..<PROC_MAX_COUNT}" by (simp add: proc_consts)
  then have "\<not> {0..<PROC_MAX_COUNT} \<subseteq> set [3]" by auto
  then obtain pid where "proc_getid demo_fs = Some (pid, demo_fs\<lparr>next_pid := (pid + 1) mod PROC_MAX_COUNT\<rparr>)"
      "pid \<in> {0..<PROC_MAX_COUNT}" "pid \<notin> set [3]"
    using proc_getid_first_free [OF n(1,2)] unfolding n(3) by (elim exE conjE) simp
  then show ?thesis by (intro exI [of _ pid]) simp
qed

section \<open>The process tree\<close>

definition procs_ok :: "kstate \<Rightarrow> bool" where
  "procs_ok s \<longleftrightarrow> distinct (proc_list s) \<and> 0 \<notin> set (proc_list s) \<and> distinct (pids s) \<and> set (pids s) \<subseteq> {0..<PROC_MAX_COUNT}
     \<and> (\<forall>c\<in>set (proc_list s). p_pid (procs s c) \<noteq> PID_IDLE \<longrightarrow> p_pproc (procs s c) \<in> set (proc_list s))
     \<and> (\<forall>p\<in>set (proc_list s). distinct (p_children s p)
          \<and> (\<forall>c. c \<in> set (p_children s p) \<longleftrightarrow> c \<in> set (proc_list s) \<and> p_pproc (procs s c) = p \<and> p_pid (procs s c) \<noteq> PID_IDLE))"

lemma procs_okI:
  assumes "distinct (proc_list s)" "0 \<notin> set (proc_list s)" "distinct (pids s)" "set (pids s) \<subseteq> {0..<PROC_MAX_COUNT}"
    "\<And>c. c \<in> set (proc_list s) \<Longrightarrow> p_pid (procs s c) \<noteq> PID_IDLE \<Longrightarrow> p_pproc (procs s c) \<in> set (proc_list s)"
    "\<And>p. p \<in> set (proc_list s) \<Longrightarrow> distinct (p_children s p)"
    "\<And>p c. p \<in> set (proc_list s) \<Longrightarrow> c \<in> set (p_children s p) \<longleftrightarrow> c \<in> set (proc_list s) \<and> p_pproc (procs s c) = p \<and> p_pid (procs s c) \<noteq> PID_IDLE"
  shows "procs_ok s"
  using assms unfolding procs_ok_def by blast

lemma procs_okD:
  assumes "procs_ok s"
  shows "distinct (proc_list s)" "0 \<notin> set (proc_list s)" "distinct (pids s)" "set (pids s) \<subseteq> {0..<PROC_MAX_COUNT}"
    "c \<in> set (proc_list s) \<Longrightarrow> p_pid (procs s c) \<noteq> PID_IDLE \<Longrightarrow> p_pproc (procs s c) \<in> set (proc_list s)"
    "p \<in> set (proc_list s) \<Longrightarrow> distinct (p_children s p)"
    "p \<in> set (proc_list s) \<Longrightarrow> c \<in> set (p_children s p) \<longleftrightarrow> c \<in> set (proc_list s) \<and> p_pproc (procs s c) = p \<and> p_pid (procs s c) \<noteq> PID_IDLE"
  using assms unfolding procs_ok_def by blast+

lemma sched_queue_init_procs [simp]:
  "proc_list (sched_queue_init q s) = proc_list s" "procs (sched_queue_init q s) = procs s"
  "p_children (sched_queue_init q s) = p_children s" "p_threads (sched_queue_init q s) = p_threads s"
  "curproc (sched_queue_init q s) = curproc s" "next_pid (sched_queue_init q s) = next_pid s"
  for s :: kstate
  by (simp_all add: sched_queue_init_def)

lemma sched_queue_init_vnodes [simp]: "vnodes (sched_queue_init q s) = vnodes s"
  by (simp add: sched_queue_init_def)

lemma upd_vnode_procs [simp]:
  "proc_list (upd_vnode v g s) = proc_list s" "p_children (upd_vnode v g s) = p_children s"
  "p_threads (upd_vnode v g s) = p_threads s" "pt_current (upd_vnode v g s) = pt_current s"
  by (simp_all add: upd_vnode_def)

text \<open>Everything \<^verbatim>\<open>proc_create\<close> needs: memory for the process, a free identifier, a working directory in use.\<close>

definition may_fork :: "nat \<Rightarrow> string \<Rightarrow> kstate \<Rightarrow> bool" where
  "may_fork f name s \<longleftrightarrow> cache_ok f s \<and> in_use (p_cwd (cur s)) s \<and> length name < PROC_NAME_LEN
     \<and> answers s \<noteq> [] \<and> hd (answers s) \<noteq> 0 \<and> hd (answers s) \<notin> set (proc_list s) \<and> curproc s \<in> set (proc_list s) \<and> curproc s \<noteq> 0
     \<and> 0 \<le> next_pid s \<and> next_pid s < PROC_MAX_COUNT \<and> {0, 1, 2} \<subseteq> set (pids s) \<and> \<not> {0..<PROC_MAX_COUNT} \<subseteq> set (pids s)"

text \<open>The process \<^verbatim>\<open>proc_create\<close> makes.\<close>

definition new_proc :: "int \<Rightarrow> string \<Rightarrow> kstate \<Rightarrow> proc" where
  "new_proc pid name s = \<lparr>p_pid = pid, p_comm = name, p_pproc = curproc s, p_status = 0, p_state = PROC_RUNNING,
     p_pagedir = pt_current s, p_files = replicate NFILES 0, p_cwd = p_cwd (cur s)\<rparr>"

lemma proc_create_state:
  assumes "may_fork f name s"
  obtains pid s' where "proc_create name s = Some (hd (answers s), s')" "pid \<in> {3..<PROC_MAX_COUNT}" "pid \<notin> set (pids s)"
    "proc_list s' = proc_list s @ [hd (answers s)]" "procs s' = (procs s)(hd (answers s) := new_proc pid name s)"
    "p_children s' = ((p_children s)(hd (answers s) := []))(curproc s := p_children s (curproc s) @ [hd (answers s)])"
    "p_threads s' = (p_threads s)(hd (answers s) := [])"
    "vnodes s' (p_cwd (cur s)) = (vnodes s (p_cwd (cur s)))\<lparr>vn_refcount := vn_refcount (vnodes s (p_cwd (cur s))) + 1\<rparr>"
proof -
  let ?a = "hd (answers s)" and ?s1 = "s\<lparr>answers := tl (answers s)\<rparr>"
  have m: "cache_ok f s" "in_use (p_cwd (cur s)) s" "length name < PROC_NAME_LEN" "answers s \<noteq> []" "?a \<noteq> 0" "?a \<notin> set (proc_list s)"
    "curproc s \<in> set (proc_list s)" "0 \<le> next_pid s" "next_pid s < PROC_MAX_COUNT" "{0, 1, 2} \<subseteq> set (pids s)" "\<not> {0..<PROC_MAX_COUNT} \<subseteq> set (pids s)"
    "curproc s \<noteq> 0" using assms by (auto simp: may_fork_def)
  have al: "alloc s = (?a, ?s1)" using m(4) by (cases "answers s") (simp_all add: alloc_def)
  have used: "pids ?s1 = pids s" "next_pid ?s1 = next_pid s" by (simp_all add: pids_def)
  obtain pid where pid: "proc_getid ?s1 = Some (pid, ?s1\<lparr>next_pid := (pid + 1) mod PROC_MAX_COUNT\<rparr>)"
      "pid \<in> {0..<PROC_MAX_COUNT}" "pid \<notin> set (pids s)"
    using getid_some [of ?s1] m(8,9,11) unfolding used by blast
  then have p3: "2 < pid" using m(10) by (cases "pid \<in> {0, 1, 2}") auto
  let ?s2 = "?s1\<lparr>next_pid := (pid + 1) mod PROC_MAX_COUNT\<rparr>"
  have "cache_ok f ?s2 = cache_ok f s" by (rule cache_ok_cong) simp_all
  then have c2: "cache_ok f ?s2" using m(1) by simp
  have u2: "cur ?s2 = cur s" "in_use (p_cwd (cur s)) ?s2" using m(2) by (simp_all add: cur_def)
  have ne: "curproc s \<noteq> ?a" using m(6,7) by auto
  have cr: "cur (upd_vnode v g s) = cur s" for v g s by (simp add: cur_def upd_vnode_def)
  let ?r = "proc_create name s"
  show thesis
    by (rule that [of "snd (the ?r)" pid])
       (use pid p3 al vref_ok [OF c2 u2(2)] m(3,5,12) ne in
         \<open>simp_all add: proc_create_def u2(1) cr Let_def PID_INIT_def new_proc_def upd_proc_def\<close>)
qed

text \<open>
  C18: \<^verbatim>\<open>proc_create\<close> adds one process to a consistent process tree.  Given memory, a free identifier
  besides the three reserved ones and a working directory in use, it returns a process with an
  identifier no other process has, without threads, children or files, that shares its parent's
  working directory, which has one more reference; it is the last of the process list and of its
  parent's children, and the list of processes, the identifiers and the lists of children stay
  consistent.
\<close>

theorem proc_create_ok:
  assumes ok: "procs_ok s" and m: "may_fork f name s"
  shows "\<exists>pid s'. proc_create name s = Some (hd (answers s), s') \<and> pid \<notin> set (pids s) \<and> pids s' = pids s @ [pid] \<and> procs_ok s'
    \<and> procs s' (hd (answers s)) = new_proc pid name s \<and> p_threads s' (hd (answers s)) = [] \<and> p_children s' (hd (answers s)) = []
    \<and> p_children s' (curproc s) = p_children s (curproc s) @ [hd (answers s)]
    \<and> vn_refcount (vnodes s' (p_cwd (cur s))) = vn_refcount (vnodes s (p_cwd (cur s))) + 1"
proof -
  let ?a = "hd (answers s)"
  have a: "?a \<noteq> 0" "?a \<notin> set (proc_list s)" "curproc s \<in> set (proc_list s)" "curproc s \<noteq> ?a"
    using m by (auto simp: may_fork_def)
  note k = procs_okD [OF ok]
  from proc_create_state [OF m] obtain pid s' where s': "proc_create name s = Some (?a, s')" "pid \<in> {3..<PROC_MAX_COUNT}" "pid \<notin> set (pids s)"
    "proc_list s' = proc_list s @ [?a]" "procs s' = (procs s)(?a := new_proc pid name s)"
    "p_children s' = ((p_children s)(?a := []))(curproc s := p_children s (curproc s) @ [?a])"
    "p_threads s' = (p_threads s)(?a := [])"
    "vnodes s' (p_cwd (cur s)) = (vnodes s (p_cwd (cur s)))\<lparr>vn_refcount := vn_refcount (vnodes s (p_cwd (cur s))) + 1\<rparr>" by metis
  have pd: "pids s' = pids s @ [pid]"
    using a(2) unfolding pids_def s'(4,5) by (auto simp: new_proc_def)
  have ch: "?a \<notin> set (p_children s p)" if "p \<in> set (proc_list s)" for p using k(7) [OF that] a(2) by blast
  have pp: "c \<in> set (proc_list s) \<Longrightarrow> p_pid (procs s c) \<noteq> PID_IDLE \<Longrightarrow> p_pproc (procs s c) \<noteq> ?a" for c using k(5) a(2) by metis
  have "procs_ok s'"
  proof (rule procs_okI)
    show "distinct (proc_list s')" "0 \<notin> set (proc_list s')" "distinct (pids s')" "set (pids s') \<subseteq> {0..<PROC_MAX_COUNT}"
      using k(1-4) a(1,2) s'(2,3) unfolding pd s'(4) by auto
    show "p_pproc (procs s' c) \<in> set (proc_list s')" if "c \<in> set (proc_list s')" "p_pid (procs s' c) \<noteq> PID_IDLE" for c
      using that k(5) [of c] a(3) unfolding s'(4,5) by (auto simp: new_proc_def)
    show "distinct (p_children s' p)" if "p \<in> set (proc_list s')" for p
      using that k(6) [of p] k(6) [OF a(3)] ch [OF a(3)] unfolding s'(4,6) by auto
    show "c \<in> set (p_children s' p) \<longleftrightarrow> c \<in> set (proc_list s') \<and> p_pproc (procs s' c) = p \<and> p_pid (procs s' c) \<noteq> PID_IDLE"
      if p: "p \<in> set (proc_list s')" for p c
      using p k(7) [of p c] k(7) [OF a(3), of c] pp [of c] ch a s'(2) unfolding s'(4-6) by (auto simp: new_proc_def proc_consts)
  qed
  then show ?thesis using s' pd a(4) by auto
qed

section \<open>Exit\<close>

text \<open>The children \<open>cs\<close> of \<open>q\<close> given to \<open>i\<close>.\<close>

definition moved :: "nat list \<Rightarrow> nat \<Rightarrow> nat \<Rightarrow> kstate \<Rightarrow> kstate" where
  "moved cs q i s = s\<lparr>procs := (\<lambda>p. if p \<in> set cs then (procs s p)\<lparr>p_pproc := i\<rparr> else procs s p),
     p_children := (p_children s)(q := filter (\<lambda>c. c \<notin> set cs) (p_children s q), i := p_children s i @ cs)\<rparr>"

lemma moved_Cons:
  assumes "c \<notin> set cs" and "q \<noteq> i"
  shows "moved cs q i (moved [c] q i s) = moved (c # cs) q i s"
proof -
  have "procs (moved cs q i (moved [c] q i s)) = procs (moved (c # cs) q i s)"
    using assms by (auto simp: moved_def)
  moreover have "p_children (moved cs q i (moved [c] q i s)) = p_children (moved (c # cs) q i s)"
    using assms by (auto simp: moved_def intro!: filter_cong)
  ultimately show ?thesis by (simp add: moved_def)
qed

lemma remove1_filter: "distinct xs \<Longrightarrow> remove1 c xs = filter (\<lambda>x. x \<notin> set [c]) xs"
  by (induction xs) (auto intro!: filter_True [symmetric])

lemma reparent_one:
  assumes "c \<in> set (p_children s q)" "distinct (p_children s q)" "p_pproc (procs s c) = q" "proc_initproc s \<noteq> 0" "q \<noteq> proc_initproc s"
  shows "reparent c s = Some (moved [c] q (proc_initproc s) s)"
proof -
  have "(procs s)(c := (procs s c)\<lparr>p_pproc := proc_initproc s\<rparr>) = procs (moved [c] q (proc_initproc s) s)"
    by (auto simp: moved_def)
  moreover have "(p_children s)(q := remove1 c (p_children s q), proc_initproc s := p_children s (proc_initproc s) @ [c])
      = p_children (moved [c] q (proc_initproc s) s)"
    using remove1_filter [OF assms(2), of c] by (simp add: moved_def)
  ultimately show ?thesis using assms by (simp add: reparent_def upd_proc_def Let_def) (simp add: moved_def)
qed

lemma reparent_all:
  "distinct cs \<Longrightarrow> set cs \<subseteq> set (p_children s q) \<Longrightarrow> distinct (p_children s q) \<Longrightarrow> \<forall>c\<in>set cs. p_pproc (procs s c) = q \<Longrightarrow>
     proc_initproc s \<noteq> 0 \<Longrightarrow> q \<noteq> proc_initproc s \<Longrightarrow> foldM reparent cs s = Some (moved cs q (proc_initproc s) s)"
proof (induction cs arbitrary: s)
  case Nil
  have "moved [] q (proc_initproc s) s = s" by (simp add: moved_def)
  then show ?case by simp
next
  case (Cons c cs)
  let ?i = "proc_initproc s" and ?s = "moved [c] q (proc_initproc s) s"
  have "foldM reparent cs ?s = Some (moved cs q (proc_initproc ?s) ?s)"
    using Cons.prems by (intro Cons.IH) (auto simp: moved_def)
  moreover have "proc_initproc ?s = ?i" by (simp add: moved_def)
  ultimately show ?case using reparent_one [of c s q] Cons.prems moved_Cons [of c cs q ?i s] by simp
qed

lemma moved_ok:
  assumes ok: "procs_ok s" and q: "q \<in> set (proc_list s)" "i \<in> set (proc_list s)" "q \<noteq> i"
  shows "procs_ok (moved (p_children s q) q i s)"
proof -
  let ?s = "moved (p_children s q) q i s"
  note k = procs_okD [OF ok]
  have l: "proc_list ?s = proc_list s" "pids ?s = pids s" "p_pid (procs ?s c) = p_pid (procs s c)" for c
    by (simp_all add: moved_def pids_def)
  have d: "set (p_children s i) \<inter> set (p_children s q) = {}" using q(3) by (auto simp: disjoint_iff k(7) [OF q(1)] k(7) [OF q(2)])
  show ?thesis
  proof (rule procs_okI)
    show "distinct (proc_list ?s)" "0 \<notin> set (proc_list ?s)" "distinct (pids ?s)" "set (pids ?s) \<subseteq> {0..<PROC_MAX_COUNT}"
      using k(1-4) unfolding l by auto
    show "p_pproc (procs ?s c) \<in> set (proc_list ?s)" if "c \<in> set (proc_list ?s)" "p_pid (procs ?s c) \<noteq> PID_IDLE" for c
      using that k(5) [of c] q(2) unfolding l by (simp add: moved_def)
    show "distinct (p_children ?s p)" if "p \<in> set (proc_list ?s)" for p
      using that k(6) [of p] k(6) [OF q(1)] k(6) [OF q(2)] d unfolding l by (auto simp: moved_def)
    show "c \<in> set (p_children ?s p) \<longleftrightarrow> c \<in> set (proc_list ?s) \<and> p_pproc (procs ?s c) = p \<and> p_pid (procs ?s c) \<noteq> PID_IDLE"
      if p: "p \<in> set (proc_list ?s)" for p c
      using p k(7) [of p c] k(7) [OF q(1), of c] k(7) [OF q(2), of c] q(3) unfolding l by (auto simp: moved_def)
  qed
qed

lemma procs_ok_cong:
  assumes "proc_list s' = proc_list s" "p_children s' = p_children s"
    "\<And>p. p_pid (procs s' p) = p_pid (procs s p)" "\<And>p. p_pproc (procs s' p) = p_pproc (procs s p)"
  shows "procs_ok s' = procs_ok s" "pids s' = pids s"
  unfolding procs_ok_def pids_def assms by simp_all

lemma vput_procs:
  assumes "cache_ok f s" and "in_use vn s"
  obtains s' where "vput vn s = Some s'" "procs s' = procs s" "proc_list s' = proc_list s" "p_children s' = p_children s"
    "curproc s' = curproc s" "proc_initproc s' = proc_initproc s"
proof (cases "vn_refcount (vnodes s vn) = 1")
  case True
  then show thesis using that vput_last [OF assms] by (simp add: without_vnode_def drop_inode_def Let_def sched_queue_init_def)
next
  case False
  then have "1 < vn_refcount (vnodes s vn)" using vnode_okD(2) [OF cache_ok_vnode [OF assms]] by simp
  then show thesis using that vput_dec [OF assms] by (simp add: upd_vnode_def)
qed

lemma foldM_same: "\<forall>x\<in>set xs. f x s = Some s \<Longrightarrow> foldM f xs s = Some s"
  by (induction xs) auto


section \<open>Waiting\<close>

lemma waitpid_scan_running:
  "\<forall>a\<in>set as. a \<noteq> 0 \<and> p_pagedir (procs s a) \<noteq> 0 \<and> p_state (procs s a) = PROC_RUNNING \<Longrightarrow>
     \<exists>p'. waitpid_scan (as @ cs) n pid p s = waitpid_scan cs n pid p' s \<and> (as = [] \<longrightarrow> p' = p)"
proof (induction as arbitrary: p)
  case (Cons a as)
  then show ?case using Cons.IH [of a] by auto
qed auto

text \<open>A dead child \<open>c\<close> with its one thread \<open>t\<close>.\<close>

definition dead_child :: "nat \<Rightarrow> nat \<Rightarrow> kstate \<Rightarrow> bool" where
  "dead_child c t s \<longleftrightarrow> p_state (procs s c) = PROC_DEAD \<and> p_pagedir (procs s c) \<noteq> 0 \<and> p_children s c = []
     \<and> p_threads s c = [t] \<and> t \<noteq> 0 \<and> kt_state (kt s t) = KT_EXITED \<and> kt_kstack (kt s t) \<noteq> 0 \<and> kt_proc (kt s t) = c"

lemma map_remove1: "distinct (map g xs) \<Longrightarrow> c \<in> set xs \<Longrightarrow> map g (remove1 c xs) = remove1 (g c) (map g xs)"
  by (induction xs) (auto simp: image_iff)

lemma reaped_ok:
  assumes ok: "procs_ok s" and c: "c \<in> set (p_children s q)" "q \<in> set (proc_list s)" "p_children s c = []"
    and s': "proc_list s' = remove1 c (proc_list s)" "procs s' = procs s" "p_children s' = (p_children s)(q := remove1 c (p_children s q))"
  shows "procs_ok s'"
proof -
  note k = procs_okD [OF ok]
  have cp: "c \<in> set (proc_list s)" "p_pproc (procs s c) = q" "p_pid (procs s c) \<noteq> PID_IDLE" using c(1) k(7) [OF c(2)] by auto
  have l: "set (proc_list s') = set (proc_list s) - {c}" using k(1) s'(1) by (simp add: set_remove1_eq)
  have nc: "p_pproc (procs s d) \<noteq> c" if "d \<in> set (proc_list s)" "p_pid (procs s d) \<noteq> PID_IDLE" for d
    using k(7) [OF cp(1), of d] c(3) that by auto
  show ?thesis
  proof (rule procs_okI)
    show "distinct (proc_list s')" "0 \<notin> set (proc_list s')" using k(1,2) l s'(1) by auto
    have pd: "pids s' = remove1 (p_pid (procs s c)) (pids s)"
      using cp(1) k(3) map_remove1 unfolding pids_def s'(1,2) by metis
    show "distinct (pids s')" "set (pids s') \<subseteq> {0..<PROC_MAX_COUNT}"
      using k(3,4) unfolding pd by (auto simp: set_remove1_eq)
    show "p_pproc (procs s' d) \<in> set (proc_list s')" if "d \<in> set (proc_list s')" "p_pid (procs s' d) \<noteq> PID_IDLE" for d
      using that k(5) [of d] nc [of d] unfolding l s'(2) by auto
    show "distinct (p_children s' p)" if "p \<in> set (proc_list s')" for p
      using that k(6) [of p] k(6) [OF c(2)] unfolding l s'(3) by auto
    show "d \<in> set (p_children s' p) \<longleftrightarrow> d \<in> set (proc_list s') \<and> p_pproc (procs s' d) = p \<and> p_pid (procs s' d) \<noteq> PID_IDLE"
      if "p \<in> set (proc_list s')" for p d
      using that k(7) [of p d] k(7) [OF c(2), of d] cp set_remove1_eq [OF k(6) [OF c(2)]] unfolding l s'(2,3) by auto
  qed
qed

text \<open>
  C20: Waiting for any child reaps a dead one.  When the oldest dead child of the current process has
  its exited thread left and no children, \<^verbatim>\<open>do_waitpid\<close> returns its identifier without blocking,
  takes it off the process list and its parent's list of children, frees the thread's stack, the
  thread and the process, and leaves the process tree consistent.
\<close>

theorem do_waitpid_reaps:
  assumes ok: "procs_ok s" and q: "curproc s \<in> set (proc_list s)" "p_children s (curproc s) = as @ c # bs"
    and run: "\<forall>a\<in>set as. p_pagedir (procs s a) \<noteq> 0 \<and> p_state (procs s a) = PROC_RUNNING" and c: "dead_child c t s" "c \<noteq> curproc s"
  shows "\<exists>s'. do_waitpid e (-1) 0 s = Some (p_pid (procs s c), s') \<and> procs_ok s' \<and> proc_list s' = remove1 c (proc_list s)
    \<and> p_children s' (curproc s) = as @ bs \<and> p_threads s' c = [] \<and> freed s' = [c, t, kt_kstack (kt s t)] @ freed s"
proof -
  note k = procs_okD [OF ok]
  have d: "p_state (procs s c) = PROC_DEAD" "p_pagedir (procs s c) \<noteq> 0" "p_children s c = []" "p_threads s c = [t]" "t \<noteq> 0"
      "kt_state (kt s t) = KT_EXITED" "kt_kstack (kt s t) \<noteq> 0" "kt_proc (kt s t) = c"
    using c(1) by (auto simp: dead_child_def)
  have "0 \<notin> set (p_children s (curproc s))" using k(2) k(7) [OF q(1), of 0] by blast
  then have cp: "p_pproc (procs s c) = curproc s" "c \<noteq> 0" "\<forall>a\<in>set as. a \<noteq> 0" "c \<notin> set (as @ bs)"
    using k(6) [OF q(1)] k(7) [OF q(1), of c] q(2) by (auto intro: ccontr)
  let ?s1 = "s\<lparr>p_children := (p_children s)(curproc s := as @ bs)\<rparr>"
  have u: "unlink_child c s = Some ?s1" using cp q(2) d(3) by (simp add: unlink_child_def Let_def remove1_append)
  let ?s2 = "?s1\<lparr>freed := t # kt_kstack (kt s t) # freed s, p_threads := (p_threads s)(c := [])\<rparr>"
  have kd: "kthread_destroy t ?s1 = Some ?s2" using d by (simp add: kthread_destroy_def free_obj_def)
  obtain p' where "waitpid_scan (as @ c # bs) 0 (-1) 0 s = waitpid_scan (c # bs) 0 (-1) p' s"
    using waitpid_scan_running [of as s "c # bs" 0 "-1" 0] run cp(3) by blast
  then have sc: "waitpid_scan (as @ c # bs) 0 (-1) 0 s = Some (1, p_pid (procs s c), c, ?s2)" using d cp(2) u kd by simp
  let ?s = "free_proc c ?s2"
  have "waitpid_any e s = Some (p_pid (procs s c), ?s)"
    by (subst waitpid_any.simps) (simp add: q(2) sc)
  then have "do_waitpid e (-1) 0 s = Some (p_pid (procs s c), ?s)" using q(2) by (simp add: do_waitpid_def)
  moreover have st: "proc_list ?s = remove1 c (proc_list s)" "procs ?s = procs s" "freed ?s = [c, t, kt_kstack (kt s t)] @ freed s"
      "p_children ?s = (p_children s)(curproc s := remove1 c (p_children s (curproc s)))" "p_threads ?s c = []"
    using cp(1,4) q(2) by (simp_all add: free_proc_def free_obj_def Let_def remove1_append remove1_idem)
  moreover have "procs_ok ?s" using reaped_ok [OF ok _ q(1) d(3) st(1,2,4)] q(2) by simp
  moreover have "p_children ?s (curproc s) = as @ bs" using st(4) q(2) cp(4) by (simp add: remove1_append)
  ultimately show ?thesis by blast
qed

section \<open>Examples\<close>

definition demo_proc :: "int \<Rightarrow> nat \<Rightarrow> proc_state \<Rightarrow> proc" where
  "demo_proc pid pp st = \<lparr>p_pid = pid, p_comm = ''sh'', p_pproc = pp, p_status = 0, p_state = st, p_pagedir = 1,
     p_files = replicate NFILES 0, p_cwd = 1000\<rparr>"

text \<open>Idle, init, the page daemon, a shell, and two children of the shell, the second of them dead.\<close>

definition demo_tree :: kstate where
  "demo_tree = demo_fs\<lparr>kt := (kt demo_fs)(61 := (demo_thread 61 0 KT_EXITED)\<lparr>kt_proc := 60\<rparr>),
     procs := (procs demo_fs)(30 := demo_proc 0 0 PROC_RUNNING, 40 := demo_proc 1 30 PROC_RUNNING, 45 := demo_proc 2 30 PROC_RUNNING,
       50 := demo_proc 3 40 PROC_RUNNING, 60 := demo_proc 4 50 PROC_DEAD, 70 := demo_proc 5 50 PROC_RUNNING),
     proc_list := [30, 40, 45, 50, 60, 70],
     p_children := (\<lambda>_. [])(30 := [40, 45], 40 := [50], 50 := [70, 60]), p_threads := (\<lambda>_. [])(60 := [61])\<rparr>"

lemma demo_tree_parts:
  "proc_list demo_tree = [30, 40, 45, 50, 60, 70]" "curproc demo_tree = 50" "proc_initproc demo_tree = 40"
  "p_children demo_tree 50 = [70, 60]" "pids demo_tree = [0, 1, 2, 3, 4, 5]" "answers demo_tree = [2000, 3000, 4000, 5000]"
  "cur demo_tree = demo_proc 3 40 PROC_RUNNING" "next_pid demo_tree = 4" "kt demo_tree 61 = (demo_thread 61 0 KT_EXITED)\<lparr>kt_proc := 60\<rparr>"
  by (simp_all add: demo_tree_def demo_fs_def pids_def demo_proc_def cur_def)

lemma demo_tree_ok: "procs_ok demo_tree"
proof (rule procs_okI)
  show "set (pids demo_tree) \<subseteq> {0..<PROC_MAX_COUNT}" "distinct (pids demo_tree)" unfolding demo_tree_parts by (simp_all add: proc_consts)
qed (auto simp: demo_tree_parts(1), auto simp: demo_tree_def demo_proc_def proc_consts)

lemma demo_tree_cwd: "cache_ok 500 demo_tree" "in_use 1000 demo_tree"
proof -
  have "cache_ok 500 demo_tree = cache_ok 500 demo_fs" by (rule cache_ok_cong) (simp_all add: demo_tree_def)
  then show "cache_ok 500 demo_tree" using demo_cache_ok by simp
  show "in_use 1000 demo_tree" by (simp add: demo_tree_def demo_fs_def)
qed

theorem proc_create_ok_witness:
  "\<exists>pid s'. proc_create ''ls'' demo_tree = Some (2000, s') \<and> pids s' = [0, 1, 2, 3, 4, 5, pid] \<and> p_children s' 50 = [70, 60, 2000]"
proof -
  have "7 \<in> {0..<PROC_MAX_COUNT}" "7 \<notin> set [0, 1, 2, 3, 4, 5 :: int]" by (simp_all add: proc_consts)
  then have "\<not> {0..<PROC_MAX_COUNT} \<subseteq> set [0, 1, 2, 3, 4, 5]" by blast
  then have "may_fork 500 ''ls'' demo_tree"
    unfolding may_fork_def demo_tree_parts using demo_tree_cwd by (simp add: proc_consts demo_proc_def)
  from proc_create_ok [OF demo_tree_ok this] show ?thesis unfolding demo_tree_parts by auto
qed


theorem do_waitpid_reaps_witness:
  "\<exists>s'. do_waitpid demo_env (-1) 0 demo_tree = Some (4, s') \<and> proc_list s' = [30, 40, 45, 50, 70] \<and> freed s' = [60, 61, 4096]"
proof -
  have "dead_child 60 61 demo_tree" "procs demo_tree 70 = demo_proc 5 50 PROC_RUNNING" "p_pid (procs demo_tree 60) = 4" "freed demo_tree = []"
    by (simp_all add: dead_child_def demo_tree_def demo_proc_def demo_thread_def demo_fs_def)
  then show ?thesis
    using do_waitpid_reaps [OF demo_tree_ok, of "[70]" 60 "[]" 61 demo_env] unfolding demo_tree_parts
    by (auto simp: demo_proc_def demo_thread_def)
qed

end
