(* ===== verification/Page.thy ===== *)
theory Page
  imports Weenix_Prelude "HOL-Library.Word"
begin

text \<open>
  The page allocator (\<^verbatim>\<open>kernel/mm/page.c\<close>, \<^verbatim>\<open>kernel/include/util/bits.h\<close>): ranges of pages, called
  groups, each with a list of free blocks for every power of two of pages and one bit for every pair
  of neighbouring blocks.  A free list is given by the addresses on it, first one first; the links
  stand in the free pages themselves, so taking a block off a list it is not on is a fault.  The bit
  maps of a group lie in separate bytes, each bit access touches one bit only, and a map is a
  function from word numbers to words.
\<close>

unbundle bit_operations_syntax

definition PAGE_SHIFT :: nat where "PAGE_SHIFT = 12"
definition PAGE_BYTES :: nat where "PAGE_BYTES = 4096"
definition PAGE_NSIZES :: nat where "PAGE_NSIZES = 8"
definition PAGEGROUP_SIZE :: nat where "PAGEGROUP_SIZE = 112"

lemmas page_consts = PAGE_SHIFT_def PAGE_BYTES_def PAGE_NSIZES_def PAGEGROUP_SIZE_def

section \<open>Bit maps\<close>

type_synonym bitmap = "nat \<Rightarrow> 32 word"

definition bit_flip :: "bitmap \<Rightarrow> nat \<Rightarrow> bitmap" where
  "bit_flip m b = m(b div 32 := m (b div 32) XOR push_bit (b mod 32) 1)"

definition bit_check :: "bitmap \<Rightarrow> nat \<Rightarrow> bool" where
  "bit_check m b \<longleftrightarrow> m (b div 32) AND push_bit (b mod 32) 1 \<noteq> 0"

section \<open>Groups\<close>

record pagegroup =
  pg_freelist :: "nat \<Rightarrow> nat list"
  pg_map :: "nat \<Rightarrow> bitmap"
  pg_baseaddr :: nat
  pg_endaddr :: nat

record pagesys =
  pagegroup_list :: "pagegroup list"
  page_freecount :: "32 word"

definition PAGE_ALIGN_DOWN :: "nat \<Rightarrow> nat" where
  "PAGE_ALIGN_DOWN x = x div PAGE_BYTES * PAGE_BYTES"

definition push_free :: "nat \<Rightarrow> nat \<Rightarrow> pagegroup \<Rightarrow> pagegroup" where
  "push_free order addr g = g\<lparr>pg_freelist := (pg_freelist g)(order := addr # pg_freelist g order)\<rparr>"

definition drop_free :: "nat \<Rightarrow> nat \<Rightarrow> pagegroup \<Rightarrow> pagegroup option" where
  "drop_free order addr g = do {
     kassert (addr \<in> set (pg_freelist g order));
     Some (g\<lparr>pg_freelist := (pg_freelist g)(order := remove1 addr (pg_freelist g order))\<rparr>)
   }"

definition flip_map :: "nat \<Rightarrow> nat \<Rightarrow> pagegroup \<Rightarrow> pagegroup" where
  "flip_map order i g = g\<lparr>pg_map := (pg_map g)(order := bit_flip (pg_map g order) i)\<rparr>"

text \<open>The bytes of the bit map of an order, and the space the maps and the structure take at the end.\<close>

definition map_bytes :: "nat \<Rightarrow> nat \<Rightarrow> nat" where
  "map_bytes npages order = (let c = npages div 2 ^ order in if c = 0 then 0 else ((c - 1) div 8 * 8 + 8) div 8)"

definition group_end :: "nat \<Rightarrow> nat \<Rightarrow> nat" where
  "group_end start limit = PAGE_ALIGN_DOWN (limit - PAGEGROUP_SIZE
     - sum_list (map (map_bytes ((limit - start) div PAGE_BYTES)) [1..<PAGE_NSIZES]))"

text \<open>The pages that do not fill a block of the largest order go to the smaller lists.\<close>

fun tail_blocks :: "nat \<Rightarrow> nat list \<Rightarrow> nat \<times> pagegroup \<Rightarrow> nat \<times> pagegroup" where
  "tail_blocks npages [] st = st"
| "tail_blocks npages (order # os) (limit, g) =
     (if npages div 2 ^ order mod 2 = 1
      then let limit' = limit - 2 ^ order * PAGE_BYTES in tail_blocks npages os (limit', push_free order limit' g)
      else tail_blocks npages os (limit, g))"

function large_blocks :: "nat \<Rightarrow> nat \<Rightarrow> pagegroup \<Rightarrow> pagegroup" where
  "large_blocks cur limit g =
     (if cur < limit
      then large_blocks (cur + 2 ^ (PAGE_NSIZES - 1) * PAGE_BYTES) limit (push_free (PAGE_NSIZES - 1) cur g)
      else g)"
  by pat_completeness auto
termination by (relation "measure (\<lambda>(cur, limit, g). limit - cur)") (auto simp: page_consts)

definition pagegroup_create :: "nat \<Rightarrow> nat \<Rightarrow> pagegroup option" where
  "pagegroup_create start limit = do {
     let e = group_end start limit;
     let g = \<lparr>pg_freelist = (\<lambda>_. []), pg_map = (\<lambda>_ _. 0), pg_baseaddr = start, pg_endaddr = e\<rparr>;
     let npages = (e - start) div PAGE_BYTES;
     let (e', g') = tail_blocks npages [0..<PAGE_NSIZES - 1] (e, g);
     kassert ((e' - start) mod 2 ^ (PAGE_NSIZES - 1) = 0);
     Some (large_blocks start e' g')
   }"

definition pagegroup_from_address :: "nat \<Rightarrow> 'a pagesys_scheme \<Rightarrow> nat option" where
  "pagegroup_from_address addr s =
     find_idx (\<lambda>g. pg_baseaddr g \<le> addr \<and> addr < pg_endaddr g) (pagegroup_list s)"

definition page_init :: "'a pagesys_scheme \<Rightarrow> 'a pagesys_scheme" where
  "page_init s = s\<lparr>pagegroup_list := [], page_freecount := 0\<rparr>"

definition page_add_range :: "nat \<Rightarrow> nat \<Rightarrow> 'a pagesys_scheme \<Rightarrow> 'a pagesys_scheme option" where
  "page_add_range start limit s = do {
     g \<leftarrow> pagegroup_create (PAGE_ALIGN_DOWN start) (PAGE_ALIGN_DOWN limit);
     if pg_baseaddr g < pg_endaddr g
     then Some (s\<lparr>pagegroup_list := pagegroup_list s @ [g],
                page_freecount := page_freecount s + of_nat ((pg_endaddr g - pg_baseaddr g) div PAGE_BYTES)\<rparr>)
     else Some s
   }"

section \<open>Allocation\<close>

definition pagegroup_calculate_index :: "pagegroup \<Rightarrow> nat \<Rightarrow> nat \<Rightarrow> nat option" where
  "pagegroup_calculate_index g order addr = do {
     kassert (addr mod PAGE_BYTES = 0);
     kassert (order < PAGE_NSIZES);
     kassert (pg_baseaddr g \<le> addr \<and> addr < pg_endaddr g);
     let offset = addr - pg_baseaddr g;
     kassert (offset mod 2 ^ order = 0);
     Some (offset div 2 ^ order div PAGE_BYTES)
   }"

text \<open>Marking a block of an order as taken or given back, which the largest order does not need.\<close>

definition toggle :: "nat \<Rightarrow> nat \<Rightarrow> pagegroup \<Rightarrow> pagegroup option" where
  "toggle order addr g =
     (if order < PAGE_NSIZES - 1
      then do { i \<leftarrow> pagegroup_calculate_index g (order + 1) addr; Some (flip_map (order + 1) i g) }
      else Some g)"

definition page_split_block :: "nat \<Rightarrow> pagegroup \<Rightarrow> pagegroup option" where
  "page_split_block order g = do {
     kassert (0 < order);
     kassert (order < PAGE_NSIZES);
     kassert (pg_freelist g order \<noteq> []);
     let target = hd (pg_freelist g order);
     g1 \<leftarrow> drop_free order target g;
     g2 \<leftarrow> toggle order target g1;
     i \<leftarrow> pagegroup_calculate_index g2 order target;
     kassert (\<not> bit_check (pg_map g2 order) i);
     let buddy = target + 2 ^ (order - 1) * PAGE_BYTES;
     Some (push_free (order - 1) buddy (push_free (order - 1) target g2))
   }"

fun split_down :: "nat \<Rightarrow> nat \<Rightarrow> pagegroup \<Rightarrow> pagegroup option" where
  "split_down 0 order g = Some g"
| "split_down (Suc d) order g = page_split_block (order + Suc d) g \<bind> split_down d order"

text \<open>
  The first order above \<open>order\<close> with a free block in some group, and that group.  When there is none
  \<^verbatim>\<open>slab_allocators_reclaim\<close> is called, the argument \<open>reclaim\<close>, but the search is not repeated.
\<close>

fun find_larger :: "nat list \<Rightarrow> pagegroup list \<Rightarrow> (nat \<times> nat) option" where
  "find_larger [] gs = None"
| "find_larger (n # ns) gs = (case find_idx (\<lambda>g. pg_freelist g n \<noteq> []) gs of Some i \<Rightarrow> Some (n, i) | None \<Rightarrow> find_larger ns gs)"

definition page_split :: "('a pagesys_scheme \<Rightarrow> 'a pagesys_scheme option) \<Rightarrow> nat \<Rightarrow> 'a pagesys_scheme \<Rightarrow> (nat option \<times> 'a pagesys_scheme) option" where
  "page_split reclaim order s = (case find_larger [order + 1..<PAGE_NSIZES] (pagegroup_list s) of
     None \<Rightarrow> do { s1 \<leftarrow> reclaim s; Some (None, s1) }
   | Some (norder, i) \<Rightarrow> do {
       g \<leftarrow> split_down (norder - order) order (pagegroup_list s ! i);
       kassert (pg_freelist g order \<noteq> []);
       Some (Some i, s\<lparr>pagegroup_list := (pagegroup_list s)[i := g]\<rparr>)
     })"

definition take_block :: "nat \<Rightarrow> nat \<Rightarrow> 'a pagesys_scheme \<Rightarrow> (nat \<times> 'a pagesys_scheme) option" where
  "take_block order i s = do {
     let g = pagegroup_list s ! i;
     kassert (pg_freelist g order \<noteq> []);
     let addr = hd (pg_freelist g order);
     g1 \<leftarrow> drop_free order addr g;
     g2 \<leftarrow> toggle order addr g1;
     Some (addr, s\<lparr>pagegroup_list := (pagegroup_list s)[i := g2], page_freecount := page_freecount s - 2 ^ order\<rparr>)
   }"

definition page_alloc_order :: "('a pagesys_scheme \<Rightarrow> 'a pagesys_scheme option) \<Rightarrow> nat \<Rightarrow> 'a pagesys_scheme \<Rightarrow> (nat \<times> 'a pagesys_scheme) option" where
  "page_alloc_order reclaim order s = (case find_idx (\<lambda>g. pg_freelist g order \<noteq> []) (pagegroup_list s) of
     Some i \<Rightarrow> take_block order i s
   | None \<Rightarrow> do {
       (i, s1) \<leftarrow> page_split reclaim order s;
       case i of None \<Rightarrow> Some (0, s1) | Some i \<Rightarrow> take_block order i s1
     })"

section \<open>Freeing\<close>

definition buddy_of :: "pagegroup \<Rightarrow> nat \<Rightarrow> nat \<Rightarrow> nat" where
  "buddy_of g order addr =
     (if (addr - pg_baseaddr g) div PAGE_BYTES div 2 ^ order mod 2 = 1
      then addr - 2 ^ order * PAGE_BYTES else addr + 2 ^ order * PAGE_BYTES)"

function page_join :: "nat \<Rightarrow> nat \<Rightarrow> pagegroup \<Rightarrow> pagegroup option" where
  "page_join order addr g =
     (if order < PAGE_NSIZES - 1 then do {
        i \<leftarrow> pagegroup_calculate_index g (order + 1) addr;
        if bit_check (pg_map g (order + 1)) i then Some g
        else do {
          let buddy = buddy_of g order addr;
          kassert ((addr - pg_baseaddr g) mod 2 ^ order = 0);
          g1 \<leftarrow> drop_free order addr g;
          g2 \<leftarrow> drop_free order buddy g1;
          let addr' = min addr buddy;
          g3 \<leftarrow> toggle (order + 1) addr' (push_free (order + 1) addr' g2);
          page_join (order + 1) addr' g3
        }
      } else Some g)"
  by pat_completeness auto
termination by (relation "measure (\<lambda>(order, addr, g). PAGE_NSIZES - 1 - order)") auto

declare page_join.simps [simp del]

definition page_free_order :: "nat \<Rightarrow> nat \<Rightarrow> 'a pagesys_scheme \<Rightarrow> 'a pagesys_scheme option" where
  "page_free_order addr order s = (case pagegroup_from_address addr s of
     None \<Rightarrow> Some s
   | Some i \<Rightarrow> do {
       let g = push_free order addr (pagegroup_list s ! i);
       g' \<leftarrow> (if order < PAGE_NSIZES - 1 then toggle order addr g \<bind> page_join order addr else Some g);
       Some (s\<lparr>pagegroup_list := (pagegroup_list s)[i := g'], page_freecount := page_freecount s + 2 ^ order\<rparr>)
     })"

section \<open>Entry points\<close>

text \<open>The order of a request; the number of pages is compared as a signed number.\<close>

definition order_for :: "nat \<Rightarrow> nat option" where
  "order_for npages = List.find (\<lambda>order. wrap32 (int npages) \<le> 2 ^ order) [0..<PAGE_NSIZES]"

definition page_alloc :: "('a pagesys_scheme \<Rightarrow> 'a pagesys_scheme option) \<Rightarrow> 'a pagesys_scheme \<Rightarrow> (nat \<times> 'a pagesys_scheme) option" where
  "page_alloc reclaim s = page_alloc_order reclaim 0 s"

definition page_free :: "nat \<Rightarrow> 'a pagesys_scheme \<Rightarrow> 'a pagesys_scheme option" where
  "page_free addr s = page_free_order addr 0 s"

definition page_alloc_n :: "('a pagesys_scheme \<Rightarrow> 'a pagesys_scheme option) \<Rightarrow> nat \<Rightarrow> 'a pagesys_scheme \<Rightarrow> (nat \<times> 'a pagesys_scheme) option" where
  "page_alloc_n reclaim npages s = do { order \<leftarrow> order_for npages; page_alloc_order reclaim order s }"

definition page_free_n :: "nat \<Rightarrow> nat \<Rightarrow> 'a pagesys_scheme \<Rightarrow> 'a pagesys_scheme option" where
  "page_free_n start npages s = do { order \<leftarrow> order_for npages; page_free_order start order s }"

definition page_free_count :: "'a pagesys_scheme \<Rightarrow> 32 word" where
  "page_free_count s = page_freecount s"

end
