(* ===== verification/Page_Inv.thy ===== *)
theory Page_Inv
  imports Page
begin

text \<open>
  The invariant of the page allocator.  The free lists of a group stand for a set of block numbers
  for every order; no two of these blocks overlap, and the bit of a pair of neighbours says whether
  exactly one of the two is free.  Every step of the allocator is a step on these sets: taking a
  block, putting one back, splitting one and joining two keep the set of free pages in order.
\<close>

section \<open>Bits\<close>

lemma bit_check_bit: "bit_check m b = bit (m (b div 32)) (b mod 32)"
  by (simp add: bit_check_def and_exp_eq_0_iff_not_bit push_bit_eq_mult)

lemma bit_check_flip: "bit_check (bit_flip m a) b = (bit_check m b \<noteq> (a = b))"
proof -
  have "a div 32 = b div 32 \<and> a mod 32 = b mod 32 \<longleftrightarrow> a = b"
    by (metis div_mult_mod_eq)
  then show ?thesis
    by (auto simp: bit_check_bit bit_flip_def bit_xor_iff bit_exp_iff)
qed

section \<open>Sets of blocks\<close>

type_synonym blocks = "nat \<Rightarrow> nat set"

definition pages :: "nat \<Rightarrow> nat \<Rightarrow> nat set" where
  "pages order k = {k * 2 ^ order ..< Suc k * 2 ^ order}"

definition kpages :: "blocks \<Rightarrow> nat set" where
  "kpages K = (\<Union>order<PAGE_NSIZES. \<Union>k\<in>K order. pages order k)"

definition kdis :: "blocks \<Rightarrow> bool" where
  "kdis K \<longleftrightarrow> (\<forall>o1<PAGE_NSIZES. \<forall>o2<PAGE_NSIZES. \<forall>k1\<in>K o1. \<forall>k2\<in>K o2.
     (o1, k1) \<noteq> (o2, k2) \<longrightarrow> pages o1 k1 \<inter> pages o2 k2 = {})"

definition ktake :: "nat \<Rightarrow> nat \<Rightarrow> blocks \<Rightarrow> blocks" where
  "ktake order k K = K(order := K order - {k})"

definition kput :: "nat \<Rightarrow> nat \<Rightarrow> blocks \<Rightarrow> blocks" where
  "kput order k K = K(order := insert k (K order))"

lemma pages_first: "k * 2 ^ order \<in> pages order k"
  by (simp add: pages_def)

lemma pages_nonempty [simp]: "pages order k \<noteq> {}"
  using pages_first by blast

lemma finite_pages [simp]: "finite (pages order k)"
  by (simp add: pages_def)

lemma card_pages [simp]: "card (pages order k) = 2 ^ order"
  by (simp add: pages_def)

lemma pages_halves: "pages (Suc order) k = pages order (2 * k) \<union> pages order (Suc (2 * k))"
  by (auto simp: pages_def)

lemma pages_halves_disjoint: "pages order (2 * k) \<inter> pages order (Suc (2 * k)) = {}"
  by (auto simp: pages_def)

lemma pages_subset: "k \<in> K order \<Longrightarrow> order < PAGE_NSIZES \<Longrightarrow> pages order k \<subseteq> kpages K"
  by (auto simp: kpages_def)

lemma kdisD:
  assumes "kdis K" "o1 < PAGE_NSIZES" "o2 < PAGE_NSIZES" "k1 \<in> K o1" "k2 \<in> K o2" "(o1, k1) \<noteq> (o2, k2)"
  shows "pages o1 k1 \<inter> pages o2 k2 = {}"
  using assms unfolding kdis_def by blast

lemma kdis_take: "kdis K \<Longrightarrow> kdis (ktake order k K)"
  unfolding kdis_def ktake_def by (auto split: if_splits)

lemma kpages_take:
  assumes "kdis K" "k \<in> K order" "order < PAGE_NSIZES"
  shows "kpages (ktake order k K) = kpages K - pages order k"
proof (intro equalityI subsetI)
  fix p
  assume "p \<in> kpages (ktake order k K)"
  then obtain o' k' where k': "o' < PAGE_NSIZES" "k' \<in> ktake order k K o'" "p \<in> pages o' k'"
    by (auto simp: kpages_def)
  then have "k' \<in> K o'" "(o', k') \<noteq> (order, k)" by (auto simp: ktake_def split: if_splits)
  with kdisD [OF assms(1) k'(1) assms(3) _ assms(2)] k'(1,3)
  show "p \<in> kpages K - pages order k" by (auto simp: kpages_def)
next
  fix p
  assume "p \<in> kpages K - pages order k"
  then show "p \<in> kpages (ktake order k K)" by (force simp: kpages_def ktake_def)
qed

lemma kpages_put:
  assumes "order < PAGE_NSIZES"
  shows "kpages (kput order k K) = kpages K \<union> pages order k"
  using assms unfolding kpages_def kput_def by (fastforce split: if_splits)

lemma kdis_put:
  assumes "kdis K" "pages order k \<inter> kpages K = {}" "order < PAGE_NSIZES"
  shows "kdis (kput order k K)"
  unfolding kdis_def
proof (intro allI ballI impI)
  fix o1 o2 k1 k2
  assume a: "o1 < PAGE_NSIZES" "o2 < PAGE_NSIZES" "k1 \<in> kput order k K o1" "k2 \<in> kput order k K o2"
    "(o1, k1) \<noteq> (o2, k2)"
  then have "(o1, k1) = (order, k) \<or> k1 \<in> K o1" "(o2, k2) = (order, k) \<or> k2 \<in> K o2"
    by (auto simp: kput_def split: if_splits)
  then show "pages o1 k1 \<inter> pages o2 k2 = {}"
    using a(1,2,5) assms(2) pages_subset [of k1 K o1] pages_subset [of k2 K o2]
      kdisD [OF assms(1) a(1,2) _ _ a(5)] by blast
qed

lemma not_free_notin:
  "pages order k \<inter> kpages K = {} \<Longrightarrow> order < PAGE_NSIZES \<Longrightarrow> k \<notin> K order"
  using pages_subset [of k K order] pages_nonempty [of order k] by blast

section \<open>Groups\<close>

definition blk :: "nat \<Rightarrow> nat \<Rightarrow> nat \<Rightarrow> nat" where
  "blk base order k = base + k * 2 ^ order * PAGE_BYTES"

definition range_ok :: "nat \<Rightarrow> pagegroup \<Rightarrow> bool" where
  "range_ok n g \<longleftrightarrow> 0 < pg_baseaddr g \<and> pg_baseaddr g mod PAGE_BYTES = 0
     \<and> pg_endaddr g = pg_baseaddr g + n * PAGE_BYTES \<and> n mod 2 ^ (PAGE_NSIZES - 1) = 0"

definition lists_ok :: "blocks \<Rightarrow> pagegroup \<Rightarrow> bool" where
  "lists_ok K g \<longleftrightarrow> (\<forall>order<PAGE_NSIZES. distinct (pg_freelist g order)
     \<and> set (pg_freelist g order) = blk (pg_baseaddr g) order ` K order)"

definition bits_ok :: "blocks \<Rightarrow> pagegroup \<Rightarrow> bool" where
  "bits_ok K g \<longleftrightarrow> (\<forall>order<PAGE_NSIZES - 1. \<forall>i.
     bit_check (pg_map g (Suc order)) i = ((2 * i \<in> K order) \<noteq> (Suc (2 * i) \<in> K order)))"

definition rep :: "nat \<Rightarrow> blocks \<Rightarrow> pagegroup \<Rightarrow> bool" where
  "rep n K g \<longleftrightarrow> range_ok n g \<and> lists_ok K g \<and> bits_ok K g \<and> kdis K \<and> kpages K \<subseteq> {..<n}"

lemma repD:
  assumes "rep n K g"
  shows "range_ok n g" "lists_ok K g" "bits_ok K g" "kdis K" "kpages K \<subseteq> {..<n}"
  using assms by (simp_all add: rep_def)

lemma blk_inj [simp]: "blk b order k = blk b order j \<longleftrightarrow> k = j"
  by (simp add: blk_def page_consts)

lemma lists_push:
  assumes "lists_ok K g" "k \<notin> K order"
  shows "lists_ok (kput order k K) (push_free order (blk (pg_baseaddr g) order k) g)"
  using assms by (auto simp: lists_ok_def kput_def push_free_def)

lemma lists_drop:
  assumes "lists_ok K g" "k \<in> K order" "order < PAGE_NSIZES"
  obtains g' where "drop_free order (blk (pg_baseaddr g) order k) g = Some g'"
    "lists_ok (ktake order k K) g'" "pg_map g' = pg_map g"
    "pg_baseaddr g' = pg_baseaddr g" "pg_endaddr g' = pg_endaddr g"
  using assms by (fastforce simp: lists_ok_def ktake_def drop_free_def set_remove1_distinct)

lemma push_free_sel [simp]:
  "pg_map (push_free order a g) = pg_map g"
  "pg_baseaddr (push_free order a g) = pg_baseaddr g"
  "pg_endaddr (push_free order a g) = pg_endaddr g"
  by (simp_all add: push_free_def)

lemma flip_map_sel [simp]:
  "pg_freelist (flip_map order i g) = pg_freelist g"
  "pg_baseaddr (flip_map order i g) = pg_baseaddr g"
  "pg_endaddr (flip_map order i g) = pg_endaddr g"
  "pg_map (flip_map order i g) = (pg_map g)(order := bit_flip (pg_map g order) i)"
  by (simp_all add: flip_map_def)

lemma range_ok_cong:
  "pg_baseaddr g' = pg_baseaddr g \<Longrightarrow> pg_endaddr g' = pg_endaddr g \<Longrightarrow> range_ok n g' = range_ok n g"
  by (simp add: range_ok_def)

lemma lists_ok_cong:
  "pg_baseaddr g' = pg_baseaddr g \<Longrightarrow> pg_freelist g' = pg_freelist g \<Longrightarrow> lists_ok K g' = lists_ok K g"
  by (simp add: lists_ok_def)

lemma bits_ok_cong: "pg_map g' = pg_map g \<Longrightarrow> bits_ok K g' = bits_ok K g"
  by (simp add: bits_ok_def)

text \<open>The index of a block in the map of its own order and of the order above.\<close>

lemma block_inside:
  assumes "range_ok n g" "k * 2 ^ order < n"
  shows "pg_baseaddr g \<le> blk (pg_baseaddr g) order k" "blk (pg_baseaddr g) order k < pg_endaddr g"
  using assms by (simp_all add: range_ok_def blk_def page_consts)

lemma index_of_block:
  assumes "range_ok n g" "k * 2 ^ order < n" "order' < PAGE_NSIZES"
  shows "pagegroup_calculate_index g order' (blk (pg_baseaddr g) order k) = Some (k * 2 ^ order div 2 ^ order')"
proof -
  have "(2::nat) ^ order' dvd PAGE_BYTES"
    using assms(3) le_imp_power_dvd [of order' 12 "2::nat"] by (simp add: page_consts)
  then have "k * 2 ^ order * PAGE_BYTES mod 2 ^ order' = 0"
    by (simp add: dvd_imp_mod_0 dvd_mult)
  moreover have "k * 2 ^ order * PAGE_BYTES div 2 ^ order' div PAGE_BYTES = k * 2 ^ order div 2 ^ order'"
    by (metis div_mult2_eq mult.commute div_mult_self_is_m PAGE_BYTES_def zero_less_numeral)
  moreover have "blk (pg_baseaddr g) order k mod PAGE_BYTES = 0"
    using assms(1) by (simp add: range_ok_def blk_def)
  ultimately show ?thesis
    using block_inside [OF assms(1,2)] assms(3) unfolding pagegroup_calculate_index_def
    by (simp add: blk_def kassert_def)
qed

lemma half_index: "k * 2 ^ order div 2 ^ Suc order = k div (2::nat)"
  by (metis div_mult2_eq div_mult_self_is_m mult.commute power_Suc zero_less_numeral zero_less_power)

lemma toggle_block:
  assumes "range_ok n g" "k * 2 ^ order < n"
  shows "toggle order (blk (pg_baseaddr g) order k) g
    = Some (if order < PAGE_NSIZES - 1 then flip_map (Suc order) (k div 2) g else g)"
proof (cases "order < PAGE_NSIZES - 1")
  case True
  then have "Suc order < PAGE_NSIZES" by simp
  from index_of_block [OF assms this] show ?thesis
    by (simp add: toggle_def half_index True del: power_Suc)
qed (simp add: toggle_def)

text \<open>Flipping the bit of a block accounts for the block changing between free and taken.\<close>

lemma bits_flip:
  assumes "bits_ok K g" "\<And>o'. o' \<noteq> order \<Longrightarrow> K' o' = K o'"
    and "\<And>j. (j \<in> K' order) = ((j \<in> K order) \<noteq> (j = k))"
  shows "bits_ok K' (if order < PAGE_NSIZES - 1 then flip_map (Suc order) (k div 2) g else g)"
proof -
  have "k div 2 = i \<longleftrightarrow> k = 2 * i \<or> k = Suc (2 * i)" for i by presburger
  then have "bit_check (pg_map (flip_map (Suc order) (k div 2) g) (Suc order)) i
      = ((2 * i \<in> K' order) \<noteq> (Suc (2 * i) \<in> K' order))" if "order < PAGE_NSIZES - 1" for i
    using that assms(1) unfolding bits_ok_def assms(3) flip_map_sel bit_check_flip fun_upd_same
    by auto
  then have flipped: "bit_check (pg_map (flip_map (Suc order) (k div 2) g) (Suc o')) i
      = ((2 * i \<in> K' o') \<noteq> (Suc (2 * i) \<in> K' o'))" if "o' < PAGE_NSIZES - 1" for o' i
    using that assms(1,2) unfolding bits_ok_def by (cases "o' = order") simp_all
  have "bits_ok K' g" if "\<not> order < PAGE_NSIZES - 1"
  proof -
    from that have "o' < PAGE_NSIZES - 1 \<Longrightarrow> K' o' = K o'" for o' by (cases "o' = order") (simp_all add: assms(2))
    with assms(1) show ?thesis by (simp add: bits_ok_def)
  qed
  moreover from flipped have "bits_ok K' (flip_map (Suc order) (k div 2) g)"
    unfolding bits_ok_def by blast
  ultimately show ?thesis by simp
qed

lemma bits_put_pair:
  assumes "bits_ok K g" "2 * k \<notin> K order" "Suc (2 * k) \<notin> K order"
  shows "bits_ok (kput order (Suc (2 * k)) (kput order (2 * k) K)) g"
  unfolding bits_ok_def
proof (intro allI impI)
  fix o' i
  assume "o' < PAGE_NSIZES - 1"
  with assms(1) have "bit_check (pg_map g (Suc o')) i = ((2 * i \<in> K o') \<noteq> (Suc (2 * i) \<in> K o'))"
    by (simp add: bits_ok_def)
  then show "bit_check (pg_map g (Suc o')) i = ((2 * i \<in> kput order (Suc (2 * k)) (kput order (2 * k) K) o')
      \<noteq> (Suc (2 * i) \<in> kput order (Suc (2 * k)) (kput order (2 * k) K) o'))"
    using assms(2,3) by (cases "i = k") (auto simp: kput_def)
qed

lemma bits_take_pair:
  assumes "bits_ok K g" "2 * k \<in> K order" "Suc (2 * k) \<in> K order"
  shows "bits_ok (ktake order (Suc (2 * k)) (ktake order (2 * k) K)) g"
  unfolding bits_ok_def
proof (intro allI impI)
  fix o' i
  assume "o' < PAGE_NSIZES - 1"
  with assms(1) have "bit_check (pg_map g (Suc o')) i = ((2 * i \<in> K o') \<noteq> (Suc (2 * i) \<in> K o'))"
    by (simp add: bits_ok_def)
  then show "bit_check (pg_map g (Suc o')) i = ((2 * i \<in> ktake order (Suc (2 * k)) (ktake order (2 * k) K) o')
      \<noteq> (Suc (2 * i) \<in> ktake order (Suc (2 * k)) (ktake order (2 * k) K) o'))"
    using assms(2,3) by (cases "i = k") (auto simp: ktake_def)
qed

lemma block_first_inside:
  assumes "rep n K g" "k \<in> K order" "order < PAGE_NSIZES"
  shows "k * 2 ^ order < n"
  using pages_subset [of k K order] pages_first [of k order] repD(5) [OF assms(1)] assms(2,3) by auto

section \<open>Taking and putting back a block\<close>

lemma take_rep:
  assumes "rep n K g" "k \<in> K order" "order < PAGE_NSIZES"
  obtains g' g2 where "drop_free order (blk (pg_baseaddr g) order k) g = Some g'"
    "toggle order (blk (pg_baseaddr g) order k) g' = Some g2"
    "rep n (ktake order k K) g2" "pg_baseaddr g2 = pg_baseaddr g"
proof -
  note r = repD [OF assms(1)] and inside = block_first_inside [OF assms]
  obtain g' where g': "drop_free order (blk (pg_baseaddr g) order k) g = Some g'"
    "lists_ok (ktake order k K) g'" "pg_map g' = pg_map g"
    "pg_baseaddr g' = pg_baseaddr g" "pg_endaddr g' = pg_endaddr g"
    by (rule lists_drop [OF r(2) assms(2,3)])
  let ?g2 = "if order < PAGE_NSIZES - 1 then flip_map (Suc order) (k div 2) g' else g'"
  have range: "range_ok n g'" using r(1) by (simp add: range_ok_cong [OF g'(4,5)])
  have "bits_ok (ktake order k K) ?g2"
    using r(3) assms(2) by (intro bits_flip [where K = K]) (auto simp: bits_ok_cong [OF g'(3)] ktake_def)
  moreover have "range_ok n ?g2" "lists_ok (ktake order k K) ?g2" "pg_baseaddr ?g2 = pg_baseaddr g"
    using range g'(2,4) by (simp_all add: range_ok_def lists_ok_def)
  moreover have "kpages (ktake order k K) \<subseteq> {..<n}"
    using r(5) by (auto simp: kpages_take [OF r(4) assms(2,3)])
  ultimately have "rep n (ktake order k K) ?g2" "pg_baseaddr ?g2 = pg_baseaddr g"
    by (simp_all add: rep_def kdis_take [OF r(4)])
  moreover have "toggle order (blk (pg_baseaddr g) order k) g' = Some ?g2"
    using toggle_block [OF range inside] by (simp add: g'(4))
  ultimately show ?thesis using that g'(1) by blast
qed

lemma put_rep:
  assumes "rep n K g" "pages order k \<inter> kpages K = {}" "pages order k \<subseteq> {..<n}" "order < PAGE_NSIZES"
  obtains g' where "toggle order (blk (pg_baseaddr g) order k) (push_free order (blk (pg_baseaddr g) order k) g) = Some g'"
    "rep n (kput order k K) g'" "pg_baseaddr g' = pg_baseaddr g"
proof -
  note r = repD [OF assms(1)] and fresh = not_free_notin [OF assms(2,4)]
  let ?g = "push_free order (blk (pg_baseaddr g) order k) g"
  let ?g' = "if order < PAGE_NSIZES - 1 then flip_map (Suc order) (k div 2) ?g else ?g"
  have range: "range_ok n ?g" using r(1) by (simp add: range_ok_def)
  have inside: "k * 2 ^ order < n" using assms(3) pages_first [of k order] by auto
  have "bits_ok (kput order k K) ?g'"
    using r(3) fresh by (intro bits_flip [where K = K]) (auto simp: bits_ok_def kput_def)
  moreover have "range_ok n ?g'" "lists_ok (kput order k K) ?g'" "pg_baseaddr ?g' = pg_baseaddr g"
    using range lists_push [OF r(2) fresh] by (simp_all add: range_ok_def lists_ok_def)
  moreover have "kpages (kput order k K) \<subseteq> {..<n}"
    using r(5) assms(3) by (simp add: kpages_put [OF assms(4)])
  ultimately have "rep n (kput order k K) ?g'" "pg_baseaddr ?g' = pg_baseaddr g"
    by (simp_all add: rep_def kdis_put [OF r(4) assms(2,4)])
  moreover have "toggle order (blk (pg_baseaddr g) order k) ?g = Some ?g'"
    using toggle_block [OF range inside] by simp
  ultimately show ?thesis using that by blast
qed

section \<open>Splitting\<close>

lemma blk_halves:
  "blk b (Suc order) k = blk b order (2 * k)"
  "blk b (Suc order) k + 2 ^ order * PAGE_BYTES = blk b order (Suc (2 * k))"
  by (simp_all add: blk_def algebra_simps)

lemma put_halves:
  assumes "rep n K g" "pages (Suc order) k \<inter> kpages K = {}" "pages (Suc order) k \<subseteq> {..<n}" "Suc order < PAGE_NSIZES"
  shows "rep n (kput order (Suc (2 * k)) (kput order (2 * k) K))
    (push_free order (blk (pg_baseaddr g) order (Suc (2 * k))) (push_free order (blk (pg_baseaddr g) order (2 * k)) g))"
    "kpages (kput order (Suc (2 * k)) (kput order (2 * k) K)) = kpages K \<union> pages (Suc order) k"
proof -
  note r = repD [OF assms(1)]
  let ?L = "kput order (2 * k) K"
  from assms(4) have small: "order < PAGE_NSIZES" by simp
  from assms(2) have apart: "pages order (2 * k) \<inter> kpages K = {}" "pages order (Suc (2 * k)) \<inter> kpages K = {}"
    by (auto simp: pages_halves)
  have apart2: "pages order (Suc (2 * k)) \<inter> kpages ?L = {}"
    using apart(2) pages_halves_disjoint [of order k] by (auto simp: kpages_put [OF small])
  note fresh = not_free_notin [OF apart(1) small] not_free_notin [OF apart2 small] not_free_notin [OF apart(2) small]
  show pages: "kpages (kput order (Suc (2 * k)) ?L) = kpages K \<union> pages (Suc order) k"
    by (auto simp: kpages_put [OF small] pages_halves)
  have "bits_ok (kput order (Suc (2 * k)) ?L) g" by (rule bits_put_pair [OF r(3) fresh(1,3)])
  moreover have "kdis (kput order (Suc (2 * k)) ?L)"
    by (intro kdis_put apart2 small apart(1) r(4))
  moreover note lists_push [OF lists_push [OF r(2) fresh(1)] fresh(2)]
  ultimately show "rep n (kput order (Suc (2 * k)) ?L) (push_free order (blk (pg_baseaddr g) order (Suc (2 * k)))
      (push_free order (blk (pg_baseaddr g) order (2 * k)) g))"
    using r(1,5) assms(3) by (simp add: rep_def range_ok_def bits_ok_def pages)
qed

lemma first_free:
  assumes "rep n K g" "pg_freelist g order \<noteq> []" "order < PAGE_NSIZES"
  obtains k where "k \<in> K order" "hd (pg_freelist g order) = blk (pg_baseaddr g) order k"
proof -
  have "hd (pg_freelist g order) \<in> set (pg_freelist g order)" using assms(2) by simp
  then have "hd (pg_freelist g order) \<in> blk (pg_baseaddr g) order ` K order"
    using repD(2) [OF assms(1)] assms(3) by (simp add: lists_ok_def)
  with that show thesis by blast
qed

lemma free_iff:
  "rep n K g \<Longrightarrow> order < PAGE_NSIZES \<Longrightarrow> pg_freelist g order = [] \<longleftrightarrow> K order = {}"
  using repD(2) [of n K g] by (simp add: lists_ok_def) (metis set_empty image_is_empty)

lemma halves_not_free:
  assumes "rep n K g" "k \<in> K (Suc order)" "Suc order < PAGE_NSIZES"
  shows "2 * k \<notin> K order" "Suc (2 * k) \<notin> K order"
proof -
  have apart: "pages order j \<inter> pages (Suc order) k = {}" if "j \<in> K order" for j
    using kdisD [OF repD(4) [OF assms(1)], of order "Suc order" j k] that assms(2,3) by auto
  from apart [of "2 * k"] apart [of "Suc (2 * k)"] show "2 * k \<notin> K order" "Suc (2 * k) \<notin> K order"
    by (auto simp: pages_halves)
qed

lemma split_block_rep:
  assumes "rep n K g" "K (Suc order) \<noteq> {}" "Suc order < PAGE_NSIZES"
  obtains g' K' where "page_split_block (Suc order) g = Some g'" "rep n K' g'"
    "kpages K' = kpages K" "K' order \<noteq> {}" "pg_baseaddr g' = pg_baseaddr g"
proof -
  note r = repD [OF assms(1)]
  have ne: "pg_freelist g (Suc order) \<noteq> []" using assms free_iff by blast
  obtain k where k: "k \<in> K (Suc order)" "hd (pg_freelist g (Suc order)) = blk (pg_baseaddr g) (Suc order) k"
    by (rule first_free [OF assms(1) ne assms(3)])
  obtain g1 g2 where g2: "drop_free (Suc order) (blk (pg_baseaddr g) (Suc order) k) g = Some g1"
    "toggle (Suc order) (blk (pg_baseaddr g) (Suc order) k) g1 = Some g2"
    "rep n (ktake (Suc order) k K) g2" "pg_baseaddr g2 = pg_baseaddr g"
    by (rule take_rep [OF assms(1) k(1) assms(3)])
  let ?K = "ktake (Suc order) k K"
  have pages: "kpages ?K = kpages K - pages (Suc order) k" by (rule kpages_take [OF r(4) k(1) assms(3)])
  have idx: "pagegroup_calculate_index g2 (Suc order) (blk (pg_baseaddr g) (Suc order) k) = Some k"
    using index_of_block [OF repD(1) [OF g2(3)] block_first_inside [OF assms(1) k(1) assms(3)] assms(3)] g2(4)
    by simp
  have "\<not> bit_check (pg_map g2 (Suc order)) k"
    using repD(3) [OF g2(3)] assms(3) halves_not_free [OF assms(1) k(1) assms(3)]
    by (simp add: bits_ok_def ktake_def)
  then have split: "page_split_block (Suc order) g = Some (push_free order (blk (pg_baseaddr g) order (Suc (2 * k)))
      (push_free order (blk (pg_baseaddr g) order (2 * k)) g2))"
    using assms(3) ne k(2) g2(1,2) idx
    by (simp add: page_split_block_def Let_def blk_halves(1) blk_halves(2) [of "pg_baseaddr g", unfolded blk_halves(1)])
  have inside: "pages (Suc order) k \<subseteq> kpages K" by (rule pages_subset [of k K "Suc order", OF k(1) assms(3)])
  note halves = put_halves [OF g2(3) _ _ assms(3), of k, unfolded g2(4) pages]
  show thesis
    using that [OF split halves(1)] halves(2) inside r(5) g2(4) by (auto simp: kput_def)
qed

lemma split_down_rep:
  assumes "rep n K g" "K (order + d) \<noteq> {}" "order + d < PAGE_NSIZES"
  shows "\<exists>g' K'. split_down d order g = Some g' \<and> rep n K' g' \<and> kpages K' = kpages K \<and> K' order \<noteq> {}
    \<and> pg_baseaddr g' = pg_baseaddr g"
  using assms
proof (induction d arbitrary: K g)
  case (Suc d)
  obtain g1 K1 where g1: "page_split_block (Suc (order + d)) g = Some g1" "rep n K1 g1"
    "kpages K1 = kpages K" "K1 (order + d) \<noteq> {}" "pg_baseaddr g1 = pg_baseaddr g"
    by (rule split_block_rep [of n K g "order + d"]) (use Suc.prems in auto)
  from Suc.IH [OF g1(2,4)] Suc.prems(3) g1(1,3,5) show ?case by fastforce
qed auto

section \<open>Joining\<close>

text \<open>The two halves of block \<open>k div 2\<close>: the block \<open>k\<close> and its buddy.\<close>

definition buddy :: "nat \<Rightarrow> nat" where
  "buddy k = (if k mod 2 = 1 then k - 1 else Suc k)"

lemma buddy_cases: "(k = 2 * (k div 2) \<and> buddy k = Suc (2 * (k div 2))) \<or> (k = Suc (2 * (k div 2)) \<and> buddy k = 2 * (k div 2))"
  unfolding buddy_def by presburger

lemma buddy_of_block: "buddy_of g order (blk (pg_baseaddr g) order k) = blk (pg_baseaddr g) order (buddy k)"
proof -
  have "(blk (pg_baseaddr g) order k - pg_baseaddr g) div PAGE_BYTES div 2 ^ order = k"
    by (simp add: blk_def page_consts)
  then show ?thesis
    by (cases k) (simp_all add: buddy_of_def buddy_def blk_def algebra_simps)
qed

lemma block_offset_aligned: "(blk b order k - b) mod 2 ^ order = 0"
  by (simp add: blk_def)

lemma min_buddy: "min (blk b order k) (blk b order (buddy k)) = blk b (Suc order) (k div 2)"
  using buddy_cases [of k] unfolding blk_halves(1) by (auto simp: blk_def min_def)

lemma pages_pair: "pages order k \<union> pages order (buddy k) = pages (Suc order) (k div 2)"
  using buddy_cases [of k] unfolding pages_halves by auto

lemma take_pair_rep:
  assumes "rep n K g" "k \<in> K order" "buddy k \<in> K order" "order < PAGE_NSIZES"
  obtains g1 g2 where "drop_free order (blk (pg_baseaddr g) order k) g = Some g1"
    "drop_free order (blk (pg_baseaddr g) order (buddy k)) g1 = Some g2"
    "rep n (ktake order (buddy k) (ktake order k K)) g2"
    "kpages (ktake order (buddy k) (ktake order k K)) = kpages K - pages (Suc order) (k div 2)"
    "pg_baseaddr g2 = pg_baseaddr g"
proof -
  note r = repD [OF assms(1)]
  let ?K = "ktake order (buddy k) (ktake order k K)"
  have other: "buddy k \<noteq> k" using buddy_cases [of k] by presburger
  then have left: "buddy k \<in> ktake order k K order" using assms(3) by (simp add: ktake_def)
  obtain g1 where g1: "drop_free order (blk (pg_baseaddr g) order k) g = Some g1" "lists_ok (ktake order k K) g1"
    "pg_map g1 = pg_map g" "pg_baseaddr g1 = pg_baseaddr g" "pg_endaddr g1 = pg_endaddr g"
    by (rule lists_drop [OF r(2) assms(2,4)])
  obtain g2 where g2: "drop_free order (blk (pg_baseaddr g1) order (buddy k)) g1 = Some g2" "lists_ok ?K g2"
    "pg_map g2 = pg_map g1" "pg_baseaddr g2 = pg_baseaddr g1" "pg_endaddr g2 = pg_endaddr g1"
    by (rule lists_drop [OF g1(2) left assms(4)])
  have pages: "kpages ?K = kpages K - pages (Suc order) (k div 2)"
    using kpages_take [OF kdis_take [OF r(4)] left assms(4)] kpages_take [OF r(4) assms(2,4)]
      pages_pair [of order k] by auto
  have "bits_ok ?K g"
  proof -
    let ?i = "k div 2"
    have "bits_ok (ktake order (Suc (2 * ?i)) (ktake order (2 * ?i) K)) g"
      using buddy_cases [of k] assms(2,3) by (intro bits_take_pair r(3)) metis+
    moreover have "?K = ktake order (Suc (2 * ?i)) (ktake order (2 * ?i) K)"
      using buddy_cases [of k] by (auto simp: ktake_def fun_eq_iff)
    ultimately show ?thesis by simp
  qed
  then have "rep n ?K g2"
    using r(1,5) g2(2-5) g1(3-5) pages kdis_take [OF kdis_take [OF r(4)]]
    by (auto simp: rep_def range_ok_def bits_ok_def)
  then show thesis using that [OF g1(1) _ _ pages] g2(1,4) g1(4) by simp
qed

lemma page_join_rep:
  assumes "rep n K g" "k \<in> K order" "order < PAGE_NSIZES"
  shows "\<exists>g' K'. page_join order (blk (pg_baseaddr g) order k) g = Some g' \<and> rep n K' g' \<and> kpages K' = kpages K
    \<and> pg_baseaddr g' = pg_baseaddr g"
  using assms
proof (induction "PAGE_NSIZES - order" arbitrary: order k K g)
  case (Suc d)
  note r = repD [OF Suc.prems(1)] and inside = block_first_inside [OF Suc.prems]
  show ?case
  proof (cases "order < PAGE_NSIZES - 1 \<and> \<not> bit_check (pg_map g (Suc order)) (k div 2)")
    case False
    then show ?thesis
      using Suc.prems(1) index_of_block [OF r(1) inside, of "Suc order", unfolded half_index]
      by (subst page_join.simps) (cases "Suc order < PAGE_NSIZES"; auto)
  next
    case True
    then have up: "Suc order < PAGE_NSIZES" and small: "order < PAGE_NSIZES" by auto
    have "buddy k \<in> K order"
      using r(3) True Suc.prems(2) buddy_cases [of k] unfolding bits_ok_def by metis
    obtain g1 g2 where g2: "drop_free order (blk (pg_baseaddr g) order k) g = Some g1"
      "drop_free order (blk (pg_baseaddr g) order (buddy k)) g1 = Some g2"
      "rep n (ktake order (buddy k) (ktake order k K)) g2"
      "kpages (ktake order (buddy k) (ktake order k K)) = kpages K - pages (Suc order) (k div 2)"
      "pg_baseaddr g2 = pg_baseaddr g"
      by (rule take_pair_rep [OF Suc.prems(1,2) \<open>buddy k \<in> K order\<close> small])
    let ?K2 = "ktake order (buddy k) (ktake order k K)"
    have free: "pages (Suc order) (k div 2) \<subseteq> kpages K"
      using pages_subset [of _ K order] Suc.prems(2) \<open>buddy k \<in> K order\<close> small pages_pair [of order k] by blast
    obtain g3 where g3: "toggle (Suc order) (blk (pg_baseaddr g2) (Suc order) (k div 2))
        (push_free (Suc order) (blk (pg_baseaddr g2) (Suc order) (k div 2)) g2) = Some g3"
      "rep n (kput (Suc order) (k div 2) ?K2) g3" "pg_baseaddr g3 = pg_baseaddr g2"
      by (rule put_rep [OF g2(3) _ _ up, of "k div 2"]) (use g2(4) free r(5) in auto)
    have pages: "kpages (kput (Suc order) (k div 2) ?K2) = kpages K"
      using free by (auto simp: kpages_put [OF up] g2(4))
    have step: "page_join order (blk (pg_baseaddr g) order k) g = page_join (Suc order) (blk (pg_baseaddr g3) (Suc order) (k div 2)) g3"
      using True g2(1,2,5) g3(1,3) index_of_block [OF r(1) inside up, unfolded half_index]
      by (subst page_join.simps) (simp add: Let_def buddy_of_block min_buddy block_offset_aligned)
    show ?thesis
      using Suc.hyps(1) [of "Suc order" "kput (Suc order) (k div 2) ?K2" g3 "k div 2"] Suc.hyps(2) g3(2,3) g2(5) up pages
      unfolding step by (simp add: kput_def)
  qed
qed simp

section \<open>The free pages of the system\<close>

definition blk_pages :: "nat \<Rightarrow> nat \<Rightarrow> nat set" where
  "blk_pages a order = (\<lambda>j. a + j * PAGE_BYTES) ` {..<2 ^ order}"

definition group_pages :: "pagegroup \<Rightarrow> nat set" where
  "group_pages g = (\<Union>order<PAGE_NSIZES. \<Union>a\<in>set (pg_freelist g order). blk_pages a order)"

definition free_pages :: "'a pagesys_scheme \<Rightarrow> nat set" where
  "free_pages s = (\<Union>g\<in>set (pagegroup_list s). group_pages g)"

definition apart :: "pagegroup \<Rightarrow> pagegroup \<Rightarrow> bool" where
  "apart g h \<longleftrightarrow> pg_endaddr g \<le> pg_baseaddr h \<or> pg_endaddr h \<le> pg_baseaddr g"

definition page_ok :: "'a pagesys_scheme \<Rightarrow> bool" where
  "page_ok s \<longleftrightarrow> (\<forall>g\<in>set (pagegroup_list s). \<exists>n K. rep n K g) \<and> sorted_wrt apart (pagegroup_list s)
     \<and> page_freecount s = of_nat (card (free_pages s))"

definition spans :: "'a pagesys_scheme \<Rightarrow> (nat \<times> nat) list" where
  "spans s = map (\<lambda>g. (pg_baseaddr g, pg_endaddr g)) (pagegroup_list s)"

lemma blk_pages_image: "blk_pages (blk b order k) order = (\<lambda>p. b + p * PAGE_BYTES) ` pages order k"
proof -
  have "pages order k = (\<lambda>j. k * 2 ^ order + j) ` {..<2 ^ order}"
    unfolding pages_def lessThan_atLeast0 image_add_atLeastLessThan by simp
  then show ?thesis by (auto simp: blk_pages_def blk_def image_image algebra_simps)
qed

lemma inj_page: "inj (\<lambda>p. b + p * PAGE_BYTES)"
  by (rule injI) (simp add: page_consts)

lemma group_pages_rep:
  assumes "rep n K g"
  shows "group_pages g = (\<lambda>p. pg_baseaddr g + p * PAGE_BYTES) ` kpages K"
  using repD(2) [OF assms] by (simp add: group_pages_def kpages_def lists_ok_def image_UN blk_pages_image)

lemma group_pages_range:
  assumes "rep n K g" "p \<in> group_pages g"
  shows "pg_baseaddr g \<le> p" "p < pg_endaddr g"
  using assms repD(1,5) [OF assms(1)] by (auto simp: group_pages_rep range_ok_def page_consts)

lemma finite_group_pages: "finite (group_pages g)"
  by (auto simp: group_pages_def blk_pages_def)

lemma finite_free_pages: "finite (free_pages s)"
  by (auto simp: free_pages_def finite_group_pages)

lemma card_blk_pages: "card (blk_pages a order) = 2 ^ order"
  by (simp add: blk_pages_def card_image inj_on_def page_consts)

lemma group_rep:
  assumes "page_ok s" "i < length (pagegroup_list s)"
  obtains n K where "rep n K (pagegroup_list s ! i)"
  using assms nth_mem unfolding page_ok_def by blast

lemma other_group:
  assumes "page_ok s" "i < length (pagegroup_list s)" "j < length (pagegroup_list s)" "i \<noteq> j"
  shows "apart (pagegroup_list s ! i) (pagegroup_list s ! j)"
  using assms sorted_wrt_nth_less [of apart "pagegroup_list s"] unfolding page_ok_def
  by (metis apart_def linorder_neqE_nat)

lemma free_pages_nth: "free_pages s = (\<Union>i<length (pagegroup_list s). group_pages (pagegroup_list s ! i))"
  by (auto simp: free_pages_def in_set_conv_nth) (use nth_mem in blast)

lemma free_pages_others:
  assumes "page_ok s" "i < length (pagegroup_list s)" "p \<in> free_pages s"
    "pg_baseaddr (pagegroup_list s ! i) \<le> p" "p < pg_endaddr (pagegroup_list s ! i)"
  shows "p \<in> group_pages (pagegroup_list s ! i)"
proof -
  from assms(3) obtain j where j: "j < length (pagegroup_list s)" "p \<in> group_pages (pagegroup_list s ! j)"
    by (auto simp: free_pages_nth)
  obtain n K where "rep n K (pagegroup_list s ! j)" by (rule group_rep [OF assms(1) j(1)])
  from group_pages_range [OF this j(2)] have "i = j"
    using other_group [OF assms(1,2) j(1)] assms(4,5) by (auto simp: apart_def)
  with j(2) show ?thesis by simp
qed

text \<open>Replacing one group by a new version of it.\<close>

lemma update_group:
  assumes ok: "page_ok s" and i: "i < length (pagegroup_list s)"
    and g: "rep n K (pagegroup_list s ! i)" and g': "rep n K' g'" "pg_baseaddr g' = pg_baseaddr (pagegroup_list s ! i)"
    and s': "pagegroup_list s' = (pagegroup_list s)[i := g']"
  shows "free_pages s' = free_pages s - group_pages (pagegroup_list s ! i) \<union> group_pages g'"
    and "spans s' = spans s"
    and "page_freecount s' = of_nat (card (free_pages s')) \<Longrightarrow> page_ok s'"
proof -
  let ?gs = "pagegroup_list s"
  have span: "pg_endaddr g' = pg_endaddr (?gs ! i)"
    using repD(1) [OF g] repD(1) [OF g'(1)] g'(2) by (simp add: range_ok_def)
  show "free_pages s' = free_pages s - group_pages (?gs ! i) \<union> group_pages g'"
  proof (intro equalityI subsetI)
    fix p
    assume "p \<in> free_pages s'"
    then obtain j where j: "j < length ?gs" "p \<in> group_pages (?gs[i := g'] ! j)"
      by (auto simp: free_pages_nth s')
    show "p \<in> free_pages s - group_pages (?gs ! i) \<union> group_pages g'"
    proof (cases "j = i")
      case False
      with j have p: "p \<in> group_pages (?gs ! j)" by simp
      obtain m L where "rep m L (?gs ! j)" by (rule group_rep [OF ok j(1)])
      with p False other_group [OF ok i j(1)] group_pages_range [OF this p] group_pages_range [OF g, of p]
      have "p \<notin> group_pages (?gs ! i)" unfolding apart_def by linarith
      with p j(1) show ?thesis by (auto simp: free_pages_nth)
    qed (use i j in simp)
  next
    fix p
    assume "p \<in> free_pages s - group_pages (?gs ! i) \<union> group_pages g'"
    then show "p \<in> free_pages s'"
      using i by (auto simp: free_pages_nth s' nth_list_update split: if_splits)
  qed
  show spans: "spans s' = spans s"
    using i g'(2) span by (auto simp: spans_def s' map_update list_eq_iff_nth_eq nth_list_update)
  have "sorted_wrt apart (pagegroup_list s')"
    using ok i g'(2) span unfolding page_ok_def s' sorted_wrt_iff_nth_less
    by (simp add: nth_list_update apart_def)
  moreover have "\<forall>h\<in>set (pagegroup_list s'). \<exists>n K. rep n K h"
    using ok g'(1) set_update_subset_insert [of ?gs i g'] unfolding page_ok_def s' by blast
  moreover assume "page_freecount s' = of_nat (card (free_pages s'))"
  ultimately show "page_ok s'" by (simp add: page_ok_def)
qed

section \<open>Allocating\<close>

lemma take_block_ok:
  assumes "page_ok s" "i < length (pagegroup_list s)" "pg_freelist (pagegroup_list s ! i) order \<noteq> []" "order < PAGE_NSIZES"
  obtains k s' where "take_block order i s = Some (blk (pg_baseaddr (pagegroup_list s ! i)) order k, s')"
    "page_ok s'" "spans s' = spans s"
    "blk_pages (blk (pg_baseaddr (pagegroup_list s ! i)) order k) order \<subseteq> group_pages (pagegroup_list s ! i)"
    "free_pages s' = free_pages s - blk_pages (blk (pg_baseaddr (pagegroup_list s ! i)) order k) order"
proof -
  let ?g = "pagegroup_list s ! i" and ?b = "pg_baseaddr (pagegroup_list s ! i)"
  obtain n K where g: "rep n K ?g" by (rule group_rep [OF assms(1,2)])
  obtain k where k: "k \<in> K order" "hd (pg_freelist ?g order) = blk ?b order k"
    by (rule first_free [OF g assms(3,4)])
  obtain g1 g2 where g2: "drop_free order (blk ?b order k) ?g = Some g1" "toggle order (blk ?b order k) g1 = Some g2"
    "rep n (ktake order k K) g2" "pg_baseaddr g2 = ?b"
    by (rule take_rep [OF g k(1) assms(4)])
  let ?s = "s\<lparr>pagegroup_list := (pagegroup_list s)[i := g2], page_freecount := page_freecount s - 2 ^ order\<rparr>"
  have inside: "blk_pages (blk ?b order k) order \<subseteq> group_pages ?g"
    using pages_subset [of k K order] k(1) assms(4) by (auto simp: group_pages_rep [OF g] blk_pages_image)
  have "group_pages g2 = group_pages ?g - blk_pages (blk ?b order k) order"
    unfolding group_pages_rep [OF g] group_pages_rep [OF g2(3)] g2(4) blk_pages_image
      kpages_take [OF repD(4) [OF g] k(1) assms(4)]
    by (rule image_set_diff [OF inj_page])
  moreover note upd = update_group [OF assms(1,2) g g2(3,4), of ?s]
  ultimately have pages: "free_pages ?s = free_pages s - blk_pages (blk ?b order k) order"
    using inside assms(2) by (auto simp: free_pages_nth)
  have free: "blk_pages (blk ?b order k) order \<subseteq> free_pages s" using inside assms(2) by (auto simp: free_pages_nth)
  have "card (free_pages s) = card (free_pages ?s) + 2 ^ order"
    using card_Diff_subset [OF finite_subset [OF free finite_free_pages] free]
      card_mono [OF finite_free_pages free] by (simp add: pages card_blk_pages)
  moreover have "page_freecount s = of_nat (card (free_pages s))"
    using assms(1) by (simp add: page_ok_def)
  ultimately have "page_freecount s = of_nat (card (free_pages ?s)) + 2 ^ order"
    by (metis of_nat_add of_nat_power of_nat_numeral)
  then have "page_freecount s - 2 ^ order = of_nat (card (free_pages ?s))"
    by (metis add_diff_cancel_right')
  then have "page_freecount ?s = of_nat (card (free_pages ?s))" by simp
  then have "page_ok ?s" using upd(3) by simp
  moreover have "take_block order i s = Some (blk ?b order k, ?s)"
    using assms(3) k(2) g2(1,2) by (simp add: take_block_def Let_def)
  ultimately show thesis using that inside pages upd(2) by simp
qed

end
