(* ===== verification/Page_Props.thy ===== *)
theory Page_Props
  imports Page_Inv
begin

text \<open>
  The promises of the page allocator: an allocation takes the pages of one block out of the set of
  free pages, a free puts them back, blocks in use never overlap, and a new range of memory is ready
  for use when its pages fill blocks of the largest size; otherwise a block at the end of the range
  that is used and freed stops the kernel.
\<close>

section \<open>Allocation\<close>

definition can_alloc :: "nat \<Rightarrow> 'a pagesys_scheme \<Rightarrow> bool" where
  "can_alloc order s \<longleftrightarrow> (\<exists>g\<in>set (pagegroup_list s). \<exists>norder\<in>{order..<PAGE_NSIZES}. pg_freelist g norder \<noteq> [])"

definition block_in :: "'a pagesys_scheme \<Rightarrow> nat \<Rightarrow> nat \<Rightarrow> bool" where
  "block_in s a order \<longleftrightarrow> order < PAGE_NSIZES \<and>
     (\<exists>(b, e)\<in>set (spans s). \<exists>k. a = blk b order k \<and> a + 2 ^ order * PAGE_BYTES \<le> e)"

lemma find_larger_Some:
  "find_larger ns gs = Some (n, i) \<Longrightarrow> n \<in> set ns \<and> i < length gs \<and> pg_freelist (gs ! i) n \<noteq> []"
  by (induction ns) (auto split: option.splits simp: find_idx_Some)

lemma find_larger_None:
  "find_larger ns gs = None \<longleftrightarrow> (\<forall>n\<in>set ns. \<forall>g\<in>set gs. pg_freelist g n = [])"
  by (induction ns) (auto split: option.splits simp: find_idx_Some find_idx_None)

lemma block_in_group:
  assumes "page_ok s" "i < length (pagegroup_list s)" "order < PAGE_NSIZES"
    "blk_pages (blk (pg_baseaddr (pagegroup_list s ! i)) order k) order \<subseteq> group_pages (pagegroup_list s ! i)"
  shows "block_in s (blk (pg_baseaddr (pagegroup_list s ! i)) order k) order"
    and "blk (pg_baseaddr (pagegroup_list s ! i)) order k \<noteq> 0"
proof -
  let ?g = "pagegroup_list s ! i"
  obtain n K where g: "rep n K ?g" by (rule group_rep [OF assms(1,2)])
  note r = repD(1) [OF g]
  from assms(4) have "pages order k \<subseteq> kpages K"
    unfolding group_pages_rep [OF g] blk_pages_image by (simp add: inj_image_subset_iff [OF inj_page])
  with repD(5) [OF g] have "pages order k \<subseteq> {..<n}" by simp
  then have "Suc k * 2 ^ order \<le> n"
    by (auto simp: pages_def ivl_subset lessThan_atLeast0)
  then have "blk (pg_baseaddr ?g) order k + 2 ^ order * PAGE_BYTES \<le> pg_endaddr ?g"
    using r mult_le_mono1 [of "Suc k * 2 ^ order" n PAGE_BYTES] by (simp add: range_ok_def blk_def algebra_simps)
  moreover have "(pg_baseaddr ?g, pg_endaddr ?g) \<in> set (spans s)"
    using assms(2) by (auto simp: spans_def)
  ultimately show "block_in s (blk (pg_baseaddr ?g) order k) order"
    using assms(3) unfolding block_in_def by blast
  show "blk (pg_baseaddr ?g) order k \<noteq> 0" using r by (simp add: range_ok_def blk_def)
qed

lemma take_block_step:
  assumes "page_ok s" "i < length (pagegroup_list s)" "pg_freelist (pagegroup_list s ! i) order \<noteq> []" "order < PAGE_NSIZES"
  shows "\<exists>a s'. take_block order i s = Some (a, s') \<and> page_ok s' \<and> spans s' = spans s \<and> a \<noteq> 0 \<and> block_in s a order
    \<and> blk_pages a order \<subseteq> free_pages s \<and> free_pages s' = free_pages s - blk_pages a order"
proof -
  obtain k s' where t: "take_block order i s = Some (blk (pg_baseaddr (pagegroup_list s ! i)) order k, s')"
    "page_ok s'" "spans s' = spans s"
    "blk_pages (blk (pg_baseaddr (pagegroup_list s ! i)) order k) order \<subseteq> group_pages (pagegroup_list s ! i)"
    "free_pages s' = free_pages s - blk_pages (blk (pg_baseaddr (pagegroup_list s ! i)) order k) order"
    by (rule take_block_ok [OF assms])
  moreover note block_in_group [OF assms(1,2,4) t(4)]
  moreover have "group_pages (pagegroup_list s ! i) \<subseteq> free_pages s" using assms(2) by (auto simp: free_pages_nth)
  ultimately show ?thesis by blast
qed

lemma split_step:
  assumes "page_ok s" "find_larger [order + 1..<PAGE_NSIZES] (pagegroup_list s) = Some (norder, i)"
  shows "\<exists>s'. page_split reclaim order s = Some (Some i, s') \<and> page_ok s' \<and> spans s' = spans s
    \<and> free_pages s' = free_pages s \<and> i < length (pagegroup_list s') \<and> pg_freelist (pagegroup_list s' ! i) order \<noteq> []"
proof -
  let ?g = "pagegroup_list s ! i"
  from find_larger_Some [OF assms(2)] have n: "order < norder" "norder < PAGE_NSIZES"
    and i: "i < length (pagegroup_list s)" "pg_freelist ?g norder \<noteq> []" by auto
  obtain m K where g: "rep m K ?g" by (rule group_rep [OF assms(1) i(1)])
  then have "K (order + (norder - order)) \<noteq> {}" using i(2) n free_iff by fastforce
  from split_down_rep [OF g this] n obtain g' K' where g':
    "split_down (norder - order) order ?g = Some g'" "rep m K' g'" "kpages K' = kpages K" "K' order \<noteq> {}"
    "pg_baseaddr g' = pg_baseaddr ?g" by auto
  then have ne: "pg_freelist g' order \<noteq> []" using free_iff [OF g'(2)] n by simp
  let ?s = "s\<lparr>pagegroup_list := (pagegroup_list s)[i := g']\<rparr>"
  note upd = update_group [OF assms(1) i(1) g g'(2,5), of ?s]
  have "group_pages g' = group_pages ?g"
    by (simp add: group_pages_rep [OF g] group_pages_rep [OF g'(2)] g'(3,5))
  then have same: "free_pages ?s = free_pages s" using upd(1) i(1) by (auto simp: free_pages_nth)
  then have "page_ok ?s" using upd(3) assms(1) by (simp add: page_ok_def)
  moreover have "page_split reclaim order s = Some (Some i, ?s)"
    using assms(2) g'(1) ne by (simp add: page_split_def)
  ultimately show ?thesis using same upd(2) ne i(1) by simp
qed

lemma page_alloc_step:
  assumes "page_ok s" "order < PAGE_NSIZES" "can_alloc order s"
  shows "\<exists>a s'. page_alloc_order reclaim order s = Some (a, s') \<and> page_ok s' \<and> spans s' = spans s \<and> a \<noteq> 0
    \<and> block_in s a order \<and> blk_pages a order \<subseteq> free_pages s \<and> free_pages s' = free_pages s - blk_pages a order"
proof (cases "find_idx (\<lambda>g. pg_freelist g order \<noteq> []) (pagegroup_list s)")
  case (Some i)
  then have "page_alloc_order reclaim order s = take_block order i s" by (simp add: page_alloc_order_def)
  with Some show ?thesis using take_block_step [OF assms(1) _ _ assms(2), of i] by (simp add: find_idx_Some)
next
  case None
  then have "\<forall>g\<in>set (pagegroup_list s). pg_freelist g order = []" by (simp add: find_idx_None)
  with assms(3) have "find_larger [order + 1..<PAGE_NSIZES] (pagegroup_list s) \<noteq> None"
    unfolding find_larger_None can_alloc_def
    by (metis Suc_eq_plus1 Suc_leI atLeastLessThan_iff le_neq_implies_less set_upt)
  then obtain n i where f: "find_larger [order + 1..<PAGE_NSIZES] (pagegroup_list s) = Some (n, i)" by auto
  from split_step [OF assms(1) f, of reclaim] obtain s1 where s1:
    "page_split reclaim order s = Some (Some i, s1)" "page_ok s1" "spans s1 = spans s" "free_pages s1 = free_pages s"
    "i < length (pagegroup_list s1)" "pg_freelist (pagegroup_list s1 ! i) order \<noteq> []" by blast
  from take_block_step [OF s1(2,5,6) assms(2)] show ?thesis
    using None s1(1,3,4) by (auto simp: page_alloc_order_def block_in_def)
qed

lemma page_alloc_fails:
  assumes "\<not> can_alloc order s" "order < PAGE_NSIZES"
  shows "page_alloc_order reclaim order s = map_option (Pair 0) (reclaim s)"
proof -
  have "find_idx (\<lambda>g. pg_freelist g order \<noteq> []) (pagegroup_list s) = None"
    "find_larger [order + 1..<PAGE_NSIZES] (pagegroup_list s) = None"
    using assms by (auto simp: can_alloc_def find_idx_None find_larger_None)
  then show ?thesis by (cases "reclaim s") (simp_all add: page_alloc_order_def page_split_def)
qed

text \<open>
  C5: An allocation of a block of \<open>2 ^ order\<close> pages succeeds when some group has a free block of that
  order or of a larger one.  The block lies in one group, on a multiple of its size, all its pages
  were free, and exactly these pages are no longer free; the count of free pages is the number of
  free pages before and after.  When there is no such block the slab caches are asked to give
  memory back and the allocation fails with a null pointer.
\<close>

theorem page_alloc_order_refines:
  assumes "page_ok s" "order < PAGE_NSIZES"
  shows "if can_alloc order s
    then \<exists>a s'. page_alloc_order reclaim order s = Some (a, s') \<and> page_ok s' \<and> a \<noteq> 0 \<and> block_in s a order
      \<and> blk_pages a order \<subseteq> free_pages s \<and> free_pages s' = free_pages s - blk_pages a order
      \<and> page_free_count s' = of_nat (card (free_pages s'))
    else page_alloc_order reclaim order s = map_option (Pair 0) (reclaim s)"
proof (cases "can_alloc order s")
  case True
  from page_alloc_step [OF assms True, of reclaim] True show ?thesis
    by (auto simp: page_free_count_def page_ok_def)
next
  case False
  then show ?thesis by (simp add: page_alloc_fails [OF False assms(2)])
qed

section \<open>Freeing\<close>

lemma pages_inside:
  assumes "rep n K g" "blk (pg_baseaddr g) order k + 2 ^ order * PAGE_BYTES \<le> pg_endaddr g"
  shows "pages order k \<subseteq> {..<n}"
proof -
  have "(Suc k * 2 ^ order) * PAGE_BYTES \<le> n * PAGE_BYTES"
    using assms(2) repD(1) [OF assms(1)] by (simp add: range_ok_def blk_def algebra_simps)
  then have "Suc k * 2 ^ order \<le> n" by (simp add: page_consts)
  then show ?thesis by (auto simp: pages_def)
qed

lemma free_group:
  assumes "rep n K g" "pages order k \<inter> kpages K = {}" "pages order k \<subseteq> {..<n}" "order < PAGE_NSIZES"
  obtains g' K' where "(let g1 = push_free order (blk (pg_baseaddr g) order k) g in
      if order < PAGE_NSIZES - 1 then toggle order (blk (pg_baseaddr g) order k) g1 \<bind> page_join order (blk (pg_baseaddr g) order k)
      else Some g1) = Some g'"
    "rep n K' g'" "kpages K' = kpages K \<union> pages order k" "pg_baseaddr g' = pg_baseaddr g"
proof -
  obtain g1 where g1: "toggle order (blk (pg_baseaddr g) order k) (push_free order (blk (pg_baseaddr g) order k) g) = Some g1"
    "rep n (kput order k K) g1" "pg_baseaddr g1 = pg_baseaddr g"
    by (rule put_rep [OF assms])
  have "k \<in> kput order k K order" by (simp add: kput_def)
  from page_join_rep [OF g1(2) this assms(4)] obtain g' K' where g':
    "page_join order (blk (pg_baseaddr g) order k) g1 = Some g'" "rep n K' g'" "kpages K' = kpages K \<union> pages order k"
    "pg_baseaddr g' = pg_baseaddr g" by (auto simp: g1(3) kpages_put [OF assms(4)])
  show thesis
  proof (cases "order < PAGE_NSIZES - 1")
    case True
    with that [OF _ g'(2-4)] g1(1) g'(1) show thesis by simp
  next
    case False
    with g1(1) have "g1 = push_free order (blk (pg_baseaddr g) order k) g" by (simp add: toggle_def)
    with that [OF _ g1(2)] g1(3) False show thesis by (simp add: kpages_put [OF assms(4)])
  qed
qed

lemma find_group:
  assumes "page_ok s" "block_in s a order"
  obtains i k where "pagegroup_from_address a s = Some i" "i < length (pagegroup_list s)"
    "a = blk (pg_baseaddr (pagegroup_list s ! i)) order k"
    "a + 2 ^ order * PAGE_BYTES \<le> pg_endaddr (pagegroup_list s ! i)"
proof -
  from assms(2) obtain i k where i: "i < length (pagegroup_list s)"
    "a = blk (pg_baseaddr (pagegroup_list s ! i)) order k" "a + 2 ^ order * PAGE_BYTES \<le> pg_endaddr (pagegroup_list s ! i)"
    by (auto simp: block_in_def spans_def in_set_conv_nth)
  have in_i: "pg_baseaddr (pagegroup_list s ! i) \<le> a" "a < pg_endaddr (pagegroup_list s ! i)"
  proof -
    show "pg_baseaddr (pagegroup_list s ! i) \<le> a" by (simp add: i(2) blk_def)
    have "0 < 2 ^ order * PAGE_BYTES" by (simp add: page_consts)
    with i(3) show "a < pg_endaddr (pagegroup_list s ! i)" by linarith
  qed
  have "\<not> (pg_baseaddr (pagegroup_list s ! j) \<le> a \<and> a < pg_endaddr (pagegroup_list s ! j))" if "j < i" for j
    using other_group [OF assms(1) i(1), of j] that i(1) in_i by (auto simp: apart_def)
  with in_i i(1) have "pagegroup_from_address a s = Some i"
    by (simp add: pagegroup_from_address_def find_idx_Some)
  with that i show thesis by blast
qed

lemma page_free_step:
  assumes "page_ok s" "block_in s a order" "blk_pages a order \<inter> free_pages s = {}"
  shows "\<exists>s'. page_free_order a order s = Some s' \<and> page_ok s' \<and> spans s' = spans s
    \<and> free_pages s' = free_pages s \<union> blk_pages a order"
proof -
  obtain i k where i: "pagegroup_from_address a s = Some i" "i < length (pagegroup_list s)"
    "a = blk (pg_baseaddr (pagegroup_list s ! i)) order k"
    "a + 2 ^ order * PAGE_BYTES \<le> pg_endaddr (pagegroup_list s ! i)"
    by (rule find_group [OF assms(1,2)])
  let ?g = "pagegroup_list s ! i" and ?b = "pg_baseaddr (pagegroup_list s ! i)"
  have small: "order < PAGE_NSIZES" using assms(2) by (simp add: block_in_def)
  obtain n K where g: "rep n K ?g" by (rule group_rep [OF assms(1) i(2)])
  have sub: "group_pages ?g \<subseteq> free_pages s" using i(2) by (auto simp: free_pages_nth)
  then have "blk_pages a order \<inter> group_pages ?g = {}" using assms(3) by blast
  then have out: "pages order k \<inter> kpages K = {}"
    unfolding i(3) group_pages_rep [OF g] blk_pages_image by blast
  obtain g' K' where g': "(let g1 = push_free order a ?g in
      if order < PAGE_NSIZES - 1 then toggle order a g1 \<bind> page_join order a else Some g1) = Some g'"
    "rep n K' g'" "kpages K' = kpages K \<union> pages order k" "pg_baseaddr g' = ?b"
    using free_group [OF g out pages_inside [OF g, of order k] small] i(3,4) by metis
  let ?s = "s\<lparr>pagegroup_list := (pagegroup_list s)[i := g'], page_freecount := page_freecount s + 2 ^ order\<rparr>"
  note upd = update_group [OF assms(1) i(2) g g'(2,4), of ?s]
  have "group_pages g' = group_pages ?g \<union> blk_pages a order"
    unfolding group_pages_rep [OF g] group_pages_rep [OF g'(2)] g'(3,4) i(3) blk_pages_image image_Un ..
  then have pages: "free_pages ?s = free_pages s \<union> blk_pages a order"
    using upd(1) sub by auto
  have fin: "finite (blk_pages a order)" by (simp add: blk_pages_def)
  have "card (free_pages ?s) = card (free_pages s) + 2 ^ order"
    unfolding pages using card_Un_disjoint [OF finite_free_pages fin, of s] assms(3) card_blk_pages
    by (simp add: Int_commute)
  then have "page_ok ?s" using upd(3) assms(1) by (simp add: page_ok_def)
  moreover have "page_free_order a order s = Some ?s"
    using i(1) g'(1) by (simp add: page_free_order_def Let_def)
  ultimately show ?thesis using pages upd(2) by simp
qed

section \<open>Blocks in use\<close>

text \<open>
  Any sequence of successful allocations and of frees of blocks in use, from a state with no block
  in use.  The list holds the address and the order of every block in use.
\<close>

inductive page_run :: "'a pagesys_scheme \<Rightarrow> 'a pagesys_scheme \<times> (nat \<times> nat) list \<Rightarrow> bool" for s0 where
  page_run_start: "page_run s0 (s0, [])"
| page_run_alloc: "page_run s0 (s, held) \<Longrightarrow> order < PAGE_NSIZES \<Longrightarrow>
    page_alloc_order reclaim order s = Some (a, s') \<Longrightarrow> can_alloc order s \<Longrightarrow> page_run s0 (s', (a, order) # held)"
| page_run_free: "page_run s0 (s, held) \<Longrightarrow> (a, order) \<in> set held \<Longrightarrow>
    page_free_order a order s = Some s' \<Longrightarrow> page_run s0 (s', remove1 (a, order) held)"

definition held_ok :: "'a pagesys_scheme \<Rightarrow> (nat \<times> nat) list \<Rightarrow> bool" where
  "held_ok s held \<longleftrightarrow> (\<forall>(a, order)\<in>set held. block_in s a order \<and> blk_pages a order \<inter> free_pages s = {})
     \<and> sorted_wrt (\<lambda>(a, o1) (b, o2). blk_pages a o1 \<inter> blk_pages b o2 = {}) held"

lemma block_in_spans: "spans s' = spans s \<Longrightarrow> block_in s' a order = block_in s a order"
  by (simp add: block_in_def)

lemma sorted_wrt_remove1: "sorted_wrt P xs \<Longrightarrow> sorted_wrt P (remove1 x xs)"
  by (induction xs) (use notin_set_remove1 in fastforce)+

lemma held_remove1:
  assumes "sorted_wrt (\<lambda>(a, o1) (b, o2). blk_pages a o1 \<inter> blk_pages b o2 = {}) held"
    "(a, order) \<in> set held" "(b, o2) \<in> set (remove1 (a, order) held)"
  shows "blk_pages a order \<inter> blk_pages b o2 = {}"
  using assms
proof (induction held)
  case (Cons x xs)
  show ?case
  proof (cases "x = (a, order)")
    case True
    with Cons.prems show ?thesis by auto
  next
    case False
    with Cons.prems(2,3) have mem: "(a, order) \<in> set xs" "(b, o2) = x \<or> (b, o2) \<in> set (remove1 (a, order) xs)" by auto
    from Cons.prems(1) mem(1) have "(\<lambda>(a, o1) (b, o2). blk_pages a o1 \<inter> blk_pages b o2 = {}) x (a, order)" by simp
    with Cons.IH Cons.prems(1) mem show ?thesis by (auto simp: Int_commute)
  qed
qed simp

lemma page_run_inv:
  assumes "page_run s0 c" "page_ok s0"
  shows "page_ok (fst c) \<and> held_ok (fst c) (snd c)"
  using assms
proof (induction rule: page_run.induct)
  case page_run_start
  then show ?case by (simp add: held_ok_def)
next
  case (page_run_alloc s held order reclaim a s')
  then have ok: "page_ok s" and held: "held_ok s held" by simp_all
  from page_alloc_step [OF ok page_run_alloc.hyps(2,4), of reclaim] page_run_alloc.hyps(3)
  have s': "page_ok s'" "spans s' = spans s" "block_in s a order" "blk_pages a order \<subseteq> free_pages s"
    "free_pages s' = free_pages s - blk_pages a order" by auto
  with held have "held_ok s' ((a, order) # held)"
    by (auto simp: held_ok_def block_in_spans [OF s'(2)] split: prod.splits) blast+
  with s'(1) show ?case by simp
next
  case (page_run_free s held a order s')
  then have ok: "page_ok s" and held: "held_ok s held" by simp_all
  from held page_run_free.hyps(2) have a: "block_in s a order" "blk_pages a order \<inter> free_pages s = {}"
    by (auto simp: held_ok_def)
  from page_free_step [OF ok a] page_run_free.hyps(3)
  have s': "page_ok s'" "spans s' = spans s" "free_pages s' = free_pages s \<union> blk_pages a order" by auto
  have "block_in s' b o2 \<and> blk_pages b o2 \<inter> free_pages s' = {}" if b: "(b, o2) \<in> set (remove1 (a, order) held)" for b o2
  proof -
    from b have "(b, o2) \<in> set held" using set_remove1_subset by (metis subsetD)
    with held have "block_in s b o2" "blk_pages b o2 \<inter> free_pages s = {}" by (auto simp: held_ok_def)
    moreover have "blk_pages a order \<inter> blk_pages b o2 = {}"
      using held held_remove1 [OF _ page_run_free.hyps(2) b] by (simp add: held_ok_def)
    ultimately show ?thesis using s'(3) by (auto simp: block_in_spans [OF s'(2)])
  qed
  moreover have "sorted_wrt (\<lambda>(a, o1) (b, o2). blk_pages a o1 \<inter> blk_pages b o2 = {}) (remove1 (a, order) held)"
    using held by (intro sorted_wrt_remove1) (simp add: held_ok_def)
  ultimately have "held_ok s' (remove1 (a, order) held)" by (auto simp: held_ok_def)
  with s'(1) show ?case by simp
qed


section \<open>New ranges\<close>

lemma tail_blocks_none:
  "\<forall>order\<in>set os. npages div 2 ^ order mod 2 \<noteq> 1 \<Longrightarrow> tail_blocks npages os st = st"
  by (induction os arbitrary: st) auto

lemma no_tail:
  assumes "n mod 2 ^ (PAGE_NSIZES - 1) = (0::nat)" "order < PAGE_NSIZES - 1"
  shows "n div 2 ^ order mod 2 \<noteq> 1"
proof -
  from assms(2) have "(2::nat) ^ Suc order dvd 2 ^ (PAGE_NSIZES - 1)" by (intro le_imp_power_dvd) simp
  with assms(1) have "2 ^ Suc order dvd n" by (meson dvd_trans mod_0_imp_dvd)
  then obtain q where "n = 2 ^ order * (2 * q)" by (auto simp: algebra_simps elim: dvdE)
  then show ?thesis by simp
qed

lemma large_blocks_sel [simp]:
  "pg_map (large_blocks cur limit g) = pg_map g"
  "pg_baseaddr (large_blocks cur limit g) = pg_baseaddr g"
  "pg_endaddr (large_blocks cur limit g) = pg_endaddr g"
  by (induction cur limit g rule: large_blocks.induct) (subst large_blocks.simps; simp)+

declare large_blocks.simps [simp del]

lemma large_blocks_lists:
  assumes "j \<le> m" "lists_ok (\<lambda>order. if order = PAGE_NSIZES - 1 then {..<j} else {}) g" "pg_baseaddr g = b"
  shows "lists_ok (\<lambda>order. if order = PAGE_NSIZES - 1 then {..<m} else {})
    (large_blocks (blk b (PAGE_NSIZES - 1) j) (blk b (PAGE_NSIZES - 1) m) g)"
  using assms
proof (induction "m - j" arbitrary: j g)
  case 0
  then show ?case by (subst large_blocks.simps) auto
next
  case (Suc d)
  have less: "blk b (PAGE_NSIZES - 1) j < blk b (PAGE_NSIZES - 1) m"
    and step: "blk b (PAGE_NSIZES - 1) j + 2 ^ (PAGE_NSIZES - 1) * PAGE_BYTES = blk b (PAGE_NSIZES - 1) (Suc j)"
    using Suc.hyps(2) by (auto simp: blk_def page_consts)
  have "lists_ok (kput (PAGE_NSIZES - 1) j (\<lambda>order. if order = PAGE_NSIZES - 1 then {..<j} else {}))
      (push_free (PAGE_NSIZES - 1) (blk b (PAGE_NSIZES - 1) j) g)"
    using lists_push [OF Suc.prems(2), of j "PAGE_NSIZES - 1"] Suc.prems(3) by simp
  moreover have "kput (PAGE_NSIZES - 1) j (\<lambda>order. if order = PAGE_NSIZES - 1 then {..<j} else {})
      = (\<lambda>order. if order = PAGE_NSIZES - 1 then {..<Suc j} else {})"
    by (auto simp: kput_def fun_eq_iff lessThan_Suc)
  ultimately have pushed: "lists_ok (\<lambda>order. if order = PAGE_NSIZES - 1 then {..<Suc j} else {})
      (push_free (PAGE_NSIZES - 1) (blk b (PAGE_NSIZES - 1) j) g)" by simp
  have eq: "large_blocks (blk b (PAGE_NSIZES - 1) j) (blk b (PAGE_NSIZES - 1) m) g
      = large_blocks (blk b (PAGE_NSIZES - 1) (Suc j)) (blk b (PAGE_NSIZES - 1) m)
          (push_free (PAGE_NSIZES - 1) (blk b (PAGE_NSIZES - 1) j) g)"
    unfolding step [symmetric] using less by (subst large_blocks.simps) (simp only: if_True)
  have "d = m - Suc j" "Suc j \<le> m" using Suc.hyps(2) by auto
  then show ?case unfolding eq by (intro Suc.hyps(1) pushed) (simp_all add: Suc.prems(3))
qed

lemma all_pages: "(\<Union>k<m. pages order k) = {..<m * 2 ^ order}"
proof (intro equalityI subsetI)
  fix p
  assume "p \<in> {..<m * 2 ^ order}"
  then have "p div 2 ^ order < m" by (simp add: less_mult_imp_div_less)
  moreover have "p \<in> pages order (p div 2 ^ order)"
    by (simp add: pages_def dividend_less_div_times)
  ultimately show "p \<in> (\<Union>k<m. pages order k)" by blast
next
  fix p
  assume "p \<in> (\<Union>k<m. pages order k)"
  then obtain k where "k < m" "p < Suc k * 2 ^ order" by (auto simp: pages_def)
  then show "p \<in> {..<m * 2 ^ order}" by (meson Suc_leI lessThan_iff mult_le_mono1 order_less_le_trans)
qed

lemma create_rep:
  assumes "0 < start" "start mod PAGE_BYTES = 0" "group_end start limit = start + n * PAGE_BYTES"
    and "n mod 2 ^ (PAGE_NSIZES - 1) = 0"
  obtains g K where "pagegroup_create start limit = Some g" "rep n K g" "kpages K = {..<n}" "pg_baseaddr g = start"
proof -
  let ?m = "n div 2 ^ (PAGE_NSIZES - 1)" and ?top = "PAGE_NSIZES - 1"
  let ?g = "\<lparr>pg_freelist = (\<lambda>_. []), pg_map = (\<lambda>_ _. 0), pg_baseaddr = start, pg_endaddr = start + n * PAGE_BYTES\<rparr>"
  let ?K = "\<lambda>order. if order = ?top then {..<?m} else {}"
  let ?h = "large_blocks start (start + n * PAGE_BYTES) ?g"
  have n: "n = ?m * 2 ^ ?top" using assms(4) by (simp add: mod_0_imp_dvd)
  then have e: "start + n * PAGE_BYTES = blk start ?top ?m" by (simp add: blk_def)
  have "lists_ok ?K (large_blocks (blk start ?top 0) (blk start ?top ?m) ?g)"
    by (rule large_blocks_lists) (simp_all add: lists_ok_def)
  then have lists: "lists_ok ?K ?h" by (simp add: e blk_def)
  have pages: "kpages ?K = {..<n}"
  proof -
    have "kpages ?K = (\<Union>k<?m. pages ?top k)" by (auto simp: kpages_def page_consts split: if_splits)
    then show ?thesis using n by (simp add: all_pages)
  qed
  have "kdis ?K"
    by (auto simp: kdis_def pages_def split: if_splits) (metis Suc_leI linorder_neqE_nat mult_le_mono1 mult_Suc not_le order_less_le_trans)
  then have "rep n ?K ?h"
    using assms(1,2,4) lists pages by (auto simp: rep_def range_ok_def bits_ok_def bit_check_def page_consts)
  moreover have "pagegroup_create start limit = Some ?h"
    using tail_blocks_none [of "[0..<PAGE_NSIZES - 1]" n] no_tail [OF assms(4)]
    by (simp add: pagegroup_create_def assms(3) Let_def) (simp add: page_consts kassert_def)
  ultimately show thesis using that pages by simp
qed

lemma add_range_step:
  assumes "page_ok s" "0 < PAGE_ALIGN_DOWN start"
    and "group_end (PAGE_ALIGN_DOWN start) (PAGE_ALIGN_DOWN limit) = PAGE_ALIGN_DOWN start + n * PAGE_BYTES"
    and "0 < n" "n mod 2 ^ (PAGE_NSIZES - 1) = 0"
    and "\<forall>(b, e)\<in>set (spans s). e \<le> PAGE_ALIGN_DOWN start \<or> PAGE_ALIGN_DOWN start + n * PAGE_BYTES \<le> b"
  shows "\<exists>s'. page_add_range start limit s = Some s' \<and> page_ok s'
    \<and> spans s' = spans s @ [(PAGE_ALIGN_DOWN start, PAGE_ALIGN_DOWN start + n * PAGE_BYTES)]
    \<and> free_pages s' = free_pages s \<union> (\<lambda>p. PAGE_ALIGN_DOWN start + p * PAGE_BYTES) ` {..<n}"
proof -
  let ?b = "PAGE_ALIGN_DOWN start"
  have "?b mod PAGE_BYTES = 0" by (simp add: PAGE_ALIGN_DOWN_def)
  then obtain g K where g: "pagegroup_create ?b (PAGE_ALIGN_DOWN limit) = Some g" "rep n K g" "kpages K = {..<n}" "pg_baseaddr g = ?b"
    by (rule create_rep [OF assms(2) _ assms(3,5)])
  have e: "pg_endaddr g = ?b + n * PAGE_BYTES" using repD(1) [OF g(2)] g(4) by (simp add: range_ok_def)
  have pages: "group_pages g = (\<lambda>p. ?b + p * PAGE_BYTES) ` {..<n}" by (simp add: group_pages_rep [OF g(2)] g(3,4))
  let ?s = "s\<lparr>pagegroup_list := pagegroup_list s @ [g], page_freecount := page_freecount s + of_nat n\<rparr>"
  have add: "page_add_range start limit s = Some ?s"
    using assms(4) by (simp add: page_add_range_def g(1,4) e page_consts)
  have apart: "\<forall>h\<in>set (pagegroup_list s). apart h g" using assms(6) by (auto simp: spans_def apart_def g(4) e)
  have "p \<notin> group_pages g" if "p \<in> free_pages s" for p
  proof -
    from that obtain h where h: "h \<in> set (pagegroup_list s)" "p \<in> group_pages h" by (auto simp: free_pages_def)
    then obtain m L where "rep m L h" using assms(1) by (auto simp: page_ok_def)
    from group_pages_range [OF this h(2)] group_pages_range [OF g(2), of p] apart h(1) show ?thesis
      by (fastforce simp: apart_def)
  qed
  then have "free_pages s \<inter> group_pages g = {}" by blast
  moreover have "card (group_pages g) = n"
    unfolding pages using card_image [OF inj_on_subset [OF inj_page subset_UNIV]] by simp
  moreover have free: "free_pages ?s = free_pages s \<union> group_pages g" by (auto simp: free_pages_def)
  ultimately have "card (free_pages ?s) = card (free_pages s) + n"
    using card_Un_disjoint [OF finite_free_pages finite_group_pages] by metis
  then have "page_ok ?s"
    using assms(1) g(2) apart by (auto simp: page_ok_def sorted_wrt_append)
  then show ?thesis using add free pages e g(4) by (simp add: spans_def)
qed

section \<open>A range of 128 pages\<close>

definition no_pages :: pagesys where
  "no_pages = page_init \<lparr>pagegroup_list = [], page_freecount = 0\<rparr>"

definition demo_pages :: pagesys where
  "demo_pages = (case page_add_range 4096 532480 no_pages of Some s \<Rightarrow> s | None \<Rightarrow> no_pages)"

lemma page_init_ok: "page_ok (page_init s)"
  by (simp add: page_ok_def page_init_def free_pages_def)

lemma demo_group_end:
  "PAGE_ALIGN_DOWN 4096 = 4096" "PAGE_ALIGN_DOWN 532480 = 532480" "group_end 4096 532480 = 4096 + 128 * PAGE_BYTES"
proof -
  show "PAGE_ALIGN_DOWN 4096 = 4096" "PAGE_ALIGN_DOWN 532480 = 532480" by (simp_all add: PAGE_ALIGN_DOWN_def page_consts)
  have upt: "[1..<PAGE_NSIZES] = [1, 2, 3, 4, 5, 6, 7]" by (simp add: page_consts upt_rec)
  show "group_end 4096 532480 = 4096 + 128 * PAGE_BYTES"
    unfolding group_end_def upt by (simp add: PAGE_ALIGN_DOWN_def map_bytes_def page_consts)
qed

lemma demo_pages_added:
  "page_ok demo_pages" "spans demo_pages = [(4096, 4096 + 128 * PAGE_BYTES)]"
  "free_pages demo_pages = (\<lambda>p. 4096 + p * PAGE_BYTES) ` {..<128}"
proof -
  have none: "spans no_pages = []" "free_pages no_pages = {}" by (simp_all add: spans_def no_pages_def page_init_def free_pages_def)
  have "\<exists>s'. page_add_range 4096 532480 no_pages = Some s' \<and> page_ok s'
    \<and> spans s' = spans no_pages @ [(4096, 4096 + 128 * PAGE_BYTES)]
    \<and> free_pages s' = free_pages no_pages \<union> (\<lambda>p. 4096 + p * PAGE_BYTES) ` {..<128}"
    by (rule add_range_step [OF page_init_ok [of "\<lparr>pagegroup_list = [], page_freecount = 0\<rparr>", folded no_pages_def], of 4096 532480 128, unfolded demo_group_end])
      (simp_all add: none page_consts)
  then show "page_ok demo_pages" "spans demo_pages = [(4096, 4096 + 128 * PAGE_BYTES)]"
    "free_pages demo_pages = (\<lambda>p. 4096 + p * PAGE_BYTES) ` {..<128}"
    unfolding none demo_pages_def by auto
qed

lemma demo_pages_can: "can_alloc 0 demo_pages"
proof -
  have "4096 \<in> free_pages demo_pages" by (auto simp: demo_pages_added(3))
  then show ?thesis by (force simp: free_pages_def group_pages_def can_alloc_def)
qed

text \<open>The allocation of one page from the 128.\<close>

theorem page_alloc_order_refines_witness:
  "page_ok demo_pages \<and> (\<exists>a s'. page_alloc_order Some 0 demo_pages = Some (a, s') \<and> free_pages s' = free_pages demo_pages - blk_pages a 0)"
  using page_alloc_order_refines [OF demo_pages_added(1), of 0 Some] demo_pages_can demo_pages_added(1)
  by (auto simp: page_consts)


section \<open>The end of a range\<close>

lemma tail_blocks_sel:
  "pg_map (snd (tail_blocks n os (e, g))) = pg_map g"
  "pg_baseaddr (snd (tail_blocks n os (e, g))) = pg_baseaddr g"
  "pg_endaddr (snd (tail_blocks n os (e, g))) = pg_endaddr g"
  "order \<notin> set os \<Longrightarrow> pg_freelist (snd (tail_blocks n os (e, g))) order = pg_freelist g order"
  by (induction os arbitrary: e g) (auto simp: Let_def push_free_def)

lemma large_blocks_lists_same:
  "order \<noteq> PAGE_NSIZES - 1 \<Longrightarrow> pg_freelist (large_blocks cur limit g) order = pg_freelist g order"
  by (induction cur limit g rule: large_blocks.induct) (subst large_blocks.simps, simp add: push_free_def)

lemma create_odd:
  assumes "pagegroup_create start limit = Some g" "odd ((group_end start limit - start) div PAGE_BYTES)"
  shows "pg_freelist g 0 = [group_end start limit - PAGE_BYTES]" "pg_map g = (\<lambda>_ _. 0)"
    "pg_baseaddr g = start" "pg_endaddr g = group_end start limit"
proof -
  let ?e = "group_end start limit" and ?n = "(group_end start limit - start) div PAGE_BYTES"
  let ?g = "\<lparr>pg_freelist = (\<lambda>_. []), pg_map = (\<lambda>_ _. 0), pg_baseaddr = start, pg_endaddr = ?e\<rparr>"
  have upt: "[0..<PAGE_NSIZES - 1] = 0 # [1..<PAGE_NSIZES - 1]" by (simp add: upt_rec page_consts)
  obtain e' h where h: "tail_blocks ?n [0..<PAGE_NSIZES - 1] (?e, ?g) = (e', h)" by fastforce
  then have "(e', h) = tail_blocks ?n [1..<PAGE_NSIZES - 1] (?e - PAGE_BYTES, push_free 0 (?e - PAGE_BYTES) ?g)"
    using assms(2) unfolding upt by (simp add: Let_def odd_iff_mod_2_eq_one)
  then have "h = snd (tail_blocks ?n [1..<PAGE_NSIZES - 1] (?e - PAGE_BYTES, push_free 0 (?e - PAGE_BYTES) ?g))"
    by (metis snd_conv)
  then have h': "pg_freelist h 0 = [?e - PAGE_BYTES]" "pg_map h = (\<lambda>_ _. 0)" "pg_baseaddr h = start" "pg_endaddr h = ?e"
    by (simp_all add: tail_blocks_sel push_free_def)
  have "g = large_blocks start e' h"
    using assms(1) h by (auto simp: pagegroup_create_def Let_def kassert_def split: if_splits)
  with h' show "pg_freelist g 0 = [?e - PAGE_BYTES]" "pg_map g = (\<lambda>_ _. 0)" "pg_baseaddr g = start" "pg_endaddr g = ?e"
    by (simp_all add: large_blocks_lists_same page_consts)
qed

text \<open>
  C31: The bits of a new range take no account of the blocks at its end that have no neighbour.  When
  the number of pages of a range is odd, the first page allocated from it is the last page of the
  range, and freeing that page joins it with the page after the end of the range, which is on no
  list: the kernel stops.
\<close>

theorem page_free_after_range_end:
  assumes "pagegroup_create start limit = Some g" "start < pg_endaddr g" "start mod PAGE_BYTES = 0"
    and "odd ((pg_endaddr g - pg_baseaddr g) div PAGE_BYTES)"
  shows "\<exists>s. page_alloc reclaim \<lparr>pagegroup_list = [g], page_freecount = c\<rparr> = Some (pg_endaddr g - PAGE_BYTES, s)
    \<and> page_free (pg_endaddr g - PAGE_BYTES) s = None"
proof -
  have sel0: "pg_baseaddr g = start" "pg_endaddr g = group_end start limit"
    using assms(1) by (auto simp: pagegroup_create_def Let_def kassert_def tail_blocks_sel split: if_splits prod.splits)
      (metis snd_conv tail_blocks_sel(2,3) pagegroup.select_convs(3,4))+
  note g = create_odd [OF assms(1) assms(4) [unfolded sel0]]
  define n where "n = (pg_endaddr g - start) div PAGE_BYTES"
  have "pg_endaddr g mod PAGE_BYTES = 0" by (simp add: g(4) group_end_def PAGE_ALIGN_DOWN_def)
  with assms(2,3) have e: "pg_endaddr g = start + n * PAGE_BYTES"
    by (simp add: n_def) (metis dvd_div_mult_self le_add_diff_inverse less_imp_le mod_0_imp_dvd dvd_diff_nat)
  obtain m where m: "n = Suc (2 * m)" using assms(4) g(3) by (auto simp: n_def elim: oddE)
  let ?a = "start + 2 * m * PAGE_BYTES"
  have a: "pg_endaddr g - PAGE_BYTES = ?a" by (simp add: e m)
  have idx: "pagegroup_calculate_index h 1 ?a = Some m" if "pg_baseaddr h = start" "pg_endaddr h = pg_endaddr g" for h
  proof -
    have "?a mod PAGE_BYTES = 0" using assms(3) by simp
    then show ?thesis using that e m by (simp add: pagegroup_calculate_index_def kassert_def) (simp add: page_consts)
  qed
  let ?h = "flip_map 1 m (g\<lparr>pg_freelist := (pg_freelist g)(0 := [])\<rparr>)"
  have buddy: "buddy_of h 0 ?a = ?a + PAGE_BYTES" if "pg_baseaddr h = start" for h
    using that by (simp add: buddy_of_def page_consts)
  let ?s = "\<lparr>pagegroup_list = [?h], page_freecount = c - 1\<rparr>"
  have alloc: "page_alloc reclaim \<lparr>pagegroup_list = [g], page_freecount = c\<rparr> = Some (?a, ?s)"
    using g(1,3,4) a idx [of "g\<lparr>pg_freelist := (pg_freelist g)(0 := [])\<rparr>"]
    by (simp add: page_alloc_def page_alloc_order_def take_block_def drop_free_def toggle_def page_consts)
  let ?p = "flip_map 1 m (push_free 0 ?a ?h)"
  have p: "pg_baseaddr ?p = start" "pg_endaddr ?p = pg_endaddr g" "pg_freelist ?p 0 = [?a]"
    using g by (simp_all add: push_free_def)
  have "\<not> bit_check (pg_map ?p 1) m" by (simp add: bit_check_flip g(2)) (simp add: bit_check_def)
  then have "page_join 0 ?a ?p = None"
    using p idx [OF p(1,2)] buddy [OF p(1)]
    by (subst page_join.simps) (simp add: drop_free_def page_consts)
  moreover have "page_free_order ?a 0 ?s = toggle 0 ?a (push_free 0 ?a ?h) \<bind> page_join 0 ?a \<bind> (\<lambda>g'. Some \<lparr>pagegroup_list = [g'], page_freecount = c\<rparr>)"
    using g(3,4) e m by (simp add: page_free_order_def pagegroup_from_address_def page_consts)
  moreover have "toggle 0 ?a (push_free 0 ?a ?h) = Some ?p"
    using idx [of "push_free 0 ?a ?h"] g(3,4) by (simp add: toggle_def page_consts)
  ultimately show ?thesis using alloc a by (simp add: page_free_def)
qed

text \<open>A range of two pages, one of which is needed for the group itself.\<close>

theorem page_free_after_range_end_witness:
  "\<exists>g s. pagegroup_create 4096 12288 = Some g \<and> page_alloc Some \<lparr>pagegroup_list = [g], page_freecount = 1\<rparr> = Some (4096, s)
    \<and> page_free 4096 s = None"
proof -
  have upt: "[1..<PAGE_NSIZES] = [1, 2, 3, 4, 5, 6, 7]" "[0..<PAGE_NSIZES - 1] = [0, 1, 2, 3, 4, 5, 6]"
    by (simp_all add: page_consts upt_rec)
  have e: "group_end 4096 12288 = 8192"
    unfolding group_end_def upt by (simp add: PAGE_ALIGN_DOWN_def map_bytes_def page_consts)
  obtain g where g: "pagegroup_create 4096 12288 = Some g" "pg_baseaddr g = 4096" "pg_endaddr g = 8192"
    unfolding pagegroup_create_def e Let_def upt by (simp add: page_consts)
  from page_free_after_range_end [OF g(1), of Some 1] g show ?thesis by (simp add: page_consts)
qed

end
