(* ===== verification/Slab.thy ===== *)
theory Slab
  imports Page_Props
begin

text \<open>
  The kernel memory allocator (\<^verbatim>\<open>kernel/mm/slab.c\<close>), on top of the page allocator: caches of objects
  of one size, each a list of slabs, each slab one block of pages with its objects, their control
  words and the \<^verbatim>\<open>struct slab\<close> behind the last object.  Structures are records at their addresses; a
  singly linked list (the caches, the slabs of a cache, the free objects of a slab) is given by the
  addresses on it, first one first.  Of the memory of the objects the model keeps the words the
  allocator itself reads: the two red zones of an object and the cache pointer that \<^verbatim>\<open>kmalloc\<close> puts
  before the memory it returns.
\<close>

definition SLAB_REDZONE :: nat where "SLAB_REDZONE = 0xdeadbeef"
definition SLAB_MAX_ORDER :: nat where "SLAB_MAX_ORDER = 5"
definition BUFCTL_SIZE :: nat where "BUFCTL_SIZE = 8"
definition SLAB_STRUCT_SIZE :: nat where "SLAB_STRUCT_SIZE = 16"
definition ALLOCATOR_STRUCT_SIZE :: nat where "ALLOCATOR_STRUCT_SIZE = 24"
definition PTR_SIZE :: nat where "PTR_SIZE = 4"

lemmas slab_consts = SLAB_MAX_ORDER_def BUFCTL_SIZE_def SLAB_STRUCT_SIZE_def ALLOCATOR_STRUCT_SIZE_def PTR_SIZE_def

record slab =
  s_inuse :: int
  s_free :: "nat list"
  s_addr :: nat

record slab_allocator =
  sa_name :: string
  sa_objsize :: nat
  sa_slabs :: "nat list"
  sa_order :: nat
  sa_slab_nobjs :: nat

text \<open>The word of a control structure is a free-list link or, when the object is in use, its slab.\<close>

record slabsys = pagesys +
  slab_at :: "nat \<Rightarrow> slab"
  allocator_at :: "nat \<Rightarrow> slab_allocator"
  sb_slab :: "nat \<Rightarrow> nat"
  sb_free :: "nat \<Rightarrow> bool"
  word_at :: "nat \<Rightarrow> nat"
  slab_allocators :: "nat list"
  slab_allocator_allocator :: nat
  kmalloc_allocators :: "nat list"

definition obj_bufctl :: "slab_allocator \<Rightarrow> nat \<Rightarrow> nat" where
  "obj_bufctl a obj = obj + sa_objsize a"

definition next_obj :: "slab_allocator \<Rightarrow> nat \<Rightarrow> nat" where
  "next_obj a obj = obj + sa_objsize a + BUFCTL_SIZE"

definition rear_rz :: "slab_allocator \<Rightarrow> nat \<Rightarrow> nat" where
  "rear_rz a obj = obj + sa_objsize a - PTR_SIZE"

definition upd_slab :: "nat \<Rightarrow> (slab \<Rightarrow> slab) \<Rightarrow> 'a slabsys_scheme \<Rightarrow> 'a slabsys_scheme" where
  "upd_slab sl f s = s\<lparr>slab_at := (slab_at s)(sl := f (slab_at s sl))\<rparr>"

definition upd_allocator :: "nat \<Rightarrow> (slab_allocator \<Rightarrow> slab_allocator) \<Rightarrow> 'a slabsys_scheme \<Rightarrow> 'a slabsys_scheme" where
  "upd_allocator a f s = s\<lparr>allocator_at := (allocator_at s)(a := f (allocator_at s a))\<rparr>"

section \<open>The layout of a slab\<close>

definition slab_size :: "nat \<Rightarrow> nat \<Rightarrow> nat" where
  "slab_size objsize nobjs = nobjs * (objsize + BUFCTL_SIZE) + SLAB_STRUCT_SIZE"

definition slab_nobjs :: "nat \<Rightarrow> nat \<Rightarrow> nat" where
  "slab_nobjs objsize order = (PAGE_BYTES * 2 ^ order - SLAB_STRUCT_SIZE) div (objsize + BUFCTL_SIZE)"

definition slab_waste :: "nat \<Rightarrow> nat \<Rightarrow> nat" where
  "slab_waste objsize order = PAGE_BYTES * 2 ^ order - slab_size objsize (slab_nobjs objsize order)"

fun best_order :: "nat \<Rightarrow> nat list \<Rightarrow> nat \<times> nat \<Rightarrow> nat" where
  "best_order objsize [] (best, waste) = best"
| "best_order objsize (order # os) (best, waste) =
     (if slab_waste objsize order < waste then best_order objsize os (order, slab_waste objsize order)
      else best_order objsize os (best, waste))"

definition calc_slab_size :: "slab_allocator \<Rightarrow> slab_allocator option" where
  "calc_slab_size a = do {
     minorder \<leftarrow> List.find (\<lambda>order. wrap32 (int (slab_size (sa_objsize a) 1)) \<le> int (PAGE_BYTES * 2 ^ order)) [0..<PAGE_NSIZES];
     let order = best_order (sa_objsize a) [minorder + 1..<SLAB_MAX_ORDER] (minorder, slab_waste (sa_objsize a) minorder);
     Some (a\<lparr>sa_order := order, sa_slab_nobjs := slab_nobjs (sa_objsize a) order\<rparr>)
   }"

text \<open>Room for the two red zones is added to the size; a missing name is the empty string.\<close>

definition allocator_init :: "nat \<Rightarrow> string \<Rightarrow> nat \<Rightarrow> 'a slabsys_scheme \<Rightarrow> 'a slabsys_scheme option" where
  "allocator_init a name n s = do {
     c \<leftarrow> calc_slab_size \<lparr>sa_name = (if name = [] then ''<unnamed>'' else name), sa_objsize = (n + 2 * PTR_SIZE) mod 2 ^ 32,
                           sa_slabs = [], sa_order = 0, sa_slab_nobjs = 0\<rparr>;
     Some (upd_allocator a (\<lambda>_. c) (s\<lparr>slab_allocators := a # slab_allocators s\<rparr>))
   }"

section \<open>Giving memory back\<close>

text \<open>
  The slabs of one cache: those with no object in use are taken off the list and their pages are
  freed, until the target is met.  The result is the list that is left, the pages freed so far, and
  whether the target was met.
\<close>

fun reclaim_slabs :: "int \<Rightarrow> nat \<Rightarrow> nat list \<Rightarrow> int \<Rightarrow> 'a slabsys_scheme \<Rightarrow> (nat list \<times> int \<times> bool \<times> 'a slabsys_scheme) option" where
  "reclaim_slabs target ord [] freed s = Some ([], freed, False, s)"
| "reclaim_slabs target ord (sl # sls) freed s = do {
     let idle = (s_inuse (slab_at s sl) = 0);
     s1 \<leftarrow> (if idle then page_free_n (s_addr (slab_at s sl)) (2 ^ ord) s else Some s);
     let freed1 = (if idle then freed + 2 ^ ord else freed);
     let keep = (if idle then [] else [sl]);
     if target > 0 \<and> freed1 \<ge> target then Some (keep @ sls, freed1, True, s1)
     else do {
       (left, freed2, met, s2) \<leftarrow> reclaim_slabs target ord sls freed1 s1;
       Some (keep @ left, freed2, met, s2)
     }
   }"

fun reclaim_allocators :: "int \<Rightarrow> nat list \<Rightarrow> int \<Rightarrow> 'a slabsys_scheme \<Rightarrow> (int \<times> 'a slabsys_scheme) option" where
  "reclaim_allocators target [] freed s = Some (freed, s)"
| "reclaim_allocators target (a # as) freed s = do {
     (left, freed1, met, s1) \<leftarrow> reclaim_slabs target (sa_order (allocator_at s a)) (sa_slabs (allocator_at s a)) freed s;
     let s2 = upd_allocator a (\<lambda>c. c\<lparr>sa_slabs := left\<rparr>) s1;
     if met then Some (freed1, s2) else reclaim_allocators target as freed1 s2
   }"

definition slab_allocators_reclaim :: "int \<Rightarrow> 'a slabsys_scheme \<Rightarrow> (int \<times> 'a slabsys_scheme) option" where
  "slab_allocators_reclaim target s = reclaim_allocators target (slab_allocators s) 0 s"

text \<open>How the page allocator calls it when it has no block.\<close>

definition reclaim_all :: "'a slabsys_scheme \<Rightarrow> 'a slabsys_scheme option" where
  "reclaim_all s = map_option snd (slab_allocators_reclaim 0 s)"

section \<open>Objects\<close>

text \<open>The addresses of the objects of a block, in order.\<close>

fun objs_from :: "slab_allocator \<Rightarrow> nat \<Rightarrow> nat \<Rightarrow> nat list" where
  "objs_from a 0 obj = []"
| "objs_from a (Suc n) obj = obj # objs_from a n (next_obj a obj)"

text \<open>
  Every object of a new slab is marked free, has its red zones written and is on the free list of
  the slab in order; the slab structure follows the last object.
\<close>

definition slab_allocator_grow :: "nat \<Rightarrow> 'a slabsys_scheme \<Rightarrow> (int \<times> 'a slabsys_scheme) option" where
  "slab_allocator_grow a s = do {
     let npages = 2 ^ sa_order (allocator_at s a);
     (addr, s1) \<leftarrow> page_alloc_n reclaim_all npages s;
     if addr = 0 then Some (0, s1)
     else do {
       let c = allocator_at s1 a;
       let objs = objs_from c (max 1 (sa_slab_nobjs c)) addr;
       let sl = next_obj c (last objs);
       let zones = objs_from c (sa_slab_nobjs c) addr;
       let s2 = s1\<lparr>sb_free := fold (\<lambda>obj m. m(obj_bufctl c obj := True)) objs (sb_free s1),
                   word_at := fold (\<lambda>obj m. m(obj := SLAB_REDZONE, rear_rz c obj := SLAB_REDZONE)) zones (word_at s1)\<rparr>;
       let s3 = upd_slab sl (\<lambda>_. \<lparr>s_inuse = 0, s_free = objs, s_addr = addr\<rparr>) s2;
       Some (1, upd_allocator a (\<lambda>c. c\<lparr>sa_slabs := sl # sa_slabs c\<rparr>) s3)
     }
   }"

definition first_usable :: "slab_allocator \<Rightarrow> 'a slabsys_scheme \<Rightarrow> nat option" where
  "first_usable c s = (case List.find (\<lambda>sl. s_inuse (slab_at s sl) \<noteq> int (sa_slab_nobjs c)) (sa_slabs c) of
     Some sl \<Rightarrow> (if s_inuse (slab_at s sl) < int (sa_slab_nobjs c) then Some sl else None)
   | None \<Rightarrow> None)"

partial_function (option) find_slab :: "nat \<Rightarrow> 'a slabsys_scheme \<Rightarrow> (nat \<times> 'a slabsys_scheme) option" where
  "find_slab a s = (case first_usable (allocator_at s a) s of
     Some sl \<Rightarrow> Some (sl, s)
   | None \<Rightarrow> do {
       (grown, s1) \<leftarrow> slab_allocator_grow a s;
       if grown = 0 then Some (0, s1) else find_slab a s1
     })"

definition verify_redzones :: "slab_allocator \<Rightarrow> nat \<Rightarrow> 'a slabsys_scheme \<Rightarrow> unit option" where
  "verify_redzones c obj s = do {
     kassert (word_at s obj = SLAB_REDZONE);
     kassert (word_at s (rear_rz c obj) = SLAB_REDZONE)
   }"

definition slab_obj_alloc :: "nat \<Rightarrow> 'a slabsys_scheme \<Rightarrow> (nat \<times> 'a slabsys_scheme) option" where
  "slab_obj_alloc a s = do {
     (sl, s1) \<leftarrow> find_slab a s;
     if sl = 0 then Some (0, s1)
     else do {
       let c = allocator_at s1 a;
       kassert (s_free (slab_at s1 sl) \<noteq> []);
       let obj = hd (s_free (slab_at s1 sl));
       let s2 = upd_slab sl (\<lambda>x. x\<lparr>s_free := tl (s_free x), s_inuse := s_inuse x + 1\<rparr>) s1;
       let s3 = s2\<lparr>sb_slab := (sb_slab s2)(obj_bufctl c obj := sl), sb_free := (sb_free s2)(obj_bufctl c obj := False)\<rparr>;
       verify_redzones c obj s3;
       Some (obj + PTR_SIZE, s3)
     }
   }"

definition slab_obj_free :: "nat \<Rightarrow> nat \<Rightarrow> 'a slabsys_scheme \<Rightarrow> 'a slabsys_scheme option" where
  "slab_obj_free a addr s = do {
     let c = allocator_at s a;
     let obj = addr - PTR_SIZE;
     verify_redzones c obj s;
     kassert (\<not> sb_free s (obj_bufctl c obj));
     let s1 = s\<lparr>sb_free := (sb_free s)(obj_bufctl c obj := True)\<rparr>;
     let sl = sb_slab s1 (obj_bufctl c obj);
     Some (upd_slab sl (\<lambda>x. x\<lparr>s_free := obj # s_free x, s_inuse := s_inuse x - 1\<rparr>) s1)
   }"

definition slab_allocator_create :: "string \<Rightarrow> nat \<Rightarrow> 'a slabsys_scheme \<Rightarrow> (nat \<times> 'a slabsys_scheme) option" where
  "slab_allocator_create name n s = do {
     (a, s1) \<leftarrow> slab_obj_alloc (slab_allocator_allocator s) s;
     if a = 0 then Some (0, s1)
     else do { s2 \<leftarrow> allocator_init a name n s1; Some (a, s2) }
   }"

section \<open>Memory of any size\<close>

definition KMALLOC_SIZE_MIN_ORDER :: nat where "KMALLOC_SIZE_MIN_ORDER = 6"
definition KMALLOC_SIZE_MAX_ORDER :: nat where "KMALLOC_SIZE_MAX_ORDER = 18"

definition kmalloc_allocator_names :: "string list" where
  "kmalloc_allocator_names =
     [''size-64'', ''size-128'', ''size-256'', ''size-512'', ''size-1024'', ''size-2048'', ''size-4096'', ''size-8192'',
      ''size-16384'', ''size-32768'', ''size-65536'', ''size-131072'', ''size-262144'']"

text \<open>The size is an unsigned 32-bit number, and so is its sum with the size of the cache pointer.\<close>

definition kmalloc_bucket :: "nat \<Rightarrow> nat option" where
  "kmalloc_bucket n = List.find (\<lambda>i. (n + PTR_SIZE) mod 2 ^ 32 \<le> 2 ^ (KMALLOC_SIZE_MIN_ORDER + i))
     [0..<KMALLOC_SIZE_MAX_ORDER - KMALLOC_SIZE_MIN_ORDER + 1]"

definition kmalloc :: "nat \<Rightarrow> 'a slabsys_scheme \<Rightarrow> (nat \<times> 'a slabsys_scheme) option" where
  "kmalloc n s = do {
     i \<leftarrow> kmalloc_bucket n;
     kassert (i < length (kmalloc_allocators s));
     let cs = kmalloc_allocators s ! i;
     (addr, s1) \<leftarrow> slab_obj_alloc cs s;
     if addr = 0 then Some (0, s1)
     else Some (addr + PTR_SIZE, s1\<lparr>word_at := (word_at s1)(addr := cs)\<rparr>)
   }"

definition kfree :: "nat \<Rightarrow> 'a slabsys_scheme \<Rightarrow> 'a slabsys_scheme option" where
  "kfree addr s = slab_obj_free (word_at s (addr - PTR_SIZE)) (addr - PTR_SIZE) s"

fun create_buckets :: "nat list \<Rightarrow> 'a slabsys_scheme \<Rightarrow> 'a slabsys_scheme option" where
  "create_buckets [] s = Some s"
| "create_buckets (order # os) s = do {
     (a, s1) \<leftarrow> slab_allocator_create (kmalloc_allocator_names ! (order - KMALLOC_SIZE_MIN_ORDER)) (2 ^ order) s;
     kassert (a \<noteq> 0);
     create_buckets os (s1\<lparr>kmalloc_allocators := kmalloc_allocators s1 @ [a]\<rparr>)
   }"

definition slab_init :: "'a slabsys_scheme \<Rightarrow> 'a slabsys_scheme option" where
  "slab_init s = do {
     s1 \<leftarrow> allocator_init (slab_allocator_allocator s) ''slab_allocators'' ALLOCATOR_STRUCT_SIZE s;
     create_buckets [KMALLOC_SIZE_MIN_ORDER..<KMALLOC_SIZE_MAX_ORDER + 1] s1
   }"

end
