(* ===== verification/Slab_Inv.thy ===== *)
theory Slab_Inv
  imports Slab
begin

text \<open>
  The invariant of the kernel memory allocator and its operations on it.  Every slab is one block of
  pages in use; the objects of a slab that are not on its free list are in use, know their slab, and
  all red zones are intact.  Growing a cache, giving memory back, allocating and freeing an object
  keep this in order.
\<close>

section \<open>Layout\<close>

abbreviation stride :: "slab_allocator \<Rightarrow> nat" where
  "stride c \<equiv> sa_objsize c + BUFCTL_SIZE"

definition layout_ok :: "slab_allocator \<Rightarrow> bool" where
  "layout_ok c \<longleftrightarrow> 1 \<le> sa_slab_nobjs c \<and> slab_size (sa_objsize c) (sa_slab_nobjs c) \<le> PAGE_BYTES * 2 ^ sa_order c
     \<and> sa_order c < PAGE_NSIZES \<and> 2 * PTR_SIZE \<le> sa_objsize c"

lemma objs_from_map: "objs_from c n addr = map (\<lambda>i. addr + i * stride c) [0..<n]"
proof (induction n arbitrary: addr)
  case (Suc n)
  have "[0..<Suc n] = 0 # map Suc [0..<n]" by (simp add: map_Suc_upt upt_conv_Cons del: upt_Suc)
  then show ?case by (simp add: Suc next_obj_def algebra_simps del: upt_Suc)
qed simp

lemma distinct_objs: "distinct (objs_from c n addr)"
  by (simp add: objs_from_map distinct_map inj_on_def BUFCTL_SIZE_def)

lemma length_objs [simp]: "length (objs_from c n addr) = n"
  by (simp add: objs_from_map)

lemma last_objs: "0 < n \<Longrightarrow> last (objs_from c n addr) = addr + (n - 1) * stride c"
  by (simp add: objs_from_map last_map)

lemma in_objs: "obj \<in> set (objs_from c n addr) \<longleftrightarrow> (\<exists>i<n. obj = addr + i * stride c)"
  by (auto simp: objs_from_map)

text \<open>Two objects of a block do not overlap, nor do the words the allocator keeps for them.\<close>

lemma objs_apart:
  assumes "o1 \<in> set (objs_from c n addr)" "o2 \<in> set (objs_from c n addr)" "o1 \<noteq> o2"
  shows "o1 + stride c \<le> o2 \<or> o2 + stride c \<le> o1"
proof -
  obtain i j where ij: "o1 = addr + i * stride c" "o2 = addr + j * stride c" using assms(1,2) by (auto simp: in_objs)
  with assms(3) have "i < j \<or> j < i" by auto
  then have "Suc i * stride c \<le> j * stride c \<or> Suc j * stride c \<le> i * stride c"
    by (metis Suc_leI mult_le_mono1)
  then show ?thesis by (auto simp: ij)
qed

lemma obj_inside:
  assumes "layout_ok c" "obj \<in> set (objs_from c (sa_slab_nobjs c) addr)"
  shows "addr \<le> obj" "obj + stride c + SLAB_STRUCT_SIZE \<le> addr + 2 ^ sa_order c * PAGE_BYTES"
proof -
  obtain i where i: "i < sa_slab_nobjs c" "obj = addr + i * stride c" using assms(2) by (auto simp: in_objs)
  then have "Suc i * stride c \<le> sa_slab_nobjs c * stride c" by (intro mult_le_mono1) simp
  with assms(1) i(2) show "obj + stride c + SLAB_STRUCT_SIZE \<le> addr + 2 ^ sa_order c * PAGE_BYTES"
    by (simp add: layout_ok_def slab_size_def mult.commute)
  show "addr \<le> obj" by (simp add: i(2))
qed

section \<open>Blocks of pages as bytes\<close>

definition blk_bytes :: "nat \<Rightarrow> nat \<Rightarrow> nat set" where
  "blk_bytes a order = {a..<a + 2 ^ order * PAGE_BYTES}"

lemma block_aligned: "page_ok s \<Longrightarrow> block_in s a order \<Longrightarrow> a mod PAGE_BYTES = 0"
proof -
  assume ok: "page_ok s" "block_in s a order"
  obtain i k where i: "i < length (pagegroup_list s)" "a = blk (pg_baseaddr (pagegroup_list s ! i)) order k"
    by (rule find_group [OF ok])
  obtain n K where "rep n K (pagegroup_list s ! i)" by (rule group_rep [OF ok(1) i(1)])
  from repD(1) [OF this] show "a mod PAGE_BYTES = 0" by (simp add: i(2) blk_def range_ok_def)
qed

lemma byte_page:
  assumes "a mod PAGE_BYTES = 0" "x \<in> blk_bytes a order"
  shows "x div PAGE_BYTES * PAGE_BYTES \<in> blk_pages a order"
proof -
  from assms(1) obtain q where q: "a = q * PAGE_BYTES" by (metis mod_0_imp_dvd dvd_def mult.commute)
  have "q \<le> x div PAGE_BYTES" "x div PAGE_BYTES < q + 2 ^ order"
  proof -
    have "q * PAGE_BYTES \<le> x" "x < (q + 2 ^ order) * PAGE_BYTES" using assms(2) by (auto simp: blk_bytes_def q algebra_simps)
    then show "q \<le> x div PAGE_BYTES" "x div PAGE_BYTES < q + 2 ^ order"
      by (simp_all add: less_eq_div_iff_mult_less_eq div_less_iff_less_mult PAGE_BYTES_def)
  qed
  then have "x div PAGE_BYTES * PAGE_BYTES = a + (x div PAGE_BYTES - q) * PAGE_BYTES" "x div PAGE_BYTES - q < 2 ^ order"
    by (auto simp: q algebra_simps simp flip: add_mult_distrib)
  then show ?thesis unfolding blk_pages_def by blast
qed

lemma bytes_apart:
  assumes "page_ok s" "block_in s a o1" "block_in s b o2" "blk_pages a o1 \<inter> blk_pages b o2 = {}"
  shows "blk_bytes a o1 \<inter> blk_bytes b o2 = {}"
  using byte_page [OF block_aligned [OF assms(1,2)]] byte_page [OF block_aligned [OF assms(1,3)]] assms(4) by blast

lemma order_for_power: "order < PAGE_NSIZES \<Longrightarrow> order_for (2 ^ order) = Some order"
proof -
  assume "order < PAGE_NSIZES"
  then have "order \<in> {0, 1, 2, 3, 4, 5, 6, 7}" by (auto simp: page_consts)
  moreover have "[0..<PAGE_NSIZES] = [0, 1, 2, 3, 4, 5, 6, 7]" by (simp add: page_consts upt_rec)
  ultimately show ?thesis unfolding order_for_def by (auto simp: wrap32_def)
qed

section \<open>Slabs\<close>

definition slab_inv :: "slab_allocator \<Rightarrow> nat \<Rightarrow> 'a slabsys_scheme \<Rightarrow> bool" where
  "slab_inv c sl s \<longleftrightarrow> (let x = slab_at s sl; objs = objs_from c (sa_slab_nobjs c) (s_addr x) in
     sl = s_addr x + sa_slab_nobjs c * stride c \<and> distinct (s_free x) \<and> set (s_free x) \<subseteq> set objs
     \<and> s_inuse x = int (sa_slab_nobjs c) - int (length (s_free x))
     \<and> (\<forall>obj\<in>set objs. sb_free s (obj_bufctl c obj) = (obj \<in> set (s_free x))
          \<and> (obj \<notin> set (s_free x) \<longrightarrow> sb_slab s (obj_bufctl c obj) = sl)
          \<and> word_at s obj = SLAB_REDZONE \<and> word_at s (rear_rz c obj) = SLAB_REDZONE))"

definition blk_of :: "'a slabsys_scheme \<Rightarrow> nat \<times> nat \<Rightarrow> nat \<times> nat" where
  "blk_of s e = (s_addr (slab_at s (snd e)), sa_order (allocator_at s (fst e)))"

definition good :: "(nat \<times> nat) set \<Rightarrow> 'a slabsys_scheme \<Rightarrow> bool" where
  "good E s \<longleftrightarrow> page_ok s \<and> (\<forall>e\<in>E. layout_ok (allocator_at s (fst e)) \<and> slab_inv (allocator_at s (fst e)) (snd e) s
       \<and> block_in s (fst (blk_of s e)) (snd (blk_of s e)) \<and> blk_pages (fst (blk_of s e)) (snd (blk_of s e)) \<inter> free_pages s = {})
     \<and> (\<forall>e\<in>E. \<forall>f\<in>E. e \<noteq> f \<longrightarrow> blk_pages (fst (blk_of s e)) (snd (blk_of s e)) \<inter> blk_pages (fst (blk_of s f)) (snd (blk_of s f)) = {})"

definition entries :: "'a slabsys_scheme \<Rightarrow> (nat \<times> nat) set" where
  "entries s = {(a, sl). a \<in> set (slab_allocators s) \<and> sl \<in> set (sa_slabs (allocator_at s a))}"

definition slabs_ok :: "'a slabsys_scheme \<Rightarrow> bool" where
  "slabs_ok s \<longleftrightarrow> good (entries s) s \<and> distinct (slab_allocators s)
     \<and> (\<forall>a\<in>set (slab_allocators s). layout_ok (allocator_at s a) \<and> distinct (sa_slabs (allocator_at s a)))"

definition live :: "'a slabsys_scheme \<Rightarrow> (nat \<times> nat) set" where
  "live s = {(a, obj). \<exists>sl. (a, sl) \<in> entries s
     \<and> obj \<in> set (objs_from (allocator_at s a) (sa_slab_nobjs (allocator_at s a)) (s_addr (slab_at s sl)))
     \<and> obj \<notin> set (s_free (slab_at s sl))}"

lemma goodD:
  assumes "good E s"
  shows "page_ok s"
    and "e \<in> E \<Longrightarrow> layout_ok (allocator_at s (fst e))"
    and "e \<in> E \<Longrightarrow> slab_inv (allocator_at s (fst e)) (snd e) s"
    and "e \<in> E \<Longrightarrow> block_in s (fst (blk_of s e)) (snd (blk_of s e))"
    and "e \<in> E \<Longrightarrow> blk_pages (fst (blk_of s e)) (snd (blk_of s e)) \<inter> free_pages s = {}"
    and "e \<in> E \<Longrightarrow> f \<in> E \<Longrightarrow> e \<noteq> f \<Longrightarrow>
      blk_pages (fst (blk_of s e)) (snd (blk_of s e)) \<inter> blk_pages (fst (blk_of s f)) (snd (blk_of s f)) = {}"
  using assms unfolding good_def by blast+

lemma slab_invD:
  assumes "slab_inv c sl s"
  shows "sl = s_addr (slab_at s sl) + sa_slab_nobjs c * stride c" "distinct (s_free (slab_at s sl))"
    "set (s_free (slab_at s sl)) \<subseteq> set (objs_from c (sa_slab_nobjs c) (s_addr (slab_at s sl)))"
    "s_inuse (slab_at s sl) = int (sa_slab_nobjs c) - int (length (s_free (slab_at s sl)))"
    "obj \<in> set (objs_from c (sa_slab_nobjs c) (s_addr (slab_at s sl))) \<Longrightarrow>
      sb_free s (obj_bufctl c obj) = (obj \<in> set (s_free (slab_at s sl)))"
    "obj \<in> set (objs_from c (sa_slab_nobjs c) (s_addr (slab_at s sl))) \<Longrightarrow> obj \<notin> set (s_free (slab_at s sl)) \<Longrightarrow>
      sb_slab s (obj_bufctl c obj) = sl"
    "obj \<in> set (objs_from c (sa_slab_nobjs c) (s_addr (slab_at s sl))) \<Longrightarrow> verify_redzones c obj s = Some ()"
  using assms unfolding slab_inv_def Let_def verify_redzones_def by simp_all

section \<open>What the page allocator leaves alone\<close>

lemma more_same:
  fixes s s' :: "'a slabsys_scheme"
  assumes "pagesys.more s' = pagesys.more s"
  shows "slab_at s' = slab_at s" "allocator_at s' = allocator_at s" "sb_slab s' = sb_slab s" "sb_free s' = sb_free s"
    "word_at s' = word_at s" "slab_allocators s' = slab_allocators s" "kmalloc_allocators s' = kmalloc_allocators s"
    "slab_allocator_allocator s' = slab_allocator_allocator s"
  using assms by (cases s; cases s'; simp)+

lemma page_free_more: "page_free_order a order s = Some s' \<Longrightarrow> pagesys.more s' = pagesys.more s"
  by (auto simp: page_free_order_def Let_def split: option.splits if_splits bind_splits)

lemma take_block_more: "take_block order i s = Some (a, s') \<Longrightarrow> pagesys.more s' = pagesys.more s"
  by (auto simp: take_block_def Let_def split: bind_splits)

lemma page_alloc_more:
  assumes "page_alloc_order reclaim order s = Some (a, s')" "can_alloc order s"
  shows "pagesys.more s' = pagesys.more s"
proof (cases "find_idx (\<lambda>g. pg_freelist g order \<noteq> []) (pagegroup_list s)")
  case (Some i)
  with assms(1) show ?thesis by (auto simp: page_alloc_order_def take_block_more)
next
  case None
  then have "find_larger [order + 1..<PAGE_NSIZES] (pagegroup_list s) \<noteq> None"
    using assms(2) unfolding find_larger_None can_alloc_def find_idx_None
    by (metis Suc_eq_plus1 Suc_leI atLeastLessThan_iff le_neq_implies_less set_upt)
  with None assms(1) show ?thesis
    by (auto simp: page_alloc_order_def page_split_def dest!: take_block_more split: bind_splits)
qed

section \<open>Giving memory back\<close>

lemma blk_of_more:
  assumes "pagesys.more s' = pagesys.more s"
  shows "blk_of s' e = blk_of s e"
  by (simp add: blk_of_def more_same [OF assms])

lemma slab_inv_more:
  assumes "pagesys.more s' = pagesys.more s"
  shows "slab_inv c sl s' = slab_inv c sl s"
  by (simp add: slab_inv_def more_same [OF assms])

lemma free_slab:
  assumes "good E s" "(a, sl) \<in> E"
  shows "\<exists>s'. page_free_n (s_addr (slab_at s sl)) (2 ^ sa_order (allocator_at s a)) s = Some s'
    \<and> pagesys.more s' = pagesys.more s \<and> spans s' = spans s \<and> good (E - {(a, sl)}) s'"
proof -
  note g = goodD [OF assms(1)]
  have blk: "blk_of s (a, sl) = (s_addr (slab_at s sl), sa_order (allocator_at s a))" by (simp add: blk_of_def)
  from g(4) [OF assms(2)] have small: "sa_order (allocator_at s a) < PAGE_NSIZES" by (simp add: blk block_in_def)
  from page_free_step [OF g(1) g(4) [OF assms(2)] g(5) [OF assms(2)]] obtain s' where s':
    "page_free_order (s_addr (slab_at s sl)) (sa_order (allocator_at s a)) s = Some s'" "page_ok s'" "spans s' = spans s"
    "free_pages s' = free_pages s \<union> blk_pages (s_addr (slab_at s sl)) (sa_order (allocator_at s a))"
    by (auto simp: blk)
  note more = page_free_more [OF s'(1)]
  have "blk_pages (fst (blk_of s e)) (snd (blk_of s e)) \<inter> free_pages s' = {}" if "e \<in> E - {(a, sl)}" for e
    using g(5) [of e] g(6) [of e "(a, sl)"] that assms(2) by (auto simp: s'(4) blk)
  then have "good (E - {(a, sl)}) s'"
    using g s'(2) unfolding good_def blk_of_more [OF more] slab_inv_more [OF more] more_same(2) [OF more]
      block_in_spans [OF s'(3)] by blast
  then show ?thesis using s'(1,3) more by (simp add: page_free_n_def order_for_power [OF small])
qed

lemma reclaim_slabs_ok:
  assumes "good E s" "\<forall>sl\<in>set sls. (a, sl) \<in> E" "distinct sls"
  shows "\<exists>left freed' met s'. reclaim_slabs target (sa_order (allocator_at s a)) sls freed s = Some (left, freed', met, s')
    \<and> pagesys.more s' = pagesys.more s \<and> spans s' = spans s \<and> good (E - Pair a ` (set sls - set left)) s'
    \<and> set left \<subseteq> set sls \<and> distinct left \<and> (\<forall>sl\<in>set sls - set left. s_inuse (slab_at s sl) = 0)"
  using assms
proof (induction sls arbitrary: E s freed)
  case (Cons sl sls)
  let ?ord = "sa_order (allocator_at s a)"
  define idle where "idle = (s_inuse (slab_at s sl) = 0)"
  obtain s1 where s1: "(if idle then page_free_n (s_addr (slab_at s sl)) (2 ^ ?ord) s else Some s) = Some s1"
    "pagesys.more s1 = pagesys.more s" "good (if idle then E - {(a, sl)} else E) s1" "spans s1 = spans s"
    using free_slab [OF Cons.prems(1), of a sl] Cons.prems(1,2) by (cases idle) auto
  let ?E = "if idle then E - {(a, sl)} else E" and ?freed = "if idle then freed + 2 ^ ?ord else freed"
  let ?keep = "if idle then [] else [sl]"
  have "\<forall>x\<in>set sls. (a, x) \<in> ?E" using Cons.prems(2,3) by auto
  from Cons.IH [OF s1(3) this, of ?freed] Cons.prems(3) obtain left freed' met s2 where s2:
    "reclaim_slabs target ?ord sls ?freed s1 = Some (left, freed', met, s2)" "pagesys.more s2 = pagesys.more s1"
    "good (?E - Pair a ` (set sls - set left)) s2" "set left \<subseteq> set sls" "distinct left"
    "\<forall>x\<in>set sls - set left. s_inuse (slab_at s x) = 0" "spans s2 = spans s"
    by (auto simp: more_same [OF s1(2)] s1(4))
  have notin: "sl \<notin> set sls" using Cons.prems(3) by simp
  show ?case
  proof (cases "target > 0 \<and> ?freed \<ge> target")
    case True
    then have "reclaim_slabs target ?ord (sl # sls) freed s = Some (?keep @ sls, ?freed, True, s1)"
      unfolding reclaim_slabs.simps Let_def idle_def [symmetric] s1(1) by (cases idle) simp_all
    moreover have "set (sl # sls) - set (?keep @ sls) = (if idle then {sl} else {})" using notin by auto
    then have "E - Pair a ` (set (sl # sls) - set (?keep @ sls)) = ?E" by auto
    ultimately show ?thesis using s1(2-4) Cons.prems(3) idle_def by (auto split: if_splits)
  next
    case False
    then have "reclaim_slabs target ?ord (sl # sls) freed s = Some (?keep @ left, freed', met, s2)"
      using s2(1) unfolding reclaim_slabs.simps Let_def idle_def [symmetric] s1(1) by (cases idle) auto
    moreover have "E - Pair a ` (set (sl # sls) - set (?keep @ left)) = ?E - Pair a ` (set sls - set left)"
      using notin s2(4) by auto
    ultimately show ?thesis using s1(2) s2(2-7) notin idle_def by (auto split: if_splits)
  qed
qed auto

text \<open>What the invariant of a set of slabs depends on.\<close>

lemma objs_from_cong:
  "sa_objsize c' = sa_objsize c \<Longrightarrow> objs_from c' n addr = objs_from c n addr"
  by (simp add: objs_from_map)

definition same_layout :: "slab_allocator \<Rightarrow> slab_allocator \<Rightarrow> bool" where
  "same_layout c' c \<longleftrightarrow> sa_objsize c' = sa_objsize c \<and> sa_order c' = sa_order c \<and> sa_slab_nobjs c' = sa_slab_nobjs c"

lemma same_layout_slab:
  assumes "same_layout c' c"
  shows "slab_inv c' sl s = slab_inv c sl s" "layout_ok c' = layout_ok c"
    "objs_from c' n addr = objs_from c n addr" "sa_order c' = sa_order c" "sa_slab_nobjs c' = sa_slab_nobjs c"
  using assms objs_from_cong [of c' c]
  by (simp_all add: same_layout_def slab_inv_def layout_ok_def obj_bufctl_def rear_rz_def)

lemma good_upd_allocator:
  assumes "good E s" "\<And>c. same_layout (f c) c"
  shows "good E (upd_allocator a f s)"
proof -
  let ?s = "upd_allocator a f s"
  have layout: "same_layout (allocator_at ?s b) (allocator_at s b)" for b
    using assms(2) by (simp add: upd_allocator_def same_layout_def)
  have same: "slab_at ?s = slab_at s" "free_pages ?s = free_pages s" "page_ok ?s = page_ok s" "spans ?s = spans s"
    by (simp_all add: upd_allocator_def free_pages_def spans_def page_ok_def)
  have "slab_inv c sl ?s = slab_inv c sl s" for c sl by (simp add: slab_inv_def upd_allocator_def)
  then show ?thesis
    using assms(1) unfolding good_def blk_of_def same block_in_spans [OF same(4)]
    by (simp add: same_layout_slab [OF layout])
qed

lemma all_free:
  assumes "slab_inv c sl s" "s_inuse (slab_at s sl) = 0"
  shows "set (s_free (slab_at s sl)) = set (objs_from c (sa_slab_nobjs c) (s_addr (slab_at s sl)))"
proof (rule card_subset_eq [OF finite_set slab_invD(3) [OF assms(1)]])
  show "card (set (s_free (slab_at s sl))) = card (set (objs_from c (sa_slab_nobjs c) (s_addr (slab_at s sl))))"
    using slab_invD(2,4) [OF assms(1)] assms(2) distinct_objs [of c]
    by (simp add: distinct_card)
qed

lemma reclaim_one:
  assumes "slabs_ok s" "a \<in> set (slab_allocators s)"
  shows "\<exists>left freed' met s'. reclaim_slabs target (sa_order (allocator_at s a)) (sa_slabs (allocator_at s a)) freed s
      = Some (left, freed', met, s')
    \<and> (let s2 = upd_allocator a (\<lambda>c. c\<lparr>sa_slabs := left\<rparr>) s' in slabs_ok s2 \<and> live s2 = live s
        \<and> slab_allocators s2 = slab_allocators s \<and> kmalloc_allocators s2 = kmalloc_allocators s
        \<and> word_at s2 = word_at s \<and> spans s2 = spans s \<and> slab_allocator_allocator s2 = slab_allocator_allocator s \<and> (\<forall>b. same_layout (allocator_at s2 b) (allocator_at s b)))"
proof -
  have good: "good (entries s) s" and dist: "distinct (sa_slabs (allocator_at s a))"
    using assms by (auto simp: slabs_ok_def)
  have "\<forall>sl\<in>set (sa_slabs (allocator_at s a)). (a, sl) \<in> entries s" using assms(2) by (simp add: entries_def)
  from reclaim_slabs_ok [OF good this dist, of target freed] obtain left freed' met s' where r:
    "reclaim_slabs target (sa_order (allocator_at s a)) (sa_slabs (allocator_at s a)) freed s = Some (left, freed', met, s')"
    "pagesys.more s' = pagesys.more s" "good (entries s - Pair a ` (set (sa_slabs (allocator_at s a)) - set left)) s'"
    "set left \<subseteq> set (sa_slabs (allocator_at s a))" "distinct left"
    "\<forall>sl\<in>set (sa_slabs (allocator_at s a)) - set left. s_inuse (slab_at s sl) = 0" "spans s' = spans s" by blast
  note more = more_same [OF r(2)]
  let ?s2 = "upd_allocator a (\<lambda>c. c\<lparr>sa_slabs := left\<rparr>) s'"
  have entries: "entries ?s2 = entries s - Pair a ` (set (sa_slabs (allocator_at s a)) - set left)"
    using assms(2) r(4) by (auto simp: entries_def upd_allocator_def more split: if_splits)
  have "good (entries ?s2) ?s2"
    unfolding entries by (rule good_upd_allocator [OF r(3)]) (simp add: same_layout_def)
  moreover have layout: "same_layout (allocator_at ?s2 b) (allocator_at s b)" for b
    by (simp add: upd_allocator_def same_layout_def more)
  moreover have sel: "slab_allocators ?s2 = slab_allocators s" "kmalloc_allocators ?s2 = kmalloc_allocators s"
    "word_at ?s2 = word_at s" "slab_at ?s2 = slab_at s" "spans ?s2 = spans s" "slab_allocator_allocator ?s2 = slab_allocator_allocator s"
    using r(7) by (simp_all add: upd_allocator_def more spans_def)
  moreover have "\<forall>b\<in>set (slab_allocators s). layout_ok (allocator_at ?s2 b) \<and> distinct (sa_slabs (allocator_at ?s2 b))"
    using assms(1) r(5) unfolding slabs_ok_def same_layout_slab(2) [OF layout] by (simp add: upd_allocator_def more)
  ultimately have ok: "slabs_ok ?s2" using assms(1) by (simp add: slabs_ok_def)
  have gone: "set (objs_from (allocator_at s b) (sa_slab_nobjs (allocator_at s b)) (s_addr (slab_at s sl))) \<subseteq> set (s_free (slab_at s sl))"
    if "(b, sl) \<in> entries s" "(b, sl) \<notin> entries ?s2" for b sl
  proof -
    from that have "b = a" "s_inuse (slab_at s sl) = 0" using r(6) by (auto simp: entries)
    with all_free [OF goodD(3) [OF good that(1)]] show ?thesis by simp
  qed
  have "live ?s2 = live s"
    unfolding live_def sel(4) same_layout_slab(3,5) [OF layout] using gone entries by blast
  with ok r(1) sel layout show ?thesis by (auto simp: Let_def)
qed

lemma same_layout_trans: "same_layout c1 c2 \<Longrightarrow> same_layout c2 c3 \<Longrightarrow> same_layout c1 c3"
  by (simp add: same_layout_def)

lemma reclaim_allocators_ok:
  assumes "slabs_ok s" "set as \<subseteq> set (slab_allocators s)"
  shows "\<exists>freed' s'. reclaim_allocators target as freed s = Some (freed', s') \<and> slabs_ok s' \<and> live s' = live s
    \<and> slab_allocators s' = slab_allocators s \<and> kmalloc_allocators s' = kmalloc_allocators s \<and> word_at s' = word_at s
    \<and> spans s' = spans s \<and> slab_allocator_allocator s' = slab_allocator_allocator s \<and> (\<forall>b. same_layout (allocator_at s' b) (allocator_at s b))"
  using assms
proof (induction as arbitrary: s freed)
  case Nil
  then show ?case by (simp add: same_layout_def)
next
  case (Cons a as)
  from Cons.prems(2) have "a \<in> set (slab_allocators s)" by simp
  from reclaim_one [OF Cons.prems(1) this, of target freed] obtain left freed1 met s1 where r:
    "reclaim_slabs target (sa_order (allocator_at s a)) (sa_slabs (allocator_at s a)) freed s = Some (left, freed1, met, s1)"
    and s2: "slabs_ok (upd_allocator a (\<lambda>c. c\<lparr>sa_slabs := left\<rparr>) s1)" "live (upd_allocator a (\<lambda>c. c\<lparr>sa_slabs := left\<rparr>) s1) = live s"
      "slab_allocators (upd_allocator a (\<lambda>c. c\<lparr>sa_slabs := left\<rparr>) s1) = slab_allocators s"
      "kmalloc_allocators (upd_allocator a (\<lambda>c. c\<lparr>sa_slabs := left\<rparr>) s1) = kmalloc_allocators s"
      "word_at (upd_allocator a (\<lambda>c. c\<lparr>sa_slabs := left\<rparr>) s1) = word_at s"
      "\<forall>b. same_layout (allocator_at (upd_allocator a (\<lambda>c. c\<lparr>sa_slabs := left\<rparr>) s1) b) (allocator_at s b)"
      "spans (upd_allocator a (\<lambda>c. c\<lparr>sa_slabs := left\<rparr>) s1) = spans s"
      "slab_allocator_allocator (upd_allocator a (\<lambda>c. c\<lparr>sa_slabs := left\<rparr>) s1) = slab_allocator_allocator s"
    unfolding Let_def by blast
  define t where "t = upd_allocator a (\<lambda>c. c\<lparr>sa_slabs := left\<rparr>) s1"
  have "set as \<subseteq> set (slab_allocators t)" using Cons.prems(2) s2(3) by (simp add: t_def)
  from Cons.IH [OF s2(1) [folded t_def] this, of freed1] show ?case
    using r s2 same_layout_trans by (cases met) (auto simp: t_def [symmetric] Let_def, blast)
qed

section \<open>Changes inside one block\<close>

definition agree :: "nat set \<Rightarrow> 'a slabsys_scheme \<Rightarrow> 'a slabsys_scheme \<Rightarrow> bool" where
  "agree X s' s \<longleftrightarrow> (\<forall>x\<in>X. slab_at s' x = slab_at s x \<and> sb_free s' x = sb_free s x \<and> sb_slab s' x = sb_slab s x
     \<and> word_at s' x = word_at s x)"

lemma slab_addresses:
  assumes "slab_inv c sl s" "layout_ok c"
  shows "sl \<in> blk_bytes (s_addr (slab_at s sl)) (sa_order c)"
    and "obj \<in> set (objs_from c (sa_slab_nobjs c) (s_addr (slab_at s sl))) \<Longrightarrow>
      {obj, obj_bufctl c obj, rear_rz c obj} \<subseteq> blk_bytes (s_addr (slab_at s sl)) (sa_order c)"
proof -
  have "sl = s_addr (slab_at s sl) + sa_slab_nobjs c * stride c" by (rule slab_invD(1) [OF assms(1)])
  moreover have "sa_slab_nobjs c * stride c + SLAB_STRUCT_SIZE \<le> 2 ^ sa_order c * PAGE_BYTES"
    using assms(2) by (simp add: layout_ok_def slab_size_def mult.commute)
  ultimately show "sl \<in> blk_bytes (s_addr (slab_at s sl)) (sa_order c)"
    unfolding blk_bytes_def atLeastLessThan_iff SLAB_STRUCT_SIZE_def by linarith
  assume "obj \<in> set (objs_from c (sa_slab_nobjs c) (s_addr (slab_at s sl)))"
  from obj_inside [OF assms(2) this] show "{obj, obj_bufctl c obj, rear_rz c obj} \<subseteq> blk_bytes (s_addr (slab_at s sl)) (sa_order c)"
    using assms(2) by (auto simp: blk_bytes_def obj_bufctl_def rear_rz_def slab_consts layout_ok_def)
qed

lemma slab_inv_agree:
  assumes "slab_inv c sl s" "layout_ok c" "agree (blk_bytes (s_addr (slab_at s sl)) (sa_order c)) s' s"
  shows "slab_inv c sl s'"
proof -
  note addr = slab_addresses [OF assms(1,2)]
  have eq: "slab_at s' sl = slab_at s sl" using addr(1) assms(3) by (simp add: agree_def)
  have "sb_free s' (obj_bufctl c obj) = sb_free s (obj_bufctl c obj)" "sb_slab s' (obj_bufctl c obj) = sb_slab s (obj_bufctl c obj)"
    "word_at s' obj = word_at s obj" "word_at s' (rear_rz c obj) = word_at s (rear_rz c obj)"
    if "obj \<in> set (objs_from c (sa_slab_nobjs c) (s_addr (slab_at s sl)))" for obj
    using addr(2) [OF that] assms(3) by (simp_all add: agree_def)
  with assms(1) show ?thesis unfolding slab_inv_def eq Let_def by simp
qed

definition entry_bytes :: "'a slabsys_scheme \<Rightarrow> nat \<times> nat \<Rightarrow> nat set" where
  "entry_bytes s e = blk_bytes (fst (blk_of s e)) (snd (blk_of s e))"

lemma entries_apart:
  assumes "good E s" "e \<in> E" "f \<in> E" "e \<noteq> f"
  shows "entry_bytes s e \<inter> entry_bytes s f = {}"
  unfolding entry_bytes_def
  by (rule bytes_apart [OF goodD(1) [OF assms(1)] goodD(4) [OF assms(1,2)] goodD(4) [OF assms(1,3)] goodD(6) [OF assms]])

lemma entry_addresses:
  assumes "good E s" "(a, sl) \<in> E"
  shows "sl \<in> entry_bytes s (a, sl)"
    and "obj \<in> set (objs_from (allocator_at s a) (sa_slab_nobjs (allocator_at s a)) (s_addr (slab_at s sl))) \<Longrightarrow>
      {obj, obj_bufctl (allocator_at s a) obj, rear_rz (allocator_at s a) obj} \<subseteq> entry_bytes s (a, sl)"
  using slab_addresses [OF goodD(3) [OF assms] goodD(2) [OF assms]] by (simp_all add: entry_bytes_def blk_of_def)

text \<open>A change to the block of one slab that keeps the slab in order keeps all slabs in order.\<close>

lemma good_change_one:
  assumes good: "good E s" and e: "(a, sl) \<in> E"
    and pages: "pagegroup_list s' = pagegroup_list s" "page_freecount s' = page_freecount s" "allocator_at s' = allocator_at s"
    and rest: "agree (- entry_bytes s (a, sl)) s' s"
    and own: "slab_inv (allocator_at s a) sl s'" "s_addr (slab_at s' sl) = s_addr (slab_at s sl)"
  shows "good E s'"
proof -
  have same: "spans s' = spans s" "free_pages s' = free_pages s" "page_ok s'"
    using pages goodD(1) [OF good] by (simp_all add: spans_def free_pages_def page_ok_def)
  have others: "slab_inv (allocator_at s (fst f)) (snd f) s'" "blk_of s' f = blk_of s f" if f: "f \<in> E" "f \<noteq> (a, sl)" for f
  proof -
    have ag: "agree (entry_bytes s f) s' s"
      using rest entries_apart [OF good f(1) e f(2)] by (auto simp: agree_def)
    from entry_addresses(1) [OF good, of "fst f" "snd f"] f(1) ag show "blk_of s' f = blk_of s f"
      by (simp add: blk_of_def agree_def pages(3))
    show "slab_inv (allocator_at s (fst f)) (snd f) s'"
      using ag by (intro slab_inv_agree [OF goodD(3) [OF good f(1)] goodD(2) [OF good f(1)]]) (simp add: entry_bytes_def blk_of_def)
  qed
  have blk: "blk_of s' f = blk_of s f" if "f \<in> E" for f
    using others(2) [of f] that own(2) by (cases "f = (a, sl)") (auto simp: blk_of_def pages(3))
  have inv: "slab_inv (allocator_at s (fst f)) (snd f) s'" if "f \<in> E" for f
    using others(1) [of f] that own(1) by (cases "f = (a, sl)") auto
  show ?thesis
    using good same(3) inv unfolding good_def pages(3) same(2) by (simp add: blk block_in_spans [OF same(1)])
qed

lemma objs_unique:
  assumes "good E s" "(a, sl) \<in> E" "(b, sl') \<in> E"
    and "obj \<in> set (objs_from (allocator_at s a) (sa_slab_nobjs (allocator_at s a)) (s_addr (slab_at s sl)))"
    and "obj \<in> set (objs_from (allocator_at s b) (sa_slab_nobjs (allocator_at s b)) (s_addr (slab_at s sl')))"
  shows "(a, sl) = (b, sl')"
  using entry_addresses(2) [OF assms(1,2,4)] entry_addresses(2) [OF assms(1,3,5)] entries_apart [OF assms(1,2,3)] by auto

lemma slabs_distinct:
  assumes "good E s" "(a, sl) \<in> E" "(b, sl) \<in> E"
  shows "a = b"
  using entry_addresses(1) [OF assms(1,2)] entry_addresses(1) [OF assms(1,3)] entries_apart [OF assms] by auto

end
