(* ===== verification/Slab_Ops.thy ===== *)
theory Slab_Ops
  imports Slab_Inv
begin

text \<open>
  The operations of the kernel memory allocator on its invariant: taking an object out of a slab and
  giving it back, growing a cache by one slab, the search for a slab with a free object, and
  \<^verbatim>\<open>kmalloc\<close> and \<^verbatim>\<open>kfree\<close> on top of them.
\<close>

section \<open>Taking an object out of a slab\<close>

definition obj_taken :: "nat \<Rightarrow> nat \<Rightarrow> nat \<Rightarrow> 'a slabsys_scheme \<Rightarrow> 'a slabsys_scheme" where
  "obj_taken a sl obj s = (upd_slab sl (\<lambda>x. x\<lparr>s_free := tl (s_free x), s_inuse := s_inuse x + 1\<rparr>) s)
     \<lparr>sb_slab := (sb_slab s)(obj_bufctl (allocator_at s a) obj := sl),
      sb_free := (sb_free s)(obj_bufctl (allocator_at s a) obj := False)\<rparr>"

lemma bufctl_inj [simp]: "obj_bufctl c x = obj_bufctl c y \<longleftrightarrow> x = y"
  by (simp add: obj_bufctl_def)

lemma obj_taken_sel [simp]:
  "pagegroup_list (obj_taken a sl obj s) = pagegroup_list s" "page_freecount (obj_taken a sl obj s) = page_freecount s"
  "allocator_at (obj_taken a sl obj s) = allocator_at s" "slab_allocators (obj_taken a sl obj s) = slab_allocators s"
  "word_at (obj_taken a sl obj s) = word_at s" "kmalloc_allocators (obj_taken a sl obj s) = kmalloc_allocators s"
  "spans (obj_taken a sl obj s) = spans s" "slab_allocator_allocator (obj_taken a sl obj s) = slab_allocator_allocator s"
  by (simp_all add: obj_taken_def upd_slab_def spans_def)

lemma entries_cong:
  "slab_allocators s' = slab_allocators s \<Longrightarrow> allocator_at s' = allocator_at s \<Longrightarrow> entries s' = entries s"
  by (simp add: entries_def)

lemma slabs_ok_change_one:
  assumes "slabs_ok s" "(a, sl) \<in> entries s" "slab_allocators s' = slab_allocators s"
    and "pagegroup_list s' = pagegroup_list s" "page_freecount s' = page_freecount s" "allocator_at s' = allocator_at s"
    and "agree (- entry_bytes s (a, sl)) s' s" "slab_inv (allocator_at s a) sl s'" "s_addr (slab_at s' sl) = s_addr (slab_at s sl)"
  shows "slabs_ok s'"
  using assms(1) good_change_one [OF _ assms(2,4-9)] entries_cong [OF assms(3,6)] unfolding slabs_ok_def assms(3,6) by simp

lemma slabs_okD:
  assumes "slabs_ok s" "(a, sl) \<in> entries s"
  shows "good (entries s) s" "slab_inv (allocator_at s a) sl s" "layout_ok (allocator_at s a)"
  using assms goodD(2,3) [of "entries s" s "(a, sl)"] by (auto simp: slabs_ok_def)

text \<open>The objects of one slab that are in use.\<close>

definition used :: "'a slabsys_scheme \<Rightarrow> nat \<times> nat \<Rightarrow> nat set" where
  "used s e = set (objs_from (allocator_at s (fst e)) (sa_slab_nobjs (allocator_at s (fst e))) (s_addr (slab_at s (snd e))))
     - set (s_free (slab_at s (snd e)))"

lemma live_used: "live s = (\<Union>e\<in>entries s. Pair (fst e) ` used s e)"
  by (auto simp: live_def used_def)

lemma used_unique:
  "good (entries s) s \<Longrightarrow> e \<in> entries s \<Longrightarrow> f \<in> entries s \<Longrightarrow> x \<in> used s e \<Longrightarrow> x \<in> used s f \<Longrightarrow> e = f"
  using objs_unique [of "entries s" s "fst e" "snd e" "fst f" "snd f" x] by (auto simp: used_def)

lemma live_add:
  assumes "entries s' = entries s" "e \<in> entries s" "\<And>f. f \<in> entries s \<Longrightarrow> f \<noteq> e \<Longrightarrow> used s' f = used s f"
    and "used s' e = insert x (used s e)"
  shows "live s' = insert (fst e, x) (live s)"
proof -
  have *: "entries s = insert e (entries s - {e})" using assms(2) by auto
  have "live s' = Pair (fst e) ` used s' e \<union> (\<Union>f\<in>entries s - {e}. Pair (fst f) ` used s' f)"
    unfolding live_used assms(1) by (subst *) blast
  also have "\<dots> = insert (fst e, x) (Pair (fst e) ` used s e \<union> (\<Union>f\<in>entries s - {e}. Pair (fst f) ` used s f))"
    using assms(3) by (simp add: assms(4))
  also have "\<dots> = insert (fst e, x) (live s)"
    unfolding live_used by (subst (2) *) blast
  finally show ?thesis .
qed

lemma live_remove:
  assumes "good (entries s) s" "entries s' = entries s" "e \<in> entries s"
    and "\<And>f. f \<in> entries s \<Longrightarrow> f \<noteq> e \<Longrightarrow> used s' f = used s f"
    and "used s' e = used s e - {x}" "x \<in> used s e"
  shows "live s' = live s - {(fst e, x)}"
proof -
  have *: "entries s = insert e (entries s - {e})" using assms(3) by auto
  have out: "(fst e, x) \<notin> (\<Union>f\<in>entries s - {e}. Pair (fst f) ` used s f)"
    using used_unique [OF assms(1) assms(3)] assms(6) by blast
  have "live s' = Pair (fst e) ` used s' e \<union> (\<Union>f\<in>entries s - {e}. Pair (fst f) ` used s' f)"
    unfolding live_used assms(2) by (subst *) blast
  also have "\<dots> = (Pair (fst e) ` used s e - {(fst e, x)}) \<union> (\<Union>f\<in>entries s - {e}. Pair (fst f) ` used s f)"
    using assms(4) by (auto simp: assms(5))
  also have "\<dots> = (Pair (fst e) ` used s e \<union> (\<Union>f\<in>entries s - {e}. Pair (fst f) ` used s f)) - {(fst e, x)}"
    using out by blast
  also have "\<dots> = live s - {(fst e, x)}"
    unfolding live_used by (subst (2) *) blast
  finally show ?thesis .
qed

lemma used_other:
  assumes "good (entries s) s" "(a, sl) \<in> entries s" "f \<in> entries s" "f \<noteq> (a, sl)"
    and "allocator_at s' = allocator_at s" "\<And>x. x \<noteq> sl \<Longrightarrow> slab_at s' x = slab_at s x"
  shows "used s' f = used s f"
proof -
  have "snd f \<noteq> sl" using slabs_distinct [OF assms(1,2), of "fst f"] assms(3,4) by (metis prod.collapse)
  with assms(6) show ?thesis by (simp add: used_def assms(5))
qed

lemma obj_taken_ok:
  assumes "slabs_ok s" "(a, sl) \<in> entries s" "s_free (slab_at s sl) = obj # os"
  shows "slabs_ok (obj_taken a sl obj s)" "live (obj_taken a sl obj s) = insert (a, obj) (live s)" "(a, obj) \<notin> live s"
    "verify_redzones (allocator_at s a) obj (obj_taken a sl obj s) = Some ()"
proof -
  let ?c = "allocator_at s a" and ?s = "obj_taken a sl obj s"
  let ?objs = "set (objs_from ?c (sa_slab_nobjs ?c) (s_addr (slab_at s sl)))"
  note d = slabs_okD [OF assms(1,2)] and i = slab_invD [OF slabs_okD(2) [OF assms(1,2)]]
  have obj: "obj \<in> ?objs" using i(3) assms(3) by auto
  have bits: "sb_free ?s = (sb_free s)(obj_bufctl ?c obj := False)" "sb_slab ?s = (sb_slab s)(obj_bufctl ?c obj := sl)"
    by (simp_all add: obj_taken_def upd_slab_def)
  have at: "slab_at ?s sl = (slab_at s sl)\<lparr>s_free := os, s_inuse := s_inuse (slab_at s sl) + 1\<rparr>"
    by (simp add: obj_taken_def upd_slab_def assms(3))
  have at_other: "x \<noteq> sl \<Longrightarrow> slab_at ?s x = slab_at s x" for x
    by (simp add: obj_taken_def upd_slab_def)
  note addr = entry_addresses [OF d(1) assms(2)]
  have "agree (- entry_bytes s (a, sl)) ?s s"
    using addr(1) addr(2) [OF obj] by (auto simp: agree_def obj_taken_def upd_slab_def)
  moreover have "slab_inv ?c sl ?s"
    using d(2) assms(3) unfolding slab_inv_def at Let_def bits by auto
  ultimately show "slabs_ok ?s"
    by (intro slabs_ok_change_one [OF assms(1,2)]) (simp_all add: at)
  have own: "used ?s (a, sl) = insert obj (used s (a, sl))"
    using obj assms(3) i(2) by (auto simp: used_def at)
  have others: "used ?s f = used s f" if "f \<in> entries s" "f \<noteq> (a, sl)" for f
    by (rule used_other [OF d(1) assms(2) that _ at_other]) simp_all
  have "entries ?s = entries s" by (rule entries_cong) simp_all
  from live_add [OF this assms(2) others own] show "live ?s = insert (a, obj) (live s)" by simp
  show "(a, obj) \<notin> live s"
  proof
    assume "(a, obj) \<in> live s"
    then obtain sl' where sl': "(a, sl') \<in> entries s" "obj \<notin> set (s_free (slab_at s sl'))"
      "obj \<in> set (objs_from ?c (sa_slab_nobjs ?c) (s_addr (slab_at s sl')))" by (auto simp: live_def)
    from objs_unique [OF d(1) assms(2) sl'(1) obj sl'(3)] sl'(2) assms(3) show False by simp
  qed
  show "verify_redzones ?c obj ?s = Some ()"
    using i(7) [OF obj] by (simp add: verify_redzones_def)
qed

section \<open>Giving an object back\<close>

definition obj_given :: "nat \<Rightarrow> nat \<Rightarrow> nat \<Rightarrow> 'a slabsys_scheme \<Rightarrow> 'a slabsys_scheme" where
  "obj_given a sl obj s = upd_slab sl (\<lambda>x. x\<lparr>s_free := obj # s_free x, s_inuse := s_inuse x - 1\<rparr>)
     (s\<lparr>sb_free := (sb_free s)(obj_bufctl (allocator_at s a) obj := True)\<rparr>)"

lemma obj_given_sel [simp]:
  "pagegroup_list (obj_given a sl obj s) = pagegroup_list s" "page_freecount (obj_given a sl obj s) = page_freecount s"
  "allocator_at (obj_given a sl obj s) = allocator_at s" "slab_allocators (obj_given a sl obj s) = slab_allocators s"
  "word_at (obj_given a sl obj s) = word_at s" "kmalloc_allocators (obj_given a sl obj s) = kmalloc_allocators s"
  by (simp_all add: obj_given_def upd_slab_def)

lemma obj_given_ok:
  assumes "slabs_ok s" "(a, sl) \<in> entries s" "obj \<in> used s (a, sl)"
  shows "slab_obj_free a (obj + PTR_SIZE) s = Some (obj_given a sl obj s)"
    "slabs_ok (obj_given a sl obj s)" "live (obj_given a sl obj s) = live s - {(a, obj)}"
proof -
  let ?c = "allocator_at s a" and ?s = "obj_given a sl obj s"
  note d = slabs_okD [OF assms(1,2)] and i = slab_invD [OF slabs_okD(2) [OF assms(1,2)]]
  have obj: "obj \<in> set (objs_from ?c (sa_slab_nobjs ?c) (s_addr (slab_at s sl)))" "obj \<notin> set (s_free (slab_at s sl))"
    using assms(3) by (auto simp: used_def)
  have at: "slab_at ?s sl = (slab_at s sl)\<lparr>s_free := obj # s_free (slab_at s sl), s_inuse := s_inuse (slab_at s sl) - 1\<rparr>"
    by (simp add: obj_given_def upd_slab_def)
  have at_other: "x \<noteq> sl \<Longrightarrow> slab_at ?s x = slab_at s x" for x
    by (simp add: obj_given_def upd_slab_def)
  have bits: "sb_free ?s = (sb_free s)(obj_bufctl ?c obj := True)" "sb_slab ?s = sb_slab s"
    by (simp_all add: obj_given_def upd_slab_def)
  show "slab_obj_free a (obj + PTR_SIZE) s = Some ?s"
    using i(5,7) [OF obj(1)] i(6) [OF obj] obj(2) by (simp add: slab_obj_free_def obj_given_def Let_def)
  note addr = entry_addresses [OF d(1) assms(2)]
  have "agree (- entry_bytes s (a, sl)) ?s s"
    using addr(1) addr(2) [OF obj(1)] by (auto simp: agree_def obj_given_def upd_slab_def)
  moreover have "slab_inv ?c sl ?s"
    using d(2) obj unfolding slab_inv_def at Let_def bits by auto
  ultimately show "slabs_ok ?s"
    by (intro slabs_ok_change_one [OF assms(1,2)]) (simp_all add: at)
  have own: "used ?s (a, sl) = used s (a, sl) - {obj}" by (auto simp: used_def at)
  have others: "used ?s f = used s f" if "f \<in> entries s" "f \<noteq> (a, sl)" for f
    by (rule used_other [OF d(1) assms(2) that _ at_other]) simp_all
  have "entries ?s = entries s" by (rule entries_cong) simp_all
  from live_remove [OF d(1) this assms(2) others own assms(3)] show "live ?s = live s - {(a, obj)}" by simp
qed

text \<open>An object of a slab that is on the free list is recognised by its control byte.\<close>

lemma free_twice:
  assumes "slabs_ok s" "(a, sl) \<in> entries s" "obj \<in> set (s_free (slab_at s sl))"
  shows "slab_obj_free a (obj + PTR_SIZE) s = None"
proof -
  note i = slab_invD [OF slabs_okD(2) [OF assms(1,2)]]
  have obj: "obj \<in> set (objs_from (allocator_at s a) (sa_slab_nobjs (allocator_at s a)) (s_addr (slab_at s sl)))"
    using i(3) assms(3) by auto
  show ?thesis using i(5,7) [OF obj] assms(3) by (simp add: slab_obj_free_def Let_def)
qed

section \<open>Growing a cache\<close>

lemma fold_flags: "fold (\<lambda>obj m. m(f obj := True)) objs m x = (x \<in> f ` set objs \<or> m x)"
  by (induction objs arbitrary: m) auto

lemma fold_zones:
  "fold (\<lambda>obj m. m(obj := z, f obj := z)) objs m x = (if x \<in> set objs \<union> f ` set objs then z else m x)"
  by (induction objs arbitrary: m) auto

definition grown :: "nat \<Rightarrow> nat \<Rightarrow> 'a slabsys_scheme \<Rightarrow> 'a slabsys_scheme" where
  "grown a addr s = (let c = allocator_at s a; objs = objs_from c (sa_slab_nobjs c) addr; sl = addr + sa_slab_nobjs c * stride c in
     upd_allocator a (\<lambda>c. c\<lparr>sa_slabs := sl # sa_slabs c\<rparr>)
       (upd_slab sl (\<lambda>_. \<lparr>s_inuse = 0, s_free = objs, s_addr = addr\<rparr>)
         (s\<lparr>sb_free := fold (\<lambda>obj m. m(obj_bufctl c obj := True)) objs (sb_free s),
            word_at := fold (\<lambda>obj m. m(obj := SLAB_REDZONE, rear_rz c obj := SLAB_REDZONE)) objs (word_at s)\<rparr>)))"

lemma grow_is_grown:
  assumes "layout_ok (allocator_at s a)"
    and "page_alloc_order reclaim_all (sa_order (allocator_at s a)) s = Some (addr, s1)" "addr \<noteq> 0"
    and "pagesys.more s1 = pagesys.more s"
  shows "slab_allocator_grow a s = Some (1, grown a addr s1)"
proof -
  let ?c = "allocator_at s a"
  have n: "1 \<le> sa_slab_nobjs ?c" "sa_order ?c < PAGE_NSIZES" using assms(1) by (auto simp: layout_ok_def)
  have "next_obj ?c (last (objs_from ?c (sa_slab_nobjs ?c) addr)) = addr + sa_slab_nobjs ?c * stride ?c"
  proof -
    from n(1) obtain m where m: "sa_slab_nobjs ?c = Suc m" by (cases "sa_slab_nobjs ?c") auto
    show ?thesis unfolding m last_objs [OF zero_less_Suc] next_obj_def by (simp add: algebra_simps)
  qed
  moreover have "page_alloc_n reclaim_all (2 ^ sa_order ?c) s = Some (addr, s1)"
    using assms(2) by (simp add: page_alloc_n_def order_for_power [OF n(2)])
  moreover have "max 1 (sa_slab_nobjs ?c) = sa_slab_nobjs ?c" using n(1) by simp
  ultimately show ?thesis
    using assms(3) by (simp add: slab_allocator_grow_def grown_def Let_def more_same [OF assms(4)])
qed

lemma good_fewer_pages:
  assumes "good E s" "pagesys.more s1 = pagesys.more s" "page_ok s1" "spans s1 = spans s" "free_pages s1 \<subseteq> free_pages s"
  shows "good E s1"
  using assms(1,3,5) unfolding good_def blk_of_more [OF assms(2)] slab_inv_more [OF assms(2)] more_same(2) [OF assms(2)]
    block_in_spans [OF assms(4)] by blast

lemma good_add_slab:
  assumes good: "good E s" and new: "layout_ok (allocator_at s' a)" "slab_inv (allocator_at s' a) sl s'"
      "block_in s (s_addr (slab_at s' sl)) (sa_order (allocator_at s' a))"
      "blk_pages (s_addr (slab_at s' sl)) (sa_order (allocator_at s' a)) \<inter> free_pages s = {}"
    and apart: "\<And>e. e \<in> E \<Longrightarrow> blk_pages (fst (blk_of s e)) (snd (blk_of s e)) \<inter> blk_pages (s_addr (slab_at s' sl)) (sa_order (allocator_at s' a)) = {}"
    and pages: "pagegroup_list s' = pagegroup_list s" "page_freecount s' = page_freecount s"
    and layout: "\<And>b. same_layout (allocator_at s' b) (allocator_at s b)"
    and rest: "agree (- blk_bytes (s_addr (slab_at s' sl)) (sa_order (allocator_at s' a))) s' s"
  shows "good (insert (a, sl) E) s'"
proof -
  let ?B = "blk_bytes (s_addr (slab_at s' sl)) (sa_order (allocator_at s' a))"
  have same: "spans s' = spans s" "free_pages s' = free_pages s" "page_ok s'"
    using pages goodD(1) [OF good] by (simp_all add: spans_def free_pages_def page_ok_def)
  have old: "slab_inv (allocator_at s' (fst e)) (snd e) s'" "blk_of s' e = blk_of s e" if e: "e \<in> E" for e
  proof -
    have "entry_bytes s e \<inter> ?B = {}"
      unfolding entry_bytes_def by (rule bytes_apart [OF goodD(1) [OF good] goodD(4) [OF good e] new(3) apart [OF e]])
    with rest have ag: "agree (entry_bytes s e) s' s" by (auto simp: agree_def)
    from entry_addresses(1) [OF good, of "fst e" "snd e"] e ag show "blk_of s' e = blk_of s e"
      by (simp add: blk_of_def agree_def same_layout_slab(4) [OF layout])
    show "slab_inv (allocator_at s' (fst e)) (snd e) s'"
      unfolding same_layout_slab(1) [OF layout]
      using ag by (intro slab_inv_agree [OF goodD(3) [OF good e] goodD(2) [OF good e]]) (simp add: entry_bytes_def blk_of_def)
  qed
  have own: "blk_of s' (a, sl) = (s_addr (slab_at s' sl), sa_order (allocator_at s' a))" by (simp add: blk_of_def)
  have single: "layout_ok (allocator_at s' (fst e)) \<and> slab_inv (allocator_at s' (fst e)) (snd e) s'
      \<and> block_in s' (fst (blk_of s' e)) (snd (blk_of s' e)) \<and> blk_pages (fst (blk_of s' e)) (snd (blk_of s' e)) \<inter> free_pages s' = {}"
    if "e \<in> insert (a, sl) E" for e
  proof (cases "e \<in> E")
    case True
    then show ?thesis
      using goodD(2,4,5) [OF good True] old [OF True] same_layout_slab(2) [OF layout] by (simp add: same block_in_spans [OF same(1)])
  qed (use that new own in \<open>simp add: same block_in_spans [OF same(1)]\<close>)
  have pair: "blk_pages (fst (blk_of s' e)) (snd (blk_of s' e)) \<inter> blk_pages (fst (blk_of s' f)) (snd (blk_of s' f)) = {}"
    if ef: "e \<in> insert (a, sl) E" "f \<in> insert (a, sl) E" "e \<noteq> f" for e f
  proof -
    consider "e \<in> E" "f \<in> E" | "e = (a, sl)" "f \<in> E" | "f = (a, sl)" "e \<in> E" using ef by blast
    then show ?thesis
      using goodD(6) [OF good _ _ ef(3)] apart old(2) by cases (simp_all add: own Int_commute)
  qed
  from single pair same(3) show ?thesis unfolding good_def by blast
qed

lemma grown_sel:
  assumes "sl = addr + sa_slab_nobjs (allocator_at s a) * stride (allocator_at s a)"
  shows "pagegroup_list (grown a addr s) = pagegroup_list s" "page_freecount (grown a addr s) = page_freecount s"
    "slab_allocators (grown a addr s) = slab_allocators s" "kmalloc_allocators (grown a addr s) = kmalloc_allocators s"
    "allocator_at (grown a addr s) = (allocator_at s)(a := (allocator_at s a)\<lparr>sa_slabs := sl # sa_slabs (allocator_at s a)\<rparr>)"
    "slab_at (grown a addr s) = (slab_at s)(sl := \<lparr>s_inuse = 0,
       s_free = objs_from (allocator_at s a) (sa_slab_nobjs (allocator_at s a)) addr, s_addr = addr\<rparr>)"
    "sb_slab (grown a addr s) = sb_slab s" "slab_allocator_allocator (grown a addr s) = slab_allocator_allocator s" "spans (grown a addr s) = spans s"
  using assms by (simp_all add: grown_def Let_def upd_allocator_def upd_slab_def spans_def)

lemma grown_words:
  "sb_free (grown a addr s) x = (x \<in> obj_bufctl (allocator_at s a) ` set (objs_from (allocator_at s a) (sa_slab_nobjs (allocator_at s a)) addr) \<or> sb_free s x)"
  "word_at (grown a addr s) x = (if x \<in> set (objs_from (allocator_at s a) (sa_slab_nobjs (allocator_at s a)) addr)
     \<union> rear_rz (allocator_at s a) ` set (objs_from (allocator_at s a) (sa_slab_nobjs (allocator_at s a)) addr) then SLAB_REDZONE else word_at s x)"
  unfolding grown_def Let_def upd_allocator_def upd_slab_def
  by (simp_all add: fold_flags fold_zones)

lemma grown_slab:
  assumes "layout_ok (allocator_at s a)"
  shows "slab_inv (allocator_at s a) (addr + sa_slab_nobjs (allocator_at s a) * stride (allocator_at s a)) (grown a addr s)"
  unfolding slab_inv_def Let_def grown_sel(6) [OF refl]
  by (simp add: grown_words distinct_objs)

lemma grown_agree:
  assumes "layout_ok (allocator_at s a)"
  shows "agree (- blk_bytes addr (sa_order (allocator_at s a))) (grown a addr s) s"
proof -
  let ?c = "allocator_at s a" and ?sl = "addr + sa_slab_nobjs (allocator_at s a) * stride (allocator_at s a)"
  have at: "s_addr (slab_at (grown a addr s) ?sl) = addr" by (simp add: grown_sel(6) [OF refl])
  note in_blk = slab_addresses [OF grown_slab [OF assms] assms, unfolded at]
  show ?thesis
    using in_blk unfolding agree_def grown_words grown_sel(6,7) [OF refl] by fastforce
qed

text \<open>The state after a block of pages has been allocated for a cache, before the slab is made.\<close>

definition fresh_block :: "nat \<Rightarrow> nat \<Rightarrow> 'a slabsys_scheme \<Rightarrow> 'a slabsys_scheme \<Rightarrow> bool" where
  "fresh_block order addr s s1 \<longleftrightarrow> pagesys.more s1 = pagesys.more s \<and> page_ok s1 \<and> spans s1 = spans s
     \<and> block_in s addr order \<and> blk_pages addr order \<subseteq> free_pages s \<and> free_pages s1 = free_pages s - blk_pages addr order"

lemma fresh_blockD:
  assumes "fresh_block order addr s s1"
  shows "pagesys.more s1 = pagesys.more s" "page_ok s1" "spans s1 = spans s" "block_in s addr order"
    "blk_pages addr order \<subseteq> free_pages s" "free_pages s1 = free_pages s - blk_pages addr order"
  using assms by (simp_all add: fresh_block_def)

lemma fresh_apart:
  assumes "good E s" "fresh_block order addr s s1" "e \<in> E"
  shows "blk_pages (fst (blk_of s1 e)) (snd (blk_of s1 e)) \<inter> blk_pages addr order = {}"
    and "entry_bytes s e \<inter> blk_bytes addr order = {}"
proof -
  note f = fresh_blockD [OF assms(2)]
  have pages: "blk_pages (fst (blk_of s e)) (snd (blk_of s e)) \<inter> blk_pages addr order = {}"
    using goodD(5) [OF assms(1,3)] f(5) by blast
  then show "blk_pages (fst (blk_of s1 e)) (snd (blk_of s1 e)) \<inter> blk_pages addr order = {}"
    by (simp add: blk_of_more [OF f(1)])
  show "entry_bytes s e \<inter> blk_bytes addr order = {}"
    unfolding entry_bytes_def by (rule bytes_apart [OF goodD(1) [OF assms(1)] goodD(4) [OF assms(1,3)] f(4) pages])
qed

lemma grown_good:
  assumes good: "good E s" and lay: "layout_ok (allocator_at s a)" and f: "fresh_block (sa_order (allocator_at s a)) addr s s1"
  shows "good (insert (a, addr + sa_slab_nobjs (allocator_at s a) * stride (allocator_at s a)) E) (grown a addr s1)"
proof -
  let ?c = "allocator_at s a" and ?s = "grown a addr s1"
  let ?sl = "addr + sa_slab_nobjs (allocator_at s a) * stride (allocator_at s a)"
  note f' = fresh_blockD [OF f] and sel1 = more_same [OF fresh_blockD(1) [OF f]]
  have good1: "good E s1" by (rule good_fewer_pages [OF good f'(1-3)]) (simp add: f'(6))
  have lay1: "layout_ok (allocator_at s1 a)" using lay by (simp add: sel1)
  have sl1: "?sl = addr + sa_slab_nobjs (allocator_at s1 a) * stride (allocator_at s1 a)" by (simp add: sel1)
  note g = grown_sel [OF sl1]
  have layout: "same_layout (allocator_at ?s b) (allocator_at s1 b)" for b by (simp add: g(5) same_layout_def)
  have own: "s_addr (slab_at ?s ?sl) = addr" "sa_order (allocator_at ?s a) = sa_order ?c"
    by (simp_all add: g(5,6) sel1)
  show ?thesis
  proof (rule good_add_slab [OF good1])
    show "slab_inv (allocator_at ?s a) ?sl ?s"
      unfolding same_layout_slab(1) [OF layout] sl1 by (rule grown_slab [OF lay1])
    show "layout_ok (allocator_at ?s a)" using lay1 by (simp add: same_layout_slab(2) [OF layout])
    show "block_in s1 (s_addr (slab_at ?s ?sl)) (sa_order (allocator_at ?s a))"
      unfolding own block_in_spans [OF f'(3)] by (rule f'(4))
    show "blk_pages (s_addr (slab_at ?s ?sl)) (sa_order (allocator_at ?s a)) \<inter> free_pages s1 = {}"
      unfolding own f'(6) by blast
    show "agree (- blk_bytes (s_addr (slab_at ?s ?sl)) (sa_order (allocator_at ?s a))) ?s s1"
      unfolding own using grown_agree [OF lay1, of addr] by (simp add: sel1)
  qed (simp_all add: own fresh_apart(1) [OF good f] layout g(1,2))
qed

lemma grown_slab_fresh:
  assumes "good (entries s) s" "layout_ok (allocator_at s a)" "fresh_block (sa_order (allocator_at s a)) addr s s1" "(b, sl) \<in> entries s"
  shows "sl \<noteq> addr + sa_slab_nobjs (allocator_at s a) * stride (allocator_at s a)"
proof -
  have "sa_slab_nobjs (allocator_at s a) * stride (allocator_at s a) + SLAB_STRUCT_SIZE \<le> 2 ^ sa_order (allocator_at s a) * PAGE_BYTES"
    using assms(2) by (simp add: layout_ok_def slab_size_def mult.commute)
  then have "addr + sa_slab_nobjs (allocator_at s a) * stride (allocator_at s a) \<in> blk_bytes addr (sa_order (allocator_at s a))"
    by (simp add: blk_bytes_def SLAB_STRUCT_SIZE_def)
  with fresh_apart(2) [OF assms(1,3,4)] entry_addresses(1) [OF assms(1,4)] show ?thesis by blast
qed

lemma grown_ok:
  assumes ok: "slabs_ok s" and a: "a \<in> set (slab_allocators s)" and f: "fresh_block (sa_order (allocator_at s a)) addr s s1"
  shows "slabs_ok (grown a addr s1)" "live (grown a addr s1) = live s"
proof -
  let ?c = "allocator_at s a" and ?s = "grown a addr s1"
  let ?sl = "addr + sa_slab_nobjs (allocator_at s a) * stride (allocator_at s a)"
  have good: "good (entries s) s" and lay: "layout_ok ?c" using ok a by (auto simp: slabs_ok_def)
  note sel1 = more_same [OF fresh_blockD(1) [OF f]]
  have sl1: "?sl = addr + sa_slab_nobjs (allocator_at s1 a) * stride (allocator_at s1 a)" by (simp add: sel1)
  note g = grown_sel [OF sl1]
  have layout: "same_layout (allocator_at ?s b) (allocator_at s b)" for b by (simp add: g(5) sel1 same_layout_def)
  have ent: "entries ?s = insert (a, ?sl) (entries s)"
    using a by (auto simp: entries_def g(3,5) sel1 split: if_splits)
  have "?sl \<notin> set (sa_slabs ?c)"
    using grown_slab_fresh [OF good lay f, of a] a by (auto simp: entries_def)
  then have "distinct (sa_slabs (allocator_at ?s b))" if "b \<in> set (slab_allocators s)" for b
    using ok that a by (simp add: slabs_ok_def g(5) sel1)
  moreover have "layout_ok (allocator_at ?s b)" if "b \<in> set (slab_allocators s)" for b
    using ok that by (simp add: slabs_ok_def same_layout_slab(2) [OF layout])
  moreover have "distinct (slab_allocators s)" using ok by (simp add: slabs_ok_def)
  ultimately show "slabs_ok ?s"
    using grown_good [OF good lay f] by (simp add: slabs_ok_def ent g(3) sel1(6))
  have "used ?s (a, ?sl) = {}"
    using same_layout_slab(3,5) [OF layout, of a] by (simp add: used_def g(6) sel1(2))
  moreover have "used ?s e = used s e" if "e \<in> entries s" for e
  proof -
    have "snd e \<noteq> ?sl" using grown_slab_fresh [OF good lay f, of "fst e" "snd e"] that by simp
    then show ?thesis by (simp add: used_def g(6) same_layout_slab(3,5) [OF layout] sel1)
  qed
  ultimately show "live ?s = live s" by (simp add: live_used ent)
qed

lemma grown_word:
  assumes "good (entries s) s" "layout_ok (allocator_at s a)" "fresh_block (sa_order (allocator_at s a)) addr s s1" "(b, x) \<in> live s"
  shows "word_at (grown a addr s1) (x + PTR_SIZE) = word_at s (x + PTR_SIZE)"
proof -
  note sel1 = more_same [OF fresh_blockD(1) [OF assms(3)]]
  obtain sl where e: "(b, sl) \<in> entries s"
    "x \<in> set (objs_from (allocator_at s b) (sa_slab_nobjs (allocator_at s b)) (s_addr (slab_at s sl)))"
    using assms(4) by (auto simp: live_def)
  have "layout_ok (allocator_at s b)" using goodD(2) [OF assms(1) e(1)] by simp
  from obj_inside [OF this e(2)] this have "x + PTR_SIZE \<in> entry_bytes s (b, sl)"
    by (auto simp: entry_bytes_def blk_of_def blk_bytes_def layout_ok_def slab_consts)
  moreover have "layout_ok (allocator_at s1 a)" using assms(2) by (simp add: sel1)
  ultimately show ?thesis
    using fresh_apart(2) [OF assms(1,3) e(1)] grown_agree [of s1 a addr] by (auto simp: agree_def sel1)
qed

text \<open>What every step keeps: the caches, the layout of their slabs, and the second word of objects in use.\<close>

definition kept :: "'a slabsys_scheme \<Rightarrow> 'a slabsys_scheme \<Rightarrow> bool" where
  "kept s' s \<longleftrightarrow> slab_allocators s' = slab_allocators s \<and> kmalloc_allocators s' = kmalloc_allocators s
     \<and> spans s' = spans s \<and> slab_allocator_allocator s' = slab_allocator_allocator s
     \<and> (\<forall>b. same_layout (allocator_at s' b) (allocator_at s b))
     \<and> (\<forall>(b, x)\<in>live s. word_at s' (x + PTR_SIZE) = word_at s (x + PTR_SIZE))"

lemma kept_refl [simp]: "kept s s"
  by (simp add: kept_def same_layout_def)

lemma grow_cases:
  assumes ok: "slabs_ok s" and a: "a \<in> set (slab_allocators s)"
  shows "\<exists>r s'. slab_allocator_grow a s = Some (r, s') \<and> slabs_ok s' \<and> live s' = live s \<and> kept s' s
    \<and> (r = 0 \<or> first_usable (allocator_at s' a) s' \<noteq> None)"
proof -
  let ?c = "allocator_at s a"
  have good: "good (entries s) s" and lay: "layout_ok ?c" using ok a by (auto simp: slabs_ok_def)
  have small: "sa_order ?c < PAGE_NSIZES" using lay by (simp add: layout_ok_def)
  show ?thesis
  proof (cases "can_alloc (sa_order ?c) s")
    case True
    obtain addr s1 where s1: "page_alloc_order reclaim_all (sa_order ?c) s = Some (addr, s1)" "page_ok s1" "spans s1 = spans s"
      "addr \<noteq> 0" "block_in s addr (sa_order ?c)" "blk_pages addr (sa_order ?c) \<subseteq> free_pages s"
      "free_pages s1 = free_pages s - blk_pages addr (sa_order ?c)"
      using page_alloc_step [OF goodD(1) [OF good] small True, of reclaim_all] by blast
    note more = page_alloc_more [OF s1(1) True]
    have f: "fresh_block (sa_order ?c) addr s s1" using s1 more by (simp add: fresh_block_def)
    note sel1 = more_same [OF more]
    have "kept (grown a addr s1) s"
      using grown_word [OF good lay f] by (auto simp: kept_def grown_sel(3-5,8,9) [OF refl] sel1 s1(3) same_layout_def)
    moreover have "first_usable (allocator_at (grown a addr s1) a) (grown a addr s1) \<noteq> None"
      using lay by (simp add: first_usable_def grown_sel(5,6) [OF refl] sel1 layout_ok_def)
    ultimately show ?thesis
      using grow_is_grown [OF lay s1(1,4) more] grown_ok [OF ok a f] by blast
  next
    case False
    from reclaim_allocators_ok [OF ok, of "slab_allocators s" 0 0] obtain n s' where s':
      "slab_allocators_reclaim 0 s = Some (n, s')" "slabs_ok s'" "live s' = live s" "kept s' s"
      by (auto simp: slab_allocators_reclaim_def kept_def)
    have "page_alloc_n reclaim_all (2 ^ sa_order ?c) s = Some (0, s')"
      using page_alloc_fails [OF False small, of reclaim_all] s'(1)
      by (simp add: page_alloc_n_def order_for_power [OF small] reclaim_all_def)
    then have "slab_allocator_grow a s = Some (0, s')" by (simp add: slab_allocator_grow_def)
    with s' show ?thesis by blast
  qed
qed

lemma first_usable_ok:
  assumes "slabs_ok s" "a \<in> set (slab_allocators s)" "first_usable (allocator_at s a) s = Some sl"
  shows "(a, sl) \<in> entries s" "s_free (slab_at s sl) \<noteq> []" "sl \<noteq> 0"
proof -
  have "List.find (\<lambda>sl. s_inuse (slab_at s sl) \<noteq> int (sa_slab_nobjs (allocator_at s a))) (sa_slabs (allocator_at s a)) = Some sl"
    and less: "s_inuse (slab_at s sl) < int (sa_slab_nobjs (allocator_at s a))"
    using assms(3) by (auto simp: first_usable_def split: option.splits if_splits)
  then have "sl \<in> set (sa_slabs (allocator_at s a))" by (auto simp: find_Some_iff)
  then show e: "(a, sl) \<in> entries s" using assms(2) by (simp add: entries_def)
  note i = slab_invD [OF slabs_okD(2) [OF assms(1) e]]
  from i(4) less show "s_free (slab_at s sl) \<noteq> []" by auto
  have "0 < sa_slab_nobjs (allocator_at s a) * stride (allocator_at s a)"
    using slabs_okD(3) [OF assms(1) e] by (simp add: layout_ok_def BUFCTL_SIZE_def)
  with i(1) show "sl \<noteq> 0" by linarith
qed

lemma find_slab_ok:
  assumes "slabs_ok s" "a \<in> set (slab_allocators s)"
  shows "\<exists>sl s'. find_slab a s = Some (sl, s') \<and> slabs_ok s' \<and> live s' = live s \<and> kept s' s
    \<and> (sl = 0 \<or> (a, sl) \<in> entries s' \<and> s_free (slab_at s' sl) \<noteq> [])"
proof (cases "first_usable (allocator_at s a) s")
  case (Some sl)
  then have "find_slab a s = Some (sl, s)" by (subst find_slab.simps) simp
  with first_usable_ok [OF assms Some] assms(1) show ?thesis by auto
next
  case None
  from grow_cases [OF assms] obtain r s' where r: "slab_allocator_grow a s = Some (r, s')" "slabs_ok s'" "live s' = live s"
    "kept s' s" "r = 0 \<or> first_usable (allocator_at s' a) s' \<noteq> None" by blast
  have step: "find_slab a s = (if r = 0 then Some (0, s') else find_slab a s')"
    using None r(1) by (subst find_slab.simps) simp
  show ?thesis
  proof (cases "r = 0")
    case True
    with step r(2-4) show ?thesis by auto
  next
    case False
    with r(5) obtain sl where sl: "first_usable (allocator_at s' a) s' = Some sl" by auto
    then have "find_slab a s' = Some (sl, s')" by (subst find_slab.simps) simp
    moreover have "a \<in> set (slab_allocators s')" using assms(2) r(4) by (simp add: kept_def)
    ultimately show ?thesis using step False r(2-4) first_usable_ok [OF r(2) _ sl] by auto
  qed
qed

section \<open>Objects\<close>

lemma slab_obj_alloc_step:
  assumes "slabs_ok s" "a \<in> set (slab_allocators s)"
  shows "\<exists>p s'. slab_obj_alloc a s = Some (p, s') \<and> slabs_ok s' \<and> kept s' s
    \<and> (p = 0 \<and> live s' = live s \<or> (\<exists>obj. p = obj + PTR_SIZE \<and> (a, obj) \<notin> live s \<and> live s' = insert (a, obj) (live s)))"
proof -
  from find_slab_ok [OF assms] obtain sl s1 where s1: "find_slab a s = Some (sl, s1)" "slabs_ok s1" "live s1 = live s" "kept s1 s"
    "sl = 0 \<or> (a, sl) \<in> entries s1 \<and> s_free (slab_at s1 sl) \<noteq> []" by blast
  show ?thesis
  proof (cases "sl = 0")
    case True
    then show ?thesis using s1(1-4) by (auto simp: slab_obj_alloc_def)
  next
    case False
    with s1(5) obtain obj os where e: "(a, sl) \<in> entries s1" "s_free (slab_at s1 sl) = obj # os" by (cases "s_free (slab_at s1 sl)") auto
    note t = obj_taken_ok [OF s1(2) e]
    have "slab_obj_alloc a s = Some (obj + PTR_SIZE, obj_taken a sl obj s1)"
      using False s1(1) e(2) t(4) by (simp add: slab_obj_alloc_def obj_taken_def upd_slab_def Let_def)
    moreover have "kept (obj_taken a sl obj s1) s" using s1(4) by (simp add: kept_def)
    ultimately show ?thesis using t(1-3) s1(3) by auto
  qed
qed

text \<open>The bytes of an object, from its first red zone to its last.\<close>

definition obj_bytes :: "'a slabsys_scheme \<Rightarrow> nat \<times> nat \<Rightarrow> nat set" where
  "obj_bytes s o' = {snd o'..<snd o' + sa_objsize (allocator_at s (fst o'))}"

lemma live_disjoint:
  assumes "slabs_ok s" "p \<in> live s" "q \<in> live s" "p \<noteq> q"
  shows "obj_bytes s p \<inter> obj_bytes s q = {}"
proof -
  have good: "good (entries s) s" using assms(1) by (simp add: slabs_ok_def)
  obtain a x sl b y sl' where p: "p = (a, x)" "(a, sl) \<in> entries s" "x \<in> used s (a, sl)"
    and q: "q = (b, y)" "(b, sl') \<in> entries s" "y \<in> used s (b, sl')"
    using assms(2,3) by (auto simp: live_used)
  note xin = p(3) [unfolded used_def fst_conv snd_conv] and yin = q(3) [unfolded used_def fst_conv snd_conv]
  have bytes: "obj_bytes s (c, z) \<subseteq> entry_bytes s (c, t)" if "(c, t) \<in> entries s" "z \<in> used s (c, t)" for c t z
    using obj_inside [OF goodD(2) [OF good that(1)], of z "s_addr (slab_at s t)"] that(2)
    by (auto simp: obj_bytes_def entry_bytes_def blk_of_def blk_bytes_def used_def)
  show ?thesis
  proof (cases "(a, sl) = (b, sl')")
    case True
    then have "x + stride (allocator_at s a) \<le> y \<or> y + stride (allocator_at s a) \<le> x"
      using xin yin assms(4) p(1) q(1) by (intro objs_apart) auto
    with True show ?thesis by (auto simp: obj_bytes_def p(1) q(1))
  next
    case False
    with entries_apart [OF good p(2) q(2)] bytes [OF p(2,3)] bytes [OF q(2,3)] show ?thesis by (auto simp: p(1) q(1))
  qed
qed

section \<open>Memory of any size\<close>

definition kmalloc_ok :: "'a slabsys_scheme \<Rightarrow> bool" where
  "kmalloc_ok s \<longleftrightarrow> slabs_ok s \<and> length (kmalloc_allocators s) = KMALLOC_SIZE_MAX_ORDER - KMALLOC_SIZE_MIN_ORDER + 1
     \<and> set (kmalloc_allocators s) \<subseteq> set (slab_allocators s)
     \<and> (\<forall>i<length (kmalloc_allocators s). sa_objsize (allocator_at s (kmalloc_allocators s ! i)) = 2 ^ (KMALLOC_SIZE_MIN_ORDER + i) + 2 * PTR_SIZE)
     \<and> (\<forall>(a, obj)\<in>live s. a \<in> set (kmalloc_allocators s) \<longrightarrow> word_at s (obj + PTR_SIZE) = a)"

text \<open>The second word of a large object is neither a red zone nor anything of another object.\<close>

lemma second_word:
  assumes "layout_ok c" "3 * PTR_SIZE \<le> sa_objsize c" "x \<in> set (objs_from c n addr)" "y \<in> set (objs_from c n addr)"
  shows "y \<noteq> x + PTR_SIZE" "rear_rz c y \<noteq> x + PTR_SIZE"
  using objs_apart [OF assms(3,4)] assms(1,2) by (cases "x = y"; auto simp: rear_rz_def layout_ok_def slab_consts)+

lemma tag_ok:
  assumes "slabs_ok s" "(a, obj) \<in> live s" "3 * PTR_SIZE \<le> sa_objsize (allocator_at s a)"
  shows "slabs_ok (s\<lparr>word_at := (word_at s)(obj + PTR_SIZE := v)\<rparr>)" "live (s\<lparr>word_at := (word_at s)(obj + PTR_SIZE := v)\<rparr>) = live s"
proof -
  let ?s = "s\<lparr>word_at := (word_at s)(obj + PTR_SIZE := v)\<rparr>" and ?c = "allocator_at s a"
  obtain sl where e: "(a, sl) \<in> entries s" "obj \<in> set (objs_from ?c (sa_slab_nobjs ?c) (s_addr (slab_at s sl)))"
    using assms(2) by (auto simp: live_def)
  note d = slabs_okD [OF assms(1) e(1)]
  from obj_inside [OF d(3) e(2)] d(3) have "obj + PTR_SIZE \<in> entry_bytes s (a, sl)"
    by (auto simp: entry_bytes_def blk_of_def blk_bytes_def layout_ok_def slab_consts)
  then have "agree (- entry_bytes s (a, sl)) ?s s" by (auto simp: agree_def)
  moreover have "slab_inv ?c sl ?s"
    using d(2) second_word [OF d(3) assms(3) e(2)] by (simp add: slab_inv_def Let_def)
  ultimately show "slabs_ok ?s" by (intro slabs_ok_change_one [OF assms(1) e(1)]) simp_all
  show "live ?s = live s" by (simp add: live_def entries_def)
qed

lemma kmalloc_bucket_fits:
  assumes "kmalloc_bucket n = Some i"
  shows "(n + PTR_SIZE) mod 2 ^ 32 \<le> 2 ^ (KMALLOC_SIZE_MIN_ORDER + i)" "i < KMALLOC_SIZE_MAX_ORDER - KMALLOC_SIZE_MIN_ORDER + 1"
  using assms by (auto simp: kmalloc_bucket_def find_Some_iff simp del: upt_Suc)

lemma tags_other:
  assumes "slabs_ok s" "p \<in> live s" "q \<in> live s" "snd p + PTR_SIZE = snd q + PTR_SIZE"
  shows "p = q"
proof (rule ccontr)
  assume "p \<noteq> q"
  from live_disjoint [OF assms(1-3) this] assms(4) have "obj_bytes s p \<inter> obj_bytes s q = {}" "snd p = snd q" by auto
  moreover have "0 < sa_objsize (allocator_at s (fst e))" if "e \<in> live s" for e
    using that assms(1) by (auto simp: live_def entries_def slabs_ok_def layout_ok_def PTR_SIZE_def)
  ultimately show False using assms(2,3) unfolding obj_bytes_def by (metis Int_iff atLeastLessThan_iff empty_iff le_add1 less_add_same_cancel1 order_refl)
qed

lemma kmalloc_step:
  assumes ok: "kmalloc_ok s" and bucket: "kmalloc_bucket n = Some i"
  shows "\<exists>p s'. kmalloc n s = Some (p, s') \<and> kmalloc_ok s' \<and>
    (p = 0 \<and> live s' = live s \<or>
     (\<exists>obj. p = obj + 2 * PTR_SIZE \<and> (kmalloc_allocators s ! i, obj) \<notin> live s \<and> live s' = insert (kmalloc_allocators s ! i, obj) (live s)
        \<and> kmalloc_allocators s' = kmalloc_allocators s))"
proof -
  let ?a = "kmalloc_allocators s ! i"
  have slabs: "slabs_ok s" and i: "i < length (kmalloc_allocators s)" and a: "?a \<in> set (slab_allocators s)"
    using ok kmalloc_bucket_fits(2) [OF bucket] nth_mem [of i "kmalloc_allocators s"] by (auto simp: kmalloc_ok_def)
  from slab_obj_alloc_step [OF slabs a] obtain p s' where s': "slab_obj_alloc ?a s = Some (p, s')" "slabs_ok s'" "kept s' s"
    "p = 0 \<and> live s' = live s \<or> (\<exists>obj. p = obj + PTR_SIZE \<and> (?a, obj) \<notin> live s \<and> live s' = insert (?a, obj) (live s))" by blast
  have keep: "slab_allocators s' = slab_allocators s" "kmalloc_allocators s' = kmalloc_allocators s"
    "sa_objsize (allocator_at s' b) = sa_objsize (allocator_at s b)" for b
    using s'(3) by (auto simp: kept_def same_layout_def)
  have tags: "word_at s' (x + PTR_SIZE) = b" if "(b, x) \<in> live s" "b \<in> set (kmalloc_allocators s)" for b x
    using ok s'(3) that by (auto simp: kmalloc_ok_def kept_def)
  show ?thesis
  proof (cases "p = 0")
    case True
    with s'(4) have "live s' = live s" by (auto simp: PTR_SIZE_def)
    moreover from this have "kmalloc_ok s'"
      using ok s'(2) tags by (auto simp: kmalloc_ok_def keep)
    ultimately show ?thesis using True s'(1) i bucket by (simp add: kmalloc_def)
  next
    case False
    with s'(4) obtain obj where obj: "p = obj + PTR_SIZE" "(?a, obj) \<notin> live s" "live s' = insert (?a, obj) (live s)" by auto
    have big: "3 * PTR_SIZE \<le> sa_objsize (allocator_at s' ?a)"
      using ok i by (simp add: kmalloc_ok_def keep KMALLOC_SIZE_MIN_ORDER_def PTR_SIZE_def power_add)
    have mem: "(?a, obj) \<in> live s'" by (simp add: obj(3))
    let ?t = "s'\<lparr>word_at := (word_at s')(p := ?a)\<rparr>"
    note t = tag_ok [OF s'(2) mem big, of ?a, folded obj(1)]
    have "word_at ?t (x + PTR_SIZE) = b" if "(b, x) \<in> live s'" "b \<in> set (kmalloc_allocators s)" for b x
      using tags [of b x] that tags_other [OF s'(2) mem that(1)] by (cases "(b, x) = (?a, obj)") (auto simp: obj(1,3))
    then have "\<forall>(b, x)\<in>live s'. b \<in> set (kmalloc_allocators s) \<longrightarrow> word_at ?t (x + PTR_SIZE) = b" by blast
    then have "kmalloc_ok ?t" using ok t(1) by (simp add: kmalloc_ok_def t(2) keep)
    moreover have "kmalloc n s = Some (p + PTR_SIZE, ?t)" using False s'(1) i bucket by (simp add: kmalloc_def)
    ultimately show ?thesis using obj t(2) keep(2) by auto
  qed
qed

lemma kfree_step:
  assumes "kmalloc_ok s" "(a, obj) \<in> live s" "a \<in> set (kmalloc_allocators s)"
  shows "\<exists>s'. kfree (obj + 2 * PTR_SIZE) s = Some s' \<and> kmalloc_ok s' \<and> live s' = live s - {(a, obj)}"
proof -
  have slabs: "slabs_ok s" and tag: "word_at s (obj + PTR_SIZE) = a" using assms by (auto simp: kmalloc_ok_def)
  obtain sl where e: "(a, sl) \<in> entries s" "obj \<in> used s (a, sl)" using assms(2) by (auto simp: live_used)
  note g = obj_given_ok [OF slabs e]
  have "kfree (obj + 2 * PTR_SIZE) s = Some (obj_given a sl obj s)"
    unfolding kfree_def using g(1) tag by (simp add: mult_2 add.assoc [symmetric])
  moreover have "kmalloc_ok (obj_given a sl obj s)" using assms(1) g(2) by (auto simp: kmalloc_ok_def g(3))
  ultimately show ?thesis using g(3) by blast
qed

lemma kmalloc_bucket_exists:
  assumes "n + PTR_SIZE \<le> 2 ^ KMALLOC_SIZE_MAX_ORDER"
  obtains i where "kmalloc_bucket n = Some i"
proof -
  have "kmalloc_bucket n \<noteq> None"
    unfolding kmalloc_bucket_def find_None_iff
    using assms by (intro notI) (auto dest!: spec [of _ 12] simp: KMALLOC_SIZE_MIN_ORDER_def KMALLOC_SIZE_MAX_ORDER_def PTR_SIZE_def simp del: upt_Suc)
  then show thesis using that by blast
qed


end
