(* ===== verification/Slab_Props.thy ===== *)
theory Slab_Props
  imports Slab_Ops
begin

text \<open>
  The start of the kernel memory allocator and its promises: after \<^verbatim>\<open>slab_init\<close> the caches are in
  order; an object handed out was not in use before, objects in use never overlap, freeing an object
  takes exactly that object out of use, an object freed twice stops the kernel, and what \<^verbatim>\<open>kmalloc\<close>
  returns \<^verbatim>\<open>kfree\<close> takes back.
\<close>

section \<open>The size of a slab\<close>

lemma slab_fits:
  assumes "slab_size n 1 \<le> PAGE_BYTES * 2 ^ order"
  shows "1 \<le> slab_nobjs n order" "slab_size n (slab_nobjs n order) \<le> PAGE_BYTES * 2 ^ order"
proof -
  have room: "n + BUFCTL_SIZE \<le> PAGE_BYTES * 2 ^ order - SLAB_STRUCT_SIZE"
    using assms by (simp add: slab_size_def)
  then show "1 \<le> slab_nobjs n order"
    by (simp add: slab_nobjs_def less_eq_div_iff_mult_less_eq BUFCTL_SIZE_def)
  have "slab_nobjs n order * (n + BUFCTL_SIZE) \<le> PAGE_BYTES * 2 ^ order - SLAB_STRUCT_SIZE"
    by (simp add: slab_nobjs_def div_times_less_eq_dividend)
  moreover have "SLAB_STRUCT_SIZE \<le> PAGE_BYTES * 2 ^ order" using assms by (simp add: slab_size_def)
  ultimately show "slab_size n (slab_nobjs n order) \<le> PAGE_BYTES * 2 ^ order" by (simp add: slab_size_def)
qed

lemma best_order_in: "best_order n os (best, waste) \<in> insert best (set os)"
  by (induction os arbitrary: best waste) (simp_all, blast)

lemma calc_layout:
  assumes "2 * PTR_SIZE \<le> sa_objsize c" "slab_size (sa_objsize c) 1 \<le> PAGE_BYTES * 2 ^ (PAGE_NSIZES - 1)"
  obtains c' where "calc_slab_size c = Some c'" "layout_ok c'" "sa_objsize c' = sa_objsize c" "sa_slabs c' = sa_slabs c"
proof -
  let ?n = "sa_objsize c"
  have "wrap32 (int (slab_size ?n 1)) = int (slab_size ?n 1)"
    using assms(2) by (intro wrap32_id) (simp_all add: page_consts)
  then have cond: "wrap32 (int (slab_size ?n 1)) \<le> int (PAGE_BYTES * 2 ^ order) \<longleftrightarrow> slab_size ?n 1 \<le> PAGE_BYTES * 2 ^ order" for order
    by (metis of_nat_le_iff)
  have "List.find (\<lambda>order. slab_size ?n 1 \<le> PAGE_BYTES * 2 ^ order) [0..<PAGE_NSIZES] \<noteq> None"
    using assms(2) unfolding find_None_iff by (auto intro!: exI [of _ "PAGE_NSIZES - 1"] simp: page_consts)
  then obtain m where m: "List.find (\<lambda>order. slab_size ?n 1 \<le> PAGE_BYTES * 2 ^ order) [0..<PAGE_NSIZES] = Some m" by blast
  then have min: "slab_size ?n 1 \<le> PAGE_BYTES * 2 ^ m" "m < PAGE_NSIZES" by (auto simp: find_Some_iff)
  define order where "order = best_order ?n [m + 1..<SLAB_MAX_ORDER] (m, slab_waste ?n m)"
  have "order \<in> insert m {m + 1..<SLAB_MAX_ORDER}"
    using best_order_in [of ?n "[m + 1..<SLAB_MAX_ORDER]" m "slab_waste ?n m"] by (simp add: order_def)
  then have order: "m \<le> order" "order < PAGE_NSIZES" using min(2) by (auto simp: slab_consts page_consts)
  have "PAGE_BYTES * 2 ^ m \<le> PAGE_BYTES * 2 ^ order" using order(1) by simp
  with min(1) have "slab_size ?n 1 \<le> PAGE_BYTES * 2 ^ order" by linarith
  from slab_fits [OF this] order(2) assms(1) have "layout_ok (c\<lparr>sa_order := order, sa_slab_nobjs := slab_nobjs ?n order\<rparr>)"
    by (simp add: layout_ok_def)
  moreover have "calc_slab_size c = Some (c\<lparr>sa_order := order, sa_slab_nobjs := slab_nobjs ?n order\<rparr>)"
    unfolding calc_slab_size_def cond m by (simp add: order_def Let_def)
  ultimately show thesis using that by simp
qed

section \<open>New caches\<close>

lemma init_ok:
  assumes ok: "slabs_ok s" and new: "a \<notin> set (slab_allocators s)"
    and small: "slab_size (n + 2 * PTR_SIZE) 1 \<le> PAGE_BYTES * 2 ^ (PAGE_NSIZES - 1)"
  obtains c s' where "allocator_init a name n s = Some s'" "s' = upd_allocator a (\<lambda>_. c) (s\<lparr>slab_allocators := a # slab_allocators s\<rparr>)"
    "slabs_ok s'" "live s' = live s" "sa_objsize c = n + 2 * PTR_SIZE" "layout_ok c" "sa_slabs c = []"
proof -
  have "n + 2 * PTR_SIZE < 2 ^ 32" using small by (simp add: slab_size_def page_consts)
  then obtain c where c: "calc_slab_size \<lparr>sa_name = (if name = [] then ''<unnamed>'' else name), sa_objsize = (n + 2 * PTR_SIZE) mod 2 ^ 32,
      sa_slabs = [], sa_order = 0, sa_slab_nobjs = 0\<rparr> = Some c" "layout_ok c" "sa_objsize c = n + 2 * PTR_SIZE" "sa_slabs c = []"
    using small calc_layout [of "\<lparr>sa_name = (if name = [] then ''<unnamed>'' else name), sa_objsize = (n + 2 * PTR_SIZE) mod 2 ^ 32,
      sa_slabs = [], sa_order = 0, sa_slab_nobjs = 0\<rparr>"] by force
  let ?s = "upd_allocator a (\<lambda>_. c) (s\<lparr>slab_allocators := a # slab_allocators s\<rparr>)"
  have ent: "entries ?s = entries s" using new c(4) by (auto simp: entries_def upd_allocator_def split: if_splits)
  have other: "allocator_at ?s (fst e) = allocator_at s (fst e)" if "e \<in> entries s" for e
    using that new by (auto simp: entries_def upd_allocator_def)
  have same: "slab_at ?s = slab_at s" "free_pages ?s = free_pages s" "page_ok ?s = page_ok s" "spans ?s = spans s"
    by (simp_all add: upd_allocator_def free_pages_def spans_def page_ok_def)
  have "slab_inv d sl ?s = slab_inv d sl s" for d sl by (simp add: slab_inv_def upd_allocator_def)
  then have "good (entries ?s) ?s"
    using ok unfolding slabs_ok_def good_def blk_of_def same block_in_spans [OF same(4)] ent by (simp add: other)
  then have "slabs_ok ?s" using ok new c(2,4) by (auto simp: slabs_ok_def upd_allocator_def)
  moreover have "live ?s = live s"
    unfolding live_used ent used_def same by (simp add: other)
  moreover have "allocator_init a name n s = Some ?s" unfolding allocator_init_def c(1) by simp
  ultimately show thesis using that c(2-4) by blast
qed

section \<open>Start\<close>

text \<open>The state while the caches of \<^verbatim>\<open>kmalloc\<close> are made, \<open>k\<close> of them so far.\<close>

definition boot :: "nat \<Rightarrow> 'a slabsys_scheme \<Rightarrow> bool" where
  "boot k s \<longleftrightarrow> slabs_ok s \<and> slab_allocator_allocator s \<in> set (slab_allocators s)
     \<and> sa_slab_nobjs (allocator_at s (slab_allocator_allocator s)) = 102
     \<and> (\<exists>sl. sa_slabs (allocator_at s (slab_allocator_allocator s)) = [sl] \<and> s_inuse (slab_at s sl) = int k)
     \<and> (\<forall>b\<in>set (slab_allocators s). b \<noteq> slab_allocator_allocator s \<longrightarrow> (\<exists>x. b = x + PTR_SIZE \<and> (slab_allocator_allocator s, x) \<in> live s))
     \<and> (\<forall>(b, e)\<in>set (spans s). \<not> (b \<le> slab_allocator_allocator s \<and> slab_allocator_allocator s < e))
     \<and> fst ` live s \<subseteq> {slab_allocator_allocator s}
     \<and> length (kmalloc_allocators s) = k \<and> set (kmalloc_allocators s) \<subseteq> set (slab_allocators s) - {slab_allocator_allocator s}
     \<and> (\<forall>i<k. sa_objsize (allocator_at s (kmalloc_allocators s ! i)) = 2 ^ (KMALLOC_SIZE_MIN_ORDER + i) + 2 * PTR_SIZE)"

lemma entry_in_span:
  assumes "good E s" "e \<in> E" "p \<in> entry_bytes s e"
  shows "\<exists>(b, e)\<in>set (spans s). b \<le> p \<and> p < e"
proof -
  from goodD(4) [OF assms(1,2)] obtain b e' where be: "(b, e') \<in> set (spans s)" "b \<le> fst (blk_of s e)"
    "fst (blk_of s e) + 2 ^ snd (blk_of s e) * PAGE_BYTES \<le> e'"
    by (auto simp: block_in_def blk_def)
  with assms(3) have "b \<le> p \<and> p < e'" unfolding entry_bytes_def blk_bytes_def atLeastLessThan_iff by linarith
  with be(1) show ?thesis by blast
qed

lemma head_slab_alloc:
  assumes "slabs_ok s" "a \<in> set (slab_allocators s)" "sa_slabs (allocator_at s a) = [sl]"
    and "s_inuse (slab_at s sl) < int (sa_slab_nobjs (allocator_at s a))"
  obtains obj os where "slab_obj_alloc a s = Some (obj + PTR_SIZE, obj_taken a sl obj s)" "(a, sl) \<in> entries s"
    "s_free (slab_at s sl) = obj # os"
proof -
  have use: "first_usable (allocator_at s a) s = Some sl" using assms(3,4) by (simp add: first_usable_def)
  then have find: "find_slab a s = Some (sl, s)" by (subst find_slab.simps) simp
  note u = first_usable_ok [OF assms(1,2) use]
  then obtain obj os where os: "s_free (slab_at s sl) = obj # os" by (cases "s_free (slab_at s sl)") auto
  have "slab_obj_alloc a s = Some (obj + PTR_SIZE, obj_taken a sl obj s)"
    using find u(3) os obj_taken_ok(4) [OF assms(1) u(1) os] by (simp add: slab_obj_alloc_def obj_taken_def upd_slab_def Let_def)
  with that u(1) os show thesis by blast
qed

lemma buckets_irrelevant:
  "page_ok (s\<lparr>kmalloc_allocators := v\<rparr>) = page_ok s" "free_pages (s\<lparr>kmalloc_allocators := v\<rparr>) = free_pages s"
  "spans (s\<lparr>kmalloc_allocators := v\<rparr>) = spans s" "slab_inv c sl (s\<lparr>kmalloc_allocators := v\<rparr>) = slab_inv c sl s"
  "blk_of (s\<lparr>kmalloc_allocators := v\<rparr>) e = blk_of s e" "entries (s\<lparr>kmalloc_allocators := v\<rparr>) = entries s"
  "live (s\<lparr>kmalloc_allocators := v\<rparr>) = live s"
  by (simp_all add: page_ok_def free_pages_def spans_def slab_inv_def blk_of_def entries_def live_def)

lemma slabs_ok_buckets: "slabs_ok (s\<lparr>kmalloc_allocators := v\<rparr>) = slabs_ok s"
  by (simp add: slabs_ok_def good_def buckets_irrelevant block_in_spans [OF buckets_irrelevant(3)])

lemma boot_fresh:
  assumes boot: "boot k s" and e: "(slab_allocator_allocator s, sl) \<in> entries s" "s_free (slab_at s sl) = obj # os"
  shows "obj + PTR_SIZE \<notin> set (slab_allocators s)"
proof
  let ?A = "slab_allocator_allocator s" and ?a = "obj + PTR_SIZE"
  assume mem: "?a \<in> set (slab_allocators s)"
  have ok: "slabs_ok s" using boot by (simp add: boot_def)
  note d = slabs_okD [OF ok e(1)]
  have obj: "obj \<in> set (objs_from (allocator_at s ?A) (sa_slab_nobjs (allocator_at s ?A)) (s_addr (slab_at s sl)))"
    using slab_invD(3) [OF d(2)] e(2) by auto
  from obj_inside [OF d(3) obj] d(3) have "?a \<in> entry_bytes s (?A, sl)"
    by (auto simp: entry_bytes_def blk_of_def blk_bytes_def layout_ok_def slab_consts)
  from entry_in_span [OF d(1) e(1) this] boot have "?a \<noteq> ?A" by (auto simp: boot_def)
  with boot mem have "(?A, obj) \<in> live s" by (auto simp: boot_def)
  with obj_taken_ok(3) [OF ok e] show False by simp
qed

lemma boot_step:
  assumes boot: "boot k s" and k: "k < 13"
  obtains a s' where "slab_allocator_create name (2 ^ (KMALLOC_SIZE_MIN_ORDER + k)) s = Some (a, s')" "a \<noteq> 0"
    "boot (Suc k) (s'\<lparr>kmalloc_allocators := kmalloc_allocators s' @ [a]\<rparr>)"
proof -
  let ?A = "slab_allocator_allocator s" and ?n = "2 ^ (KMALLOC_SIZE_MIN_ORDER + k) :: nat"
  have ok: "slabs_ok s" and A: "?A \<in> set (slab_allocators s)" using boot by (simp_all add: boot_def)
  obtain sl where sl: "sa_slabs (allocator_at s ?A) = [sl]" "s_inuse (slab_at s sl) = int k"
    and n: "sa_slab_nobjs (allocator_at s ?A) = 102" using boot by (auto simp: boot_def)
  have "s_inuse (slab_at s sl) < int (sa_slab_nobjs (allocator_at s ?A))" using sl(2) n k by simp
  then obtain obj os where o: "slab_obj_alloc ?A s = Some (obj + PTR_SIZE, obj_taken ?A sl obj s)" "(?A, sl) \<in> entries s"
    "s_free (slab_at s sl) = obj # os" by (rule head_slab_alloc [OF ok A sl(1)])
  note t = obj_taken_ok [OF ok o(2,3)]
  let ?s1 = "obj_taken ?A sl obj s" and ?a = "obj + PTR_SIZE"
  have fresh: "?a \<notin> set (slab_allocators ?s1)" using boot_fresh [OF boot o(2,3)] by simp
  have "?n \<le> 2 ^ 18" using k power_increasing [of "6 + k" 18 "2::nat"] by (simp add: KMALLOC_SIZE_MIN_ORDER_def)
  then have small: "slab_size (?n + 2 * PTR_SIZE) 1 \<le> PAGE_BYTES * 2 ^ (PAGE_NSIZES - 1)"
    by (simp add: slab_size_def slab_consts page_consts)
  obtain c s' where s': "allocator_init ?a name ?n ?s1 = Some s'" "s' = upd_allocator ?a (\<lambda>_. c) (?s1\<lparr>slab_allocators := ?a # slab_allocators ?s1\<rparr>)"
    "slabs_ok s'" "live s' = live ?s1" "sa_objsize c = ?n + 2 * PTR_SIZE" "layout_ok c" "sa_slabs c = []"
    by (rule init_ok [OF t(1) fresh small])
  have sel: "slab_allocators s' = ?a # slab_allocators s" "slab_allocator_allocator s' = ?A" "spans s' = spans s"
    "kmalloc_allocators s' = kmalloc_allocators s" "allocator_at s' = (allocator_at s)(?a := c)" "slab_at s' = slab_at ?s1"
    by (simp_all add: s'(2) upd_allocator_def spans_def)
  have neq: "?a \<noteq> ?A" "?a \<notin> set (kmalloc_allocators s)" using fresh A boot by (auto simp: boot_def)
  let ?t = "s'\<lparr>kmalloc_allocators := kmalloc_allocators s' @ [?a]\<rparr>"
  have inuse: "s_inuse (slab_at ?s1 sl) = int (Suc k)" using sl(2) by (simp add: obj_taken_def upd_slab_def)
  have "slabs_ok ?t" using s'(3) by (simp add: slabs_ok_buckets)
  moreover have "live ?t = insert (?A, obj) (live s)" using s'(4) t(2) by (simp add: buckets_irrelevant)
  moreover have "sa_objsize (allocator_at ?t (kmalloc_allocators ?t ! i)) = 2 ^ (KMALLOC_SIZE_MIN_ORDER + i) + 2 * PTR_SIZE" if "i < Suc k" for i
  proof (cases "i = k")
    case True
    then show ?thesis using boot s'(5) by (simp add: boot_def sel(4,5) nth_append)
  next
    case False
    then have i: "i < length (kmalloc_allocators s)" using that boot by (simp add: boot_def)
    then have "kmalloc_allocators s ! i \<noteq> ?a" using neq(2) nth_mem [OF i] by metis
    then show ?thesis using boot i by (simp add: boot_def sel(4,5) nth_append)
  qed
  moreover have "\<exists>x. b = x + PTR_SIZE \<and> (?A, x) \<in> insert (?A, obj) (live s)" if "b \<in> set (slab_allocators ?t)" "b \<noteq> ?A" for b
    using that boot by (auto simp: boot_def sel(1))
  ultimately have "boot (Suc k) ?t"
    using boot neq(1) sl(1) inuse n A unfolding boot_def by (simp add: sel buckets_irrelevant) blast
  moreover have "slab_allocator_create name ?n s = Some (?a, s')" using o(1) s'(1) by (simp add: slab_allocator_create_def PTR_SIZE_def)
  ultimately show thesis using that by (simp add: PTR_SIZE_def)
qed

lemma boot_steps:
  assumes "boot k s" "k + m \<le> 13"
  shows "\<exists>s'. create_buckets [KMALLOC_SIZE_MIN_ORDER + k..<KMALLOC_SIZE_MIN_ORDER + k + m] s = Some s' \<and> boot (k + m) s'"
  using assms
proof (induction m arbitrary: k s)
  case 0
  then show ?case by auto
next
  case (Suc m)
  then have "k < 13" by simp
  obtain a s' where s': "slab_allocator_create (kmalloc_allocator_names ! k) (2 ^ (KMALLOC_SIZE_MIN_ORDER + k)) s = Some (a, s')"
    "a \<noteq> 0" "boot (Suc k) (s'\<lparr>kmalloc_allocators := kmalloc_allocators s' @ [a]\<rparr>)"
    by (rule boot_step [OF Suc.prems(1) \<open>k < 13\<close>])
  have upt: "[KMALLOC_SIZE_MIN_ORDER + k..<KMALLOC_SIZE_MIN_ORDER + k + Suc m]
      = (KMALLOC_SIZE_MIN_ORDER + k) # [KMALLOC_SIZE_MIN_ORDER + Suc k..<KMALLOC_SIZE_MIN_ORDER + Suc k + m]"
    by (subst upt_conv_Cons) simp_all
  from Suc.IH [OF s'(3)] Suc.prems(2) show ?case
    unfolding upt using s'(1,2) by simp
qed

lemma boot_done:
  assumes "boot 13 s"
  shows "kmalloc_ok s"
proof -
  have "a \<notin> set (kmalloc_allocators s)" if "(a, x) \<in> live s" for a x
  proof -
    have "a = slab_allocator_allocator s" using that assms by (force simp: boot_def)
    then show ?thesis using assms by (auto simp: boot_def)
  qed
  then show ?thesis
    using assms by (auto simp: boot_def kmalloc_ok_def KMALLOC_SIZE_MIN_ORDER_def KMALLOC_SIZE_MAX_ORDER_def)
qed

text \<open>The cache of caches: 102 objects of 24 bytes and their red zones fit on one page exactly.\<close>

lemma cache_of_caches:
  "calc_slab_size \<lparr>sa_name = name, sa_objsize = 32, sa_slabs = [], sa_order = 0, sa_slab_nobjs = 0\<rparr>
    = Some \<lparr>sa_name = name, sa_objsize = 32, sa_slabs = [], sa_order = 0, sa_slab_nobjs = 102\<rparr>"
proof -
  have upt: "[0..<PAGE_NSIZES] = 0 # [1..<PAGE_NSIZES]" by (simp add: page_consts upt_conv_Cons)
  have "slab_waste 32 0 = 0" by (simp add: slab_waste_def slab_size_def slab_nobjs_def page_consts slab_consts)
  moreover have "best_order n os (best, 0) = best" for n os best by (induction os) simp_all
  moreover have "List.find (\<lambda>order. wrap32 (int (slab_size 32 1)) \<le> int (PAGE_BYTES * 2 ^ order)) [0..<PAGE_NSIZES] = Some 0"
    unfolding upt by (simp add: slab_size_def slab_consts page_consts wrap32_def)
  ultimately show ?thesis
    by (simp add: calc_slab_size_def slab_nobjs_def page_consts slab_consts)
qed

lemma boot_start:
  assumes pages: "page_ok s" "can_alloc 0 s" and none: "slab_allocators s = []" "kmalloc_allocators s = []"
    and outside: "\<forall>(b, e)\<in>set (spans s). \<not> (b \<le> slab_allocator_allocator s \<and> slab_allocator_allocator s < e)"
  obtains s1 t where "allocator_init (slab_allocator_allocator s) ''slab_allocators'' ALLOCATOR_STRUCT_SIZE s = Some s1"
    "find_slab (slab_allocator_allocator s) s1 = find_slab (slab_allocator_allocator s) t"
    "slab_allocator_allocator s1 = slab_allocator_allocator s" "slab_allocator_allocator t = slab_allocator_allocator s" "boot 0 t"
proof -
  let ?A = "slab_allocator_allocator s"
  let ?c = "\<lparr>sa_name = ''slab_allocators'', sa_objsize = 32, sa_slabs = [], sa_order = 0, sa_slab_nobjs = 102\<rparr>"
  have ok: "slabs_ok s" and dead: "live s = {}" using pages(1) none(1) by (simp_all add: slabs_ok_def good_def entries_def live_def)
  define s1 where "s1 = upd_allocator ?A (\<lambda>_. ?c) (s\<lparr>slab_allocators := ?A # slab_allocators s\<rparr>)"
  have init: "allocator_init ?A ''slab_allocators'' ALLOCATOR_STRUCT_SIZE s = Some s1"
    using cache_of_caches [of "''slab_allocators''"] by (simp add: allocator_init_def slab_consts s1_def)
  have sel: "slab_allocators s1 = [?A]" "slab_allocator_allocator s1 = ?A" "kmalloc_allocators s1 = []" "allocator_at s1 ?A = ?c"
    "spans s1 = spans s" "can_alloc 0 s1"
    using none pages(2) by (simp_all add: s1_def upd_allocator_def spans_def can_alloc_def)
  obtain c s1' where "allocator_init ?A ''slab_allocators'' ALLOCATOR_STRUCT_SIZE s = Some s1'" "slabs_ok s1'" "live s1' = live s"
    by (rule init_ok [OF ok, of ?A ALLOCATOR_STRUCT_SIZE "''slab_allocators''"])
      (use none in \<open>simp_all add: slab_size_def slab_consts page_consts\<close>)
  then have ok1: "slabs_ok s1" "live s1 = {}" using init dead by simp_all
  have lay: "layout_ok (allocator_at s1 ?A)" using ok1(1) sel(1) by (simp add: slabs_ok_def)
  have page: "page_ok s1" using ok1(1) by (simp add: slabs_ok_def good_def)
  obtain addr s2 where s2: "page_alloc_order reclaim_all 0 s1 = Some (addr, s2)" "page_ok s2" "spans s2 = spans s1" "addr \<noteq> 0"
    "block_in s1 addr 0" "blk_pages addr 0 \<subseteq> free_pages s1" "free_pages s2 = free_pages s1 - blk_pages addr 0"
    using page_alloc_step [OF page _ sel(6), of reclaim_all] by (auto simp: PAGE_NSIZES_def)
  note more = page_alloc_more [OF s2(1) sel(6)]
  have f: "fresh_block (sa_order (allocator_at s1 ?A)) addr s1 s2" using s2 more by (simp add: fresh_block_def sel(4))
  have grow: "slab_allocator_grow ?A s1 = Some (1, grown ?A addr s2)"
    by (rule grow_is_grown [OF lay _ s2(4) more]) (simp add: sel(4) s2(1))
  have "first_usable (allocator_at s1 ?A) s1 = None" by (simp add: first_usable_def sel(4))
  then have "find_slab ?A s1 = find_slab ?A (grown ?A addr s2)" by (subst find_slab.simps) (simp add: grow)
  moreover note g = grown_sel [OF refl, of ?A addr s2] and sel2 = more_same [OF more]
  moreover have "boot 0 (grown ?A addr s2)"
    using grown_ok [OF ok1(1) _ f] outside ok1(2) by (simp add: boot_def g sel2 sel s2(3))
  moreover have "slab_allocator_allocator (grown ?A addr s2) = ?A" by (simp add: g sel2 sel)
  ultimately show thesis using that [OF init] sel(2) by blast
qed

text \<open>
  The allocator starts.  From a page allocator in order with a free page, and with the structure
  of the cache of caches outside the memory that it manages, \<^verbatim>\<open>slab_init\<close> makes the thirteen caches of
  \<^verbatim>\<open>kmalloc\<close>, of 64 bytes to 256 kilobytes, and leaves all caches in order.
\<close>

lemma slab_init_ready:
  assumes "page_ok s" "can_alloc 0 s" "slab_allocators s = []" "kmalloc_allocators s = []"
    and "\<forall>(b, e)\<in>set (spans s). \<not> (b \<le> slab_allocator_allocator s \<and> slab_allocator_allocator s < e)"
  shows "\<exists>s'. slab_init s = Some s' \<and> boot 13 s' \<and> kmalloc_ok s'"
proof -
  obtain s1 t where s1: "allocator_init (slab_allocator_allocator s) ''slab_allocators'' ALLOCATOR_STRUCT_SIZE s = Some s1"
    "find_slab (slab_allocator_allocator s) s1 = find_slab (slab_allocator_allocator s) t"
    "slab_allocator_allocator s1 = slab_allocator_allocator s" "slab_allocator_allocator t = slab_allocator_allocator s" "boot 0 t"
    by (rule boot_start [OF assms])
  have "create_buckets (order # os) s1 = create_buckets (order # os) t" for order os
    by (simp add: slab_allocator_create_def slab_obj_alloc_def s1(2-4))
  moreover have "[KMALLOC_SIZE_MIN_ORDER..<KMALLOC_SIZE_MAX_ORDER + 1] = KMALLOC_SIZE_MIN_ORDER # [KMALLOC_SIZE_MIN_ORDER + 1..<KMALLOC_SIZE_MAX_ORDER + 1]"
    by (subst upt_conv_Cons) (simp_all add: KMALLOC_SIZE_MIN_ORDER_def KMALLOC_SIZE_MAX_ORDER_def)
  ultimately have "slab_init s = create_buckets [KMALLOC_SIZE_MIN_ORDER..<KMALLOC_SIZE_MAX_ORDER + 1] t"
    unfolding slab_init_def s1(1) bind.bind_lunit by metis
  moreover have "[KMALLOC_SIZE_MIN_ORDER..<KMALLOC_SIZE_MAX_ORDER + 1] = [KMALLOC_SIZE_MIN_ORDER + 0..<KMALLOC_SIZE_MIN_ORDER + 0 + 13]"
    by (simp add: KMALLOC_SIZE_MIN_ORDER_def KMALLOC_SIZE_MAX_ORDER_def)
  moreover from boot_steps [OF s1(5), of 13] obtain s'
    where "create_buckets [KMALLOC_SIZE_MIN_ORDER + 0..<KMALLOC_SIZE_MIN_ORDER + 0 + 13] t = Some s'" "boot 13 s'" by auto
  ultimately show ?thesis using boot_done by metis
qed

section \<open>Objects\<close>

text \<open>
  C7: Freeing an object in use takes exactly this object out of use.  Freeing an object of a slab
  that is not in use, as when it is freed twice, stops the kernel.
\<close>

theorem slab_obj_free_exact:
  assumes "slabs_ok s" "(a, sl) \<in> entries s"
    and "obj \<in> set (objs_from (allocator_at s a) (sa_slab_nobjs (allocator_at s a)) (s_addr (slab_at s sl)))"
  shows "if (a, obj) \<in> live s
    then \<exists>s'. slab_obj_free a (obj + PTR_SIZE) s = Some s' \<and> slabs_ok s' \<and> live s' = live s - {(a, obj)}
      \<and> slab_obj_free a (obj + PTR_SIZE) s' = None
    else slab_obj_free a (obj + PTR_SIZE) s = None"
proof (cases "obj \<in> used s (a, sl)")
  case True
  note g = obj_given_ok [OF assms(1,2) True]
  have "(a, obj) \<in> live s" using True assms(2) by (force simp: live_used)
  moreover have "slab_obj_free a (obj + PTR_SIZE) (obj_given a sl obj s) = None"
  proof (rule free_twice [OF g(2)])
    show "(a, sl) \<in> entries (obj_given a sl obj s)" using assms(2) entries_cong [of "obj_given a sl obj s" s] by simp
    show "obj \<in> set (s_free (slab_at (obj_given a sl obj s) sl))" by (simp add: obj_given_def upd_slab_def)
  qed
  ultimately show ?thesis using g by simp
next
  case False
  with assms(3) have free: "obj \<in> set (s_free (slab_at s sl))" by (simp add: used_def)
  have "(a, obj) \<notin> live s"
  proof
    assume "(a, obj) \<in> live s"
    then obtain sl' where sl': "(a, sl') \<in> entries s" "obj \<in> used s (a, sl')" by (auto simp: live_used)
    then have "obj \<in> set (objs_from (allocator_at s a) (sa_slab_nobjs (allocator_at s a)) (s_addr (slab_at s sl')))"
      by (simp add: used_def)
    with objs_unique [OF slabs_okD(1) [OF assms(1,2)] assms(2) sl'(1) assms(3)] sl'(2) False show False by simp
  qed
  with free_twice [OF assms(1,2) free] show ?thesis by simp
qed

section \<open>Memory of any size\<close>


section \<open>A started allocator\<close>

definition demo_slabs :: slabsys where
  "demo_slabs = pagesys.extend demo_pages \<lparr>slab_at = (\<lambda>_. \<lparr>s_inuse = 0, s_free = [], s_addr = 0\<rparr>),
     allocator_at = (\<lambda>_. \<lparr>sa_name = [], sa_objsize = 0, sa_slabs = [], sa_order = 0, sa_slab_nobjs = 0\<rparr>),
     sb_slab = (\<lambda>_. 0), sb_free = (\<lambda>_. False), word_at = (\<lambda>_. 0), slab_allocators = [], slab_allocator_allocator = 64,
     kmalloc_allocators = []\<rparr>"

lemma demo_slabs_sel:
  "page_ok demo_slabs" "can_alloc 0 demo_slabs" "slab_allocators demo_slabs = []" "kmalloc_allocators demo_slabs = []"
  "slab_allocator_allocator demo_slabs = 64" "spans demo_slabs = [(4096, 4096 + 128 * PAGE_BYTES)]"
proof -
  have g: "pagegroup_list demo_slabs = pagegroup_list demo_pages" "page_freecount demo_slabs = page_freecount demo_pages"
    by (simp_all add: demo_slabs_def pagesys.defs)
  show "page_ok demo_slabs" "can_alloc 0 demo_slabs" "spans demo_slabs = [(4096, 4096 + 128 * PAGE_BYTES)]"
    using demo_pages_added(1,2) demo_pages_can by (simp_all add: page_ok_def free_pages_def can_alloc_def spans_def g)
  show "slab_allocators demo_slabs = []" "kmalloc_allocators demo_slabs = []" "slab_allocator_allocator demo_slabs = 64"
    by (simp_all add: demo_slabs_def pagesys.defs)
qed

lemma demo_started: "\<exists>s. slab_init demo_slabs = Some s \<and> boot 13 s \<and> kmalloc_ok s"
  by (rule slab_init_ready) (simp_all add: demo_slabs_sel)


text \<open>The first object of the cache of caches, freed twice.\<close>

theorem slab_obj_free_exact_witness:
  "\<exists>s sl. slab_init demo_slabs = Some s \<and> (slab_allocator_allocator s, sl) \<in> entries s \<and>
     (slab_obj_free (slab_allocator_allocator s) (s_addr (slab_at s sl) + PTR_SIZE) s
       \<bind> slab_obj_free (slab_allocator_allocator s) (s_addr (slab_at s sl) + PTR_SIZE)) = None"
proof -
  obtain s where s: "slab_init demo_slabs = Some s" "boot 13 s" using demo_started by blast
  let ?A = "slab_allocator_allocator s"
  obtain sl where "sa_slabs (allocator_at s ?A) = [sl]" using s(2) by (auto simp: boot_def)
  then have e: "(?A, sl) \<in> entries s" using s(2) by (simp add: boot_def entries_def)
  have ok: "slabs_ok s" and "sa_slab_nobjs (allocator_at s ?A) = 102" using s(2) by (simp_all add: boot_def)
  then have "s_addr (slab_at s sl) \<in> set (objs_from (allocator_at s ?A) (sa_slab_nobjs (allocator_at s ?A)) (s_addr (slab_at s sl)))"
    unfolding in_objs by (intro exI [of _ 0]) simp
  from slab_obj_free_exact [OF ok e this] s(1) e show ?thesis by (auto split: if_splits)
qed

end
