(* ===== verification/Ctype.thy ===== *)
theory Ctype
  imports Weenix_Prelude
begin

text \<open>
  Character classes (\<^verbatim>\<open>kernel/include/ctype.h\<close>): the table of 256 masks, given by the runs of
  equal entries, and the tests and case conversions on it.
\<close>

datatype cclass = U_class | L_class | D_class | C_class | P_class | S_class | X_class | SP_class

definition ctype_tab :: "nat \<Rightarrow> cclass list" where
  "ctype_tab n =
     (if n < 9 then [C_class] else if n < 14 then [C_class, S_class] else if n < 32 then [C_class]
      else if n < 33 then [S_class, SP_class] else if n < 48 then [P_class] else if n < 58 then [D_class]
      else if n < 65 then [P_class] else if n < 71 then [U_class, X_class] else if n < 91 then [U_class]
      else if n < 97 then [P_class] else if n < 103 then [L_class, X_class] else if n < 123 then [L_class]
      else if n < 127 then [P_class] else if n < 128 then [C_class] else if n < 160 then []
      else if n < 161 then [S_class, SP_class] else if n < 192 then [P_class] else if n < 215 then [U_class]
      else if n < 216 then [P_class] else if n < 223 then [U_class] else if n < 247 then [L_class]
      else if n < 248 then [P_class] else [L_class])"

abbreviation code :: "char \<Rightarrow> nat" where
  "code c \<equiv> of_char c"

definition ismask :: "cclass list \<Rightarrow> char \<Rightarrow> bool" where
  "ismask ms c \<longleftrightarrow> list_ex (\<lambda>m. m \<in> set ms) (ctype_tab (code c))"

definition isdigit :: "char \<Rightarrow> bool" where "isdigit = ismask [D_class]"
definition islower :: "char \<Rightarrow> bool" where "islower = ismask [L_class]"
definition isupper :: "char \<Rightarrow> bool" where "isupper = ismask [U_class]"
definition isspace :: "char \<Rightarrow> bool" where "isspace = ismask [S_class]"
definition isxdigit :: "char \<Rightarrow> bool" where "isxdigit = ismask [D_class, X_class]"
definition isprint :: "char \<Rightarrow> bool" where "isprint = ismask [P_class, U_class, L_class, D_class, SP_class]"

text \<open>Case conversion on the codes; the sum is taken in an unsigned char.\<close>

definition toupper :: "char \<Rightarrow> char" where
  "toupper c = (if islower c then char_of (code c + 256 - 32) else c)"

definition tolower :: "char \<Rightarrow> char" where
  "tolower c = (if isupper c then char_of (code c + 32) else c)"

lemmas ctype_defs = isdigit_def islower_def isupper_def isspace_def isxdigit_def isprint_def ismask_def

lemma isdigit_iff: "isdigit c \<longleftrightarrow> 48 \<le> code c \<and> code c < 58"
  by (auto simp: ctype_defs ctype_tab_def)

lemma isxdigit_iff:
  "isxdigit c \<longleftrightarrow> 48 \<le> code c \<and> code c < 58 \<or> 65 \<le> code c \<and> code c < 71 \<or> 97 \<le> code c \<and> code c < 103"
  by (auto simp: ctype_defs ctype_tab_def)

lemma isspace_iff: "isspace c \<longleftrightarrow> 9 \<le> code c \<and> code c < 14 \<or> code c = 32 \<or> code c = 160"
  by (auto simp: ctype_defs ctype_tab_def)

lemma islower_iff: "islower c \<longleftrightarrow> 97 \<le> code c \<and> code c < 123 \<or> 223 \<le> code c \<and> code c \<noteq> 247"
  by (auto simp: ctype_defs ctype_tab_def)

end
