(* ===== verification/Printf.thy ===== *)
theory Printf
  imports Kstring Ctype
begin

text \<open>
  Printing and scanning (\<^verbatim>\<open>kernel/util/printf.c\<close>).  A pointer into a string that is read is the list
  of its characters up to the terminating zero, which is the empty list.  The buffer that is written
  is a memory of characters at addresses, and every write is guarded by the end of the buffer as in
  the code.  The arguments of a call are a list of typed values, and fetching a value of another type
  than the one passed, or more values than there are, is a fault.
\<close>

section \<open>Reading numbers\<close>

definition peek :: "string \<Rightarrow> char" where
  "peek s = (case s of [] \<Rightarrow> NUL | c # _ \<Rightarrow> c)"

definition digit_value :: "char \<Rightarrow> int" where
  "digit_value c = (if isdigit c then int (code c) - 48 else int (code (toupper c)) - 65 + 10)"

text \<open>The digits from here on, in a word of \<open>bits\<close> bits; an unsigned comparison with the base.\<close>

fun strtoul_loop :: "nat \<Rightarrow> int \<Rightarrow> string \<Rightarrow> int \<Rightarrow> int \<times> string" where
  "strtoul_loop bits base [] r = (r, [])"
| "strtoul_loop bits base (c # cs) r =
     (if isxdigit c \<and> digit_value c < base
      then strtoul_loop bits base cs ((r * base + digit_value c) mod 2 ^ bits) else (r, c # cs))"

definition strtoul_base :: "string \<Rightarrow> int \<Rightarrow> int \<times> string" where
  "strtoul_base cp base =
     (if base \<noteq> 0 then (base, cp)
      else if peek cp \<noteq> CHR ''0'' then (10, cp)
      else let cp1 = tl cp in if peek cp1 = CHR ''x'' \<and> isxdigit (peek (tl cp1)) then (16, tl cp1) else (8, cp1))"

definition simple_strtoul :: "string \<Rightarrow> int \<Rightarrow> int \<times> string" where
  "simple_strtoul cp base = (let (b, cp1) = strtoul_base cp base in strtoul_loop 32 b cp1 0)"

definition simple_strtol :: "string \<Rightarrow> int \<Rightarrow> int \<times> string" where
  "simple_strtol cp base =
     (if peek cp = CHR ''-'' then let (r, rest) = simple_strtoul (tl cp) base in (wrap32 (- r), rest)
      else let (r, rest) = simple_strtoul cp base in (wrap32 r, rest))"

definition wrap64 :: "int \<Rightarrow> int" where
  "wrap64 x = (x + 2 ^ 63) mod 2 ^ 64 - 2 ^ 63"

definition simple_strtoull :: "string \<Rightarrow> int \<Rightarrow> int \<times> string" where
  "simple_strtoull cp base = (let (b, cp1) = strtoul_base cp base in strtoul_loop 64 b cp1 0)"

definition simple_strtoll :: "string \<Rightarrow> int \<Rightarrow> int \<times> string" where
  "simple_strtoll cp base =
     (if peek cp = CHR ''-'' then let (r, rest) = simple_strtoull (tl cp) base in (wrap64 (- r), rest)
      else let (r, rest) = simple_strtoull cp base in (wrap64 r, rest))"

fun skip_atoi :: "string \<Rightarrow> int \<Rightarrow> int \<times> string" where
  "skip_atoi [] i = (i, [])"
| "skip_atoi (c # cs) i = (if isdigit c then skip_atoi cs (wrap32 (i * 10 + int (code c) - 48)) else (i, c # cs))"

section \<open>Writing characters\<close>

record pflags =
  ZEROPAD :: bool
  SIGN :: bool
  PLUS :: bool
  SPACE :: bool
  LEFT :: bool
  SPECIAL :: bool
  LARGE :: bool

text \<open>The memory, the place of the next character, and what has been stored through \<^verbatim>\<open>%n\<close>.\<close>

record pout =
  p_mem :: "nat \<Rightarrow> char"
  p_str :: nat
  p_counts :: "(nat \<times> int) list"

definition emit :: "nat \<Rightarrow> char \<Rightarrow> pout \<Rightarrow> pout" where
  "emit lim c s = s\<lparr>p_mem := (if p_str s \<le> lim then (p_mem s)(p_str s := c) else p_mem s), p_str := (p_str s + 1) mod 2 ^ 32\<rparr>"

text \<open>A loop \<^verbatim>\<open>while (size-- > 0)\<close> that writes one character.\<close>

function pad :: "nat \<Rightarrow> char \<Rightarrow> int \<Rightarrow> pout \<Rightarrow> int \<times> pout" where
  "pad lim c n s = (if n > 0 then pad lim c (n - 1) (emit lim c s) else (n - 1, s))"
  by pat_completeness auto
termination by (relation "measure (\<lambda>(lim, c, n, s). nat n)") auto

declare pad.simps [simp del]

definition small_digits :: string where
  "small_digits = ''0123456789abcdefghijklmnopqrstuvwxyz''"

definition large_digits :: string where
  "large_digits = ''0123456789ABCDEFGHIJKLMNOPQRSTUVWXYZ''"

text \<open>The digits of a number in the order in which the array \<^verbatim>\<open>tmp\<close> is filled, the last digit first.\<close>

function num_digits :: "string \<Rightarrow> nat \<Rightarrow> nat \<Rightarrow> string" where
  "num_digits digits base n = (if n = 0 \<or> base < 2 then [] else digits ! (n mod base) # num_digits digits base (n div base))"
  by pat_completeness auto
termination by (relation "measure (\<lambda>(digits, base, n). n)") auto

declare num_digits.simps [simp del]

fun put_all :: "nat \<Rightarrow> string \<Rightarrow> pout \<Rightarrow> pout" where
  "put_all lim [] s = s"
| "put_all lim (c # cs) s = put_all lim cs (emit lim c s)"

definition number :: "nat \<Rightarrow> int \<Rightarrow> nat \<Rightarrow> int \<Rightarrow> int \<Rightarrow> pflags \<Rightarrow> pout \<Rightarrow> pout" where
  "number lim num base size0 precision ty s =
     (if base < 2 \<or> base > 36 then s
      else let
        digits = (if LARGE ty then large_digits else small_digits);
        zero = (ZEROPAD ty \<and> \<not> LEFT ty);
        c = (if zero then CHR ''0'' else CHR '' '');
        sign = (if SIGN ty then if num < 0 then ''-'' else if PLUS ty then ''+'' else if SPACE ty then '' '' else [] else []);
        num1 = (if SIGN ty \<and> num < 0 then - num else num);
        size1 = size0 - int (length sign);
        size2 = (if SPECIAL ty then if base = 16 then size1 - 2 else if base = 8 then size1 - 1 else size1 else size1);
        tmp = (if num1 = 0 then ''0'' else num_digits digits base (nat (num1 mod 2 ^ 64)));
        i = int (length tmp);
        precision1 = max i precision;
        size3 = size2 - precision1;
        (size4, s1) = (if \<not> (zero \<or> LEFT ty) then pad lim (CHR '' '') size3 s else (size3, s));
        s2 = put_all lim sign s1;
        s3 = (if SPECIAL ty then if base = 8 then emit lim (CHR ''0'') s2
              else if base = 16 then emit lim (digits ! 33) (emit lim (CHR ''0'') s2) else s2 else s2);
        (size5, s4) = (if \<not> LEFT ty then pad lim c size4 s3 else (size4, s3));
        s5 = snd (pad lim (CHR ''0'') (precision1 - i) s4);
        s6 = put_all lim (rev tmp) s5
      in snd (pad lim (CHR '' '') size5 s6))"

section \<open>Formatting\<close>

datatype va = VInt int | VLL int | VStr "string option"

definition va_int :: "va list \<Rightarrow> (int \<times> va list) option" where
  "va_int args = (case args of VInt i # as \<Rightarrow> Some (i mod 2 ^ 32, as) | _ \<Rightarrow> None)"

definition va_ll :: "va list \<Rightarrow> (int \<times> va list) option" where
  "va_ll args = (case args of VLL i # as \<Rightarrow> Some (wrap64 i, as) | _ \<Rightarrow> None)"

definition va_str :: "va list \<Rightarrow> (string option \<times> va list) option" where
  "va_str args = (case args of VStr s # as \<Rightarrow> Some (s, as) | _ \<Rightarrow> None)"

abbreviation no_flags :: pflags where
  "no_flags \<equiv> \<lparr>ZEROPAD = False, SIGN = False, PLUS = False, SPACE = False, LEFT = False, SPECIAL = False, LARGE = False\<rparr>"

fun get_flags :: "string \<Rightarrow> pflags \<Rightarrow> pflags \<times> string" where
  "get_flags [] f = (f, [])"
| "get_flags (c # cs) f =
     (if c = CHR ''-'' then get_flags cs (f\<lparr>LEFT := True\<rparr>)
      else if c = CHR ''+'' then get_flags cs (f\<lparr>PLUS := True\<rparr>)
      else if c = CHR '' '' then get_flags cs (f\<lparr>SPACE := True\<rparr>)
      else if c = CHR ''#'' then get_flags cs (f\<lparr>SPECIAL := True\<rparr>)
      else if c = CHR ''0'' then get_flags cs (f\<lparr>ZEROPAD := True\<rparr>)
      else (f, c # cs))"

definition get_width :: "string \<Rightarrow> pflags \<Rightarrow> va list \<Rightarrow> (int \<times> pflags \<times> string \<times> va list) option" where
  "get_width fmt f args =
     (if isdigit (peek fmt) then let (w, fmt1) = skip_atoi fmt 0 in Some (w, f, fmt1, args)
      else if peek fmt = CHR ''*'' then do {
        (w, args1) \<leftarrow> va_int args;
        if wrap32 w < 0 then Some (wrap32 (- wrap32 w), f\<lparr>LEFT := True\<rparr>, tl fmt, args1) else Some (wrap32 w, f, tl fmt, args1)
      } else Some (-1, f, fmt, args))"

definition get_precision :: "string \<Rightarrow> va list \<Rightarrow> (int \<times> string \<times> va list) option" where
  "get_precision fmt args =
     (if peek fmt \<noteq> CHR ''.'' then Some (-1, fmt, args)
      else let fmt1 = tl fmt in
        if isdigit (peek fmt1) then let (p, fmt2) = skip_atoi fmt1 0 in Some (max p 0, fmt2, args)
        else if peek fmt1 = CHR ''*'' then do { (p, args1) \<leftarrow> va_int args; Some (max (wrap32 p) 0, tl fmt1, args1) }
        else Some (0, fmt1, args))"

text \<open>The qualifier, with \<^verbatim>\<open>ll\<close> and \<^verbatim>\<open>q\<close> read as \<^verbatim>\<open>L\<close>; no qualifier is the zero character.\<close>

definition get_qualifier :: "string \<Rightarrow> char \<times> string" where
  "get_qualifier fmt = (let
     (q, fmt1) = (if peek fmt \<in> set ''hlLZ''
                  then if peek fmt = CHR ''l'' \<and> peek (tl fmt) = CHR ''l'' then (CHR ''L'', tl (tl fmt)) else (peek fmt, tl fmt)
                  else (NUL, fmt))
   in if peek fmt1 = CHR ''q'' then (CHR ''L'', tl fmt1) else (q, fmt1))"

text \<open>The number of an integer conversion, converted as the qualifier and the sign flag say.\<close>

definition wrap16 :: "int \<Rightarrow> int" where
  "wrap16 x = (x + 2 ^ 15) mod 2 ^ 16 - 2 ^ 15"

definition get_num :: "char \<Rightarrow> bool \<Rightarrow> va list \<Rightarrow> (int \<times> va list) option" where
  "get_num q signed args =
     (if q = CHR ''L'' then va_ll args
      else do {
        (n, args1) \<leftarrow> va_int args;
        Some (if q = CHR ''h'' then if signed then wrap16 n else n mod 2 ^ 16
              else if q = CHR ''Z'' then n
              else if signed then wrap32 n else n, args1)
      })"

definition print_char :: "nat \<Rightarrow> int \<Rightarrow> pflags \<Rightarrow> char \<Rightarrow> pout \<Rightarrow> pout" where
  "print_char lim width f c s = (let
     (w1, s1) = (if \<not> LEFT f then pad lim (CHR '' '') (width - 1) s else (width - 1, s))
   in snd (pad lim (CHR '' '') w1 (emit lim c s1)))"

definition print_string :: "nat \<Rightarrow> int \<Rightarrow> int \<Rightarrow> pflags \<Rightarrow> string option \<Rightarrow> pout \<Rightarrow> pout" where
  "print_string lim width precision f arg s = (let
     txt = (case arg of None \<Rightarrow> ''<NULL>'' | Some t \<Rightarrow> t);
     len = (if precision < 0 then length txt else min (length txt) (nat precision));
     (w1, s1) = (if \<not> LEFT f then pad lim (CHR '' '') (width - int len) s else (width - int len, s))
   in snd (pad lim (CHR '' '') w1 (put_all lim (take len txt) s1)))"

text \<open>One conversion: the text after the percent sign, to the text after the conversion.\<close>

definition convert :: "nat \<Rightarrow> nat \<Rightarrow> string \<Rightarrow> va list \<Rightarrow> pout \<Rightarrow> (string \<times> va list \<times> pout) option" where
  "convert lim buf fmt args s = do {
     let (f0, fmt1) = get_flags fmt no_flags;
     (width, f, fmt2, args2) \<leftarrow> get_width fmt1 f0 args;
     (precision, fmt3, args3) \<leftarrow> get_precision fmt2 args2;
     let (q, fmt4) = get_qualifier fmt3;
     let c = peek fmt4;
     let rest = tl fmt4;
     if c = CHR ''c'' then do { (n, as) \<leftarrow> va_int args3; Some (rest, as, print_char lim width f (char_of n) s) }
     else if c = CHR ''s'' then do { (t, as) \<leftarrow> va_str args3; Some (rest, as, print_string lim width precision f t s) }
     else if c = CHR ''p'' then do {
       (n, as) \<leftarrow> va_int args3;
       Some (rest, as, number lim n 16 (if width = -1 then 8 else width) precision (if width = -1 then f\<lparr>ZEROPAD := True\<rparr> else f) s)
     }
     else if c = CHR ''n'' then do {
       (ip, as) \<leftarrow> va_int args3;
       Some (rest, as, s\<lparr>p_counts := p_counts s @ [(nat ip, wrap32 (int (p_str s) - int buf))]\<rparr>)
     }
     else if c = CHR ''%'' then Some (rest, args3, emit lim (CHR ''%'') s)
     else if c = CHR ''o'' then do { (n, as) \<leftarrow> get_num q False args3; Some (rest, as, number lim n 8 width precision f s) }
     else if c = CHR ''X'' then do { (n, as) \<leftarrow> get_num q False args3; Some (rest, as, number lim n 16 width precision (f\<lparr>LARGE := True\<rparr>) s) }
     else if c = CHR ''x'' then do { (n, as) \<leftarrow> get_num q False args3; Some (rest, as, number lim n 16 width precision f s) }
     else if c = CHR ''d'' \<or> c = CHR ''i'' then do {
       (n, as) \<leftarrow> get_num q True args3; Some (rest, as, number lim n 10 width precision (f\<lparr>SIGN := True\<rparr>) s)
     }
     else if c = CHR ''u'' then do { (n, as) \<leftarrow> get_num q False args3; Some (rest, as, number lim n 10 width precision f s) }
     else if fmt4 = [] then Some ([], args3, emit lim (CHR ''%'') s)
     else Some (rest, args3, emit lim c (emit lim (CHR ''%'') s))
   }"

lemma length_tl_le [simp]: "length (tl xs) \<le> length xs"
  by simp

lemma skip_atoi_len: "length (snd (skip_atoi s i)) \<le> length s"
  by (induction s i rule: skip_atoi.induct) auto

lemma get_flags_len: "length (snd (get_flags s f)) \<le> length s"
  by (induction s f rule: get_flags.induct) (auto intro: le_SucI)

lemma get_width_len: "get_width fmt f args = Some (w, f', rest, as) \<Longrightarrow> length rest \<le> length fmt"
  using skip_atoi_len [of fmt 0]
  by (auto simp: get_width_def Let_def split: if_splits prod.splits bind_splits)

lemma get_precision_len: "get_precision fmt args = Some (p, rest, as) \<Longrightarrow> length rest \<le> length fmt"
  using skip_atoi_len [of "tl fmt" 0]
  by (auto simp: get_precision_def Let_def split: if_splits prod.splits bind_splits)

lemma get_qualifier_len: "length (snd (get_qualifier fmt)) \<le> length fmt"
  by (auto simp: get_qualifier_def Let_def)

lemma convert_len:
  assumes "convert lim buf fmt args s = Some (rest, as, s')"
  shows "length rest \<le> length fmt"
proof -
  obtain f0 fmt1 where f: "get_flags fmt no_flags = (f0, fmt1)" by fastforce
  from assms f obtain w f' fmt2 args2 p fmt3 args3 where w: "get_width fmt1 f0 args = Some (w, f', fmt2, args2)"
    "get_precision fmt2 args2 = Some (p, fmt3, args3)"
    by (auto simp: convert_def split: bind_splits)
  obtain q fmt4 where q: "get_qualifier fmt3 = (q, fmt4)" by fastforce
  have "length fmt4 \<le> length fmt"
    using get_flags_len [of fmt no_flags] get_width_len [OF w(1)] get_precision_len [OF w(2)] get_qualifier_len [of fmt3]
    by (simp add: f q)
  moreover have "rest = tl fmt4 \<or> rest = []"
    using assms by (auto simp: convert_def f w q Let_def split: if_splits bind_splits)
  ultimately show ?thesis by (auto intro: order_trans [OF length_tl_le])
qed

function format_loop :: "nat \<Rightarrow> nat \<Rightarrow> string \<Rightarrow> va list \<Rightarrow> pout \<Rightarrow> pout option" where
  "format_loop lim buf [] args s = Some s"
| "format_loop lim buf (c # fmt) args s =
     (if c \<noteq> CHR ''%'' then format_loop lim buf fmt args (emit lim c s)
      else do { (rest, as, s1) \<leftarrow> convert lim buf fmt args s; format_loop lim buf rest as s1 })"
  by pat_completeness auto
termination
  by (relation "measure (\<lambda>(lim, buf, fmt, args, s). length fmt)") (auto dest: convert_len)

text \<open>
  The last byte of the buffer; when the buffer would reach past the end of the address space, it
  ends there.  The result is the length of the whole text, and the stored counts.
\<close>

definition buf_end :: "nat \<Rightarrow> nat \<Rightarrow> nat \<times> nat" where
  "buf_end buf n = (let e = (buf + n + 2 ^ 32 - 1) mod 2 ^ 32 in
     if e < buf - 1 then (2 ^ 32 - 1, 2 ^ 32 - buf) else (e, n))"

definition vsnprintf :: "(nat \<Rightarrow> char) \<Rightarrow> nat \<Rightarrow> nat \<Rightarrow> string \<Rightarrow> va list \<Rightarrow> (int \<times> (nat \<Rightarrow> char) \<times> (nat \<times> int) list) option" where
  "vsnprintf mem buf n fmt args = do {
     let (lim, n1) = buf_end buf n;
     s \<leftarrow> format_loop lim buf fmt args \<lparr>p_mem = mem, p_str = buf, p_counts = []\<rparr>;
     let mem1 = (if p_str s \<le> lim then (p_mem s)(p_str s := NUL) else if n1 > 0 then (p_mem s)(lim := NUL) else p_mem s);
     Some (wrap32 (int (p_str s) - int buf), mem1, p_counts s)
   }"

definition snprintf :: "(nat \<Rightarrow> char) \<Rightarrow> nat \<Rightarrow> nat \<Rightarrow> string \<Rightarrow> va list \<Rightarrow> (int \<times> (nat \<Rightarrow> char) \<times> (nat \<times> int) list) option" where
  "snprintf mem buf n fmt args = vsnprintf mem buf n fmt args"

definition vsprintf :: "(nat \<Rightarrow> char) \<Rightarrow> nat \<Rightarrow> string \<Rightarrow> va list \<Rightarrow> (int \<times> (nat \<Rightarrow> char) \<times> (nat \<times> int) list) option" where
  "vsprintf mem buf fmt args = vsnprintf mem buf 0xFFFFFFFF fmt args"

definition sprintf :: "(nat \<Rightarrow> char) \<Rightarrow> nat \<Rightarrow> string \<Rightarrow> va list \<Rightarrow> (int \<times> (nat \<Rightarrow> char) \<times> (nat \<times> int) list) option" where
  "sprintf mem buf fmt args = vsprintf mem buf fmt args"

text \<open>The new pointer and size, the size that is left without the terminator, and the memory.\<close>

definition iprintf :: "(nat \<Rightarrow> char) \<Rightarrow> nat \<Rightarrow> nat \<Rightarrow> string \<Rightarrow> va list \<Rightarrow> (nat \<times> nat \<times> nat \<times> (nat \<Rightarrow> char)) option" where
  "iprintf mem str n fmt args = do {
     (len, mem1, _) \<leftarrow> vsnprintf mem str n fmt args;
     kassert (len \<ge> 0);
     let len1 = min len (wrap32 (int n - 1));
     let n1 = nat ((int n - len1) mod 2 ^ 32);
     Some (nat ((int str + len1) mod 2 ^ 32), n1, nat ((int n1 - 1) mod 2 ^ 32), mem1)
   }"

section \<open>Scanning\<close>

text \<open>What one conversion stores: a number of a width, a string, characters, or a count.\<close>

datatype sval = SNum int | SText string | SChars string | SCount int

abbreviation skip_space :: "string \<Rightarrow> string" where
  "skip_space s \<equiv> dropWhile isspace s"

definition scan_qualifier :: "string \<Rightarrow> char \<times> string" where
  "scan_qualifier fmt =
     (if peek fmt \<in> set ''hlLZz''
      then if peek (tl fmt) = peek fmt \<and> peek fmt = CHR ''h'' then (CHR ''H'', tl (tl fmt))
           else if peek (tl fmt) = peek fmt \<and> peek fmt = CHR ''l'' then (CHR ''L'', tl (tl fmt))
           else (peek fmt, tl fmt)
      else (NUL, fmt))"

definition wrap8 :: "int \<Rightarrow> int" where
  "wrap8 x = (x + 2 ^ 7) mod 2 ^ 8 - 2 ^ 7"

definition scan_number :: "char \<Rightarrow> bool \<Rightarrow> int \<Rightarrow> string \<Rightarrow> int \<times> string" where
  "scan_number q signed base str =
     (if q = CHR ''L'' then if signed then simple_strtoll str base else simple_strtoull str base
      else if q \<in> set ''Zz'' then simple_strtoul str base
      else let (r, rest) = (if signed then simple_strtol str base else simple_strtoul str base) in
        (if q = CHR ''H'' then if signed then wrap8 r else r mod 2 ^ 8
         else if q = CHR ''h'' then if signed then wrap16 r else r mod 2 ^ 16 else r, rest))"

definition digit_ok :: "int \<Rightarrow> bool \<Rightarrow> string \<Rightarrow> bool" where
  "digit_ok base signed str = (let digit = (if signed \<and> peek str = CHR ''-'' then peek (tl str) else peek str) in
     \<not> (digit = NUL \<or> base = 16 \<and> \<not> isxdigit digit \<or> base = 10 \<and> \<not> isdigit digit
        \<or> base = 8 \<and> (\<not> isdigit digit \<or> code digit > 55) \<or> base = 0 \<and> \<not> isdigit digit))"

text \<open>
  One conversion after its width and qualifier: \<open>None\<close> ends the scan, otherwise the values stored, how
  many conversions were counted, and the rest of the input.
\<close>

definition scan_conv :: "nat \<Rightarrow> char \<Rightarrow> int \<Rightarrow> char \<Rightarrow> string \<Rightarrow> (sval list \<times> nat \<times> string) option" where
  "scan_conv pos q width c str =
     (if c = CHR ''c'' then let k = (if width = -1 then 1 else max 1 (nat width)) in Some ([SChars (take k str)], 1, drop k str)
      else if c = CHR ''s'' then let
        str1 = skip_space str;
        word = takeWhile (\<lambda>x. \<not> isspace x) str1;
        txt = (if width < 0 then word else take (nat width) word)
        in Some ([SText txt], 1, drop (length txt) str1)
      else if c = CHR ''n'' then Some ([SCount (int pos)], 0, str)
      else if c = CHR ''%'' then if peek str = CHR ''%'' then Some ([], 0, tl str) else None
      else if c \<in> set ''oxXidu'' then let
        base = (if c = CHR ''o'' then 8 else if c = CHR ''x'' \<or> c = CHR ''X'' then 16 else if c = CHR ''i'' then 0 else 10);
        signed = (c = CHR ''i'' \<or> c = CHR ''d'');
        str1 = skip_space str in
        if digit_ok base signed str1 then let (r, rest) = scan_number q signed base str1 in Some ([SNum r], 1, rest) else None
      else None)"

lemma scan_qualifier_len: "scan_qualifier fmt = (q, rest) \<Longrightarrow> length rest \<le> length fmt"
  by (auto simp: scan_qualifier_def split: if_splits)

lemma scan_width_len:
  "(if isdigit (peek fmt) then skip_atoi fmt 0 else (-1, fmt)) = (w, rest) \<Longrightarrow> length rest \<le> length fmt"
  using skip_atoi_len [of fmt 0] by (auto split: if_splits)

lemma skip_space_len: "length (if b then skip_space s else s) \<le> length s"
  by (simp add: length_dropWhile_le)

function vsscanf_loop :: "nat \<Rightarrow> string \<Rightarrow> string \<Rightarrow> nat \<Rightarrow> sval list \<Rightarrow> nat \<times> sval list" where
  "vsscanf_loop tot str fmt num vals =
     (if fmt = [] \<or> str = [] then (num, vals)
      else let
        space = isspace (peek fmt);
        fmt1 = (if space then skip_space fmt else fmt);
        str1 = (if space then skip_space str else str)
      in if fmt1 = [] then (num, vals)
      else if peek fmt1 \<noteq> CHR ''%'' then
        if peek fmt1 \<noteq> peek str1 then (num, vals) else vsscanf_loop tot (tl str1) (tl fmt1) num vals
      else let fmt2 = tl fmt1 in
        if peek fmt2 = CHR ''*'' then
          vsscanf_loop tot (dropWhile (\<lambda>x. \<not> isspace x) str1) (dropWhile (\<lambda>x. \<not> isspace x) fmt2) num vals
        else let
          (width, fmt3) = (if isdigit (peek fmt2) then skip_atoi fmt2 0 else (-1, fmt2));
          (q, fmt4) = scan_qualifier fmt3
        in if fmt4 = [] \<or> str1 = [] then (num, vals)
        else (case scan_conv (tot - length str1) q width (peek fmt4) str1 of
            None \<Rightarrow> (num, vals)
          | Some (vs, k, str2) \<Rightarrow> vsscanf_loop tot str2 (tl fmt4) (num + k) (vals @ vs)))"
  by pat_completeness auto
termination
proof (relation "measure (\<lambda>(tot, str, fmt, num, vals). length fmt)", goal_cases)
  case (2 tot str fmt num vals space fmt1 str1)
  from 2(3) have l: "length fmt1 \<le> length fmt" by (simp add: length_dropWhile_le)
  from 2(5) l have "length (tl fmt1) < length fmt" by (cases fmt1) simp_all
  then show ?case by simp
next
  case (3 tot str fmt num vals space fmt1 str1 fmt2)
  from 3(3) have l: "length fmt1 \<le> length fmt" by (simp add: length_dropWhile_le)
  from 3(5,7) l have "length fmt2 < length fmt" by (cases fmt1) simp_all
  then show ?case using length_dropWhile_le [of "\<lambda>x. \<not> isspace x" fmt2] by simp
next
  case (4 tot str fmt num vals space fmt1 str1 fmt2 wp width fmt3 qp q fmt4)
  from 4(3) have l: "length fmt1 \<le> length fmt" by (simp add: length_dropWhile_le)
  from 4(5,7) l have f: "length fmt2 < length fmt" by (cases fmt1) simp_all
  from 4(9,10) have w: "length fmt3 \<le> length fmt2" using scan_width_len [of fmt2 width fmt3] by simp
  from 4(11,12) have q: "length fmt4 \<le> length fmt3" using scan_qualifier_len [of fmt3 q fmt4] by simp
  from f w q show ?case using length_tl_le [of fmt4] by simp
qed simp

declare vsscanf_loop.simps [simp del]

definition vsscanf :: "string \<Rightarrow> string \<Rightarrow> nat \<times> sval list" where
  "vsscanf buf fmt = vsscanf_loop (length buf) buf fmt 0 []"

definition sscanf :: "string \<Rightarrow> string \<Rightarrow> nat \<times> sval list" where
  "sscanf buf fmt = vsscanf buf fmt"

end
