(* ===== verification/Printf_Props.thy ===== *)
theory Printf_Props
  imports Printf
begin

text \<open>
  The texts that the conversions print, as pure functions of the format and the arguments, and the
  proof that the buffer writers of \<^verbatim>\<open>kernel/util/printf.c\<close> put exactly these texts into the buffer, cut
  to its size.  A printed number is then read back by the scanner.
\<close>

section \<open>What is printed\<close>

definition number_text :: "int \<Rightarrow> nat \<Rightarrow> int \<Rightarrow> int \<Rightarrow> pflags \<Rightarrow> string" where
  "number_text num base width precision f = (let
     ds = (if LARGE f then large_digits else small_digits);
     sign = (if SIGN f then if num < 0 then ''-'' else if PLUS f then ''+'' else if SPACE f then '' '' else [] else []);
     prefix = (if SPECIAL f then if base = 8 then ''0'' else if base = 16 then [CHR ''0'', ds ! 33] else [] else []);
     mag = (if SIGN f \<and> num < 0 then - num else num);
     tmp = (if mag = 0 then ''0'' else rev (num_digits ds base (nat (mag mod 2 ^ 64))));
     figures = replicate (nat precision - length tmp) (CHR ''0'') @ tmp;
     fill = nat (width - int (length sign + length prefix + length figures))
   in if LEFT f then sign @ prefix @ figures @ replicate fill (CHR '' '')
      else if ZEROPAD f then sign @ prefix @ replicate fill (CHR ''0'') @ figures
      else replicate fill (CHR '' '') @ sign @ prefix @ figures)"

definition field_text :: "int \<Rightarrow> pflags \<Rightarrow> string \<Rightarrow> string" where
  "field_text width f t = (let fill = replicate (nat (width - int (length t))) (CHR '' '') in if LEFT f then t @ fill else fill @ t)"

definition string_text :: "int \<Rightarrow> string option \<Rightarrow> string" where
  "string_text precision arg = (let t = (case arg of None \<Rightarrow> ''<NULL>'' | Some t \<Rightarrow> t) in if precision < 0 then t else take (nat precision) t)"

text \<open>One conversion: the rest of the format and of the arguments, the text, and what is stored through \<^verbatim>\<open>%n\<close>.\<close>

definition conv_text :: "string \<Rightarrow> va list \<Rightarrow> int \<Rightarrow> (string \<times> va list \<times> string \<times> (nat \<times> int) list) option" where
  "conv_text fmt args pos = do {
     let (f0, fmt1) = get_flags fmt no_flags;
     (width, f, fmt2, args2) \<leftarrow> get_width fmt1 f0 args;
     (precision, fmt3, args3) \<leftarrow> get_precision fmt2 args2;
     let (q, fmt4) = get_qualifier fmt3;
     let c = peek fmt4;
     let rest = tl fmt4;
     if c = CHR ''c'' then do { (n, as) \<leftarrow> va_int args3; Some (rest, as, field_text width f [char_of n], []) }
     else if c = CHR ''s'' then do { (t, as) \<leftarrow> va_str args3; Some (rest, as, field_text width f (string_text precision t), []) }
     else if c = CHR ''p'' then do {
       (n, as) \<leftarrow> va_int args3;
       Some (rest, as, if width = -1 then number_text n 16 8 precision (f\<lparr>ZEROPAD := True\<rparr>) else number_text n 16 width precision f, [])
     }
     else if c = CHR ''n'' then do { (ip, as) \<leftarrow> va_int args3; Some (rest, as, [], [(nat ip, pos)]) }
     else if c = CHR ''%'' then Some (rest, args3, ''%'', [])
     else if c \<in> set ''oXxdiu'' then do {
       (n, as) \<leftarrow> get_num q (c = CHR ''d'' \<or> c = CHR ''i'') args3;
       let base = (if c = CHR ''o'' then 8 else if c = CHR ''X'' \<or> c = CHR ''x'' then 16 else 10);
       let f1 = (if c = CHR ''X'' then f\<lparr>LARGE := True\<rparr> else if c = CHR ''d'' \<or> c = CHR ''i'' then f\<lparr>SIGN := True\<rparr> else f);
       Some (rest, as, number_text n base width precision f1, [])
     }
     else Some (rest, args3, CHR ''%'' # take 1 fmt4, [])
   }"

lemma conv_text_len:
  assumes "conv_text fmt args pos = Some (rest, as, t, ns)"
  shows "length rest \<le> length fmt"
proof -
  obtain f0 fmt1 where f: "get_flags fmt no_flags = (f0, fmt1)" by fastforce
  from assms f obtain w f' fmt2 args2 p fmt3 args3 where w: "get_width fmt1 f0 args = Some (w, f', fmt2, args2)"
    "get_precision fmt2 args2 = Some (p, fmt3, args3)"
    by (auto simp: conv_text_def split: bind_splits)
  obtain q fmt4 where q: "get_qualifier fmt3 = (q, fmt4)" by fastforce
  have "length fmt4 \<le> length fmt"
    using get_flags_len [of fmt no_flags] get_width_len [OF w(1)] get_precision_len [OF w(2)] get_qualifier_len [of fmt3]
    by (simp add: f q)
  moreover have "rest = tl fmt4"
    using assms by (auto simp: conv_text_def f w q Let_def split: if_splits bind_splits)
  ultimately show ?thesis by (auto intro: order_trans [OF length_tl_le])
qed

function format_text :: "string \<Rightarrow> va list \<Rightarrow> nat \<Rightarrow> (string \<times> (nat \<times> int) list) option" where
  "format_text [] args pos = Some ([], [])"
| "format_text (c # fmt) args pos =
     (if c \<noteq> CHR ''%'' then do { (t, ns) \<leftarrow> format_text fmt args (Suc pos); Some (c # t, ns) }
      else do {
        (rest, as, t, ns) \<leftarrow> conv_text fmt args (int pos);
        (t', ns') \<leftarrow> format_text rest as (pos + length t);
        Some (t @ t', ns @ ns')
      })"
  by pat_completeness auto
termination
  by (relation "measure (\<lambda>(fmt, args, pos). length fmt)") (auto dest: conv_text_len)

section \<open>The writers\<close>

lemma put_all_append: "put_all lim (xs @ ys) s = put_all lim ys (put_all lim xs s)"
  by (induction xs arbitrary: s) auto

lemma put_all_snoc: "put_all lim xs (emit lim c s) = put_all lim (c # xs) s"
  by simp

lemma emit_put: "emit lim c s = put_all lim [c] s"
  by simp

lemma pad_put: "pad lim c n s = (min n 0 - 1, put_all lim (replicate (nat n) c) s)"
proof (induction "nat n" arbitrary: n s)
  case 0
  then show ?case by (simp add: pad.simps)
next
  case (Suc k)
  then have "n > 0" "k = nat (n - 1)" by auto
  then show ?case using Suc(1) [of "n - 1" "emit lim c s"] Suc(2)
    by (subst pad.simps) (simp add: min_def flip: Suc(2))
qed

lemma put_all_counts [simp]: "p_counts (put_all lim xs s) = p_counts s"
  by (induction xs arbitrary: s) (auto simp: emit_def)

lemma put_all_str: "p_str s < 2 ^ 32 \<Longrightarrow> p_str (put_all lim xs s) = (p_str s + length xs) mod 2 ^ 32"
proof (induction xs arbitrary: s)
  case (Cons c xs)
  have "p_str (emit lim c s) = (p_str s + 1) mod 2 ^ 32" by (simp add: emit_def)
  then show ?case using Cons.IH [of "emit lim c s"] by (simp add: mod_simps)
qed simp

lemma put_all_mem:
  "p_str s + length xs \<le> 2 ^ 32 \<Longrightarrow> p_mem (put_all lim xs s) a =
     (if p_str s \<le> a \<and> a < p_str s + length xs \<and> a \<le> lim then xs ! (a - p_str s) else p_mem s a)"
proof (induction xs arbitrary: s)
  case (Cons c xs)
  show ?case
  proof (cases xs)
    case Nil
    then show ?thesis by (auto simp: emit_def)
  next
    case (Cons d ds)
    with Cons.prems have str: "p_str (emit lim c s) = p_str s + 1" by (simp add: emit_def)
    show ?thesis
      using Cons.IH [of "emit lim c s"] Cons.prems unfolding str
      by (auto simp: emit_def nth_Cons')
  qed
qed auto

lemma number_put:
  assumes "2 \<le> base" "base \<le> 36"
  shows "number lim num base width precision f s = put_all lim (number_text num base width precision f) s"
proof -
  define ds where "ds = (if LARGE f then large_digits else small_digits)"
  define sign where "sign = (if SIGN f then if num < 0 then ''-'' else if PLUS f then ''+'' else if SPACE f then '' '' else [] else [])"
  define prefix where "prefix = (if SPECIAL f then if base = 8 then ''0'' else if base = 16 then [CHR ''0'', ds ! 33] else [] else [])"
  define mag where "mag = (if SIGN f \<and> num < 0 then - num else num)"
  define tmp where "tmp = (if mag = 0 then ''0'' else num_digits ds base (nat (mag mod 2 ^ 64)))"
  define fill where "fill = width - int (length sign) - int (length prefix) - max (int (length tmp)) precision"
  have rtmp: "(if mag = 0 then ''0'' else rev (num_digits ds base (nat (mag mod 2 ^ 64)))) = rev tmp"
    by (simp add: tmp_def)
  have printed: "number_text num base width precision f =
      (if LEFT f then sign @ prefix @ (replicate (nat precision - length tmp) (CHR ''0'') @ rev tmp) @ replicate (nat fill) (CHR '' '')
       else if ZEROPAD f then sign @ prefix @ replicate (nat fill) (CHR ''0'') @ replicate (nat precision - length tmp) (CHR ''0'') @ rev tmp
       else replicate (nat fill) (CHR '' '') @ sign @ prefix @ replicate (nat precision - length tmp) (CHR ''0'') @ rev tmp)"
  proof -
    have "width - int (length sign + length prefix + length (replicate (nat precision - length tmp) (CHR ''0'') @ rev tmp)) = fill"
      by (simp add: fill_def)
    then show ?thesis
      unfolding number_text_def Let_def ds_def [symmetric] sign_def [symmetric] prefix_def [symmetric] mag_def [symmetric] rtmp
      by simp
  qed
  have fillw: "(if SPECIAL f then if base = 16 then width - int (length sign) - 2 else if base = 8 then width - int (length sign) - 1
      else width - int (length sign) else width - int (length sign)) - max (int (length tmp)) precision = fill"
    by (simp add: fill_def prefix_def)
  have special: "(if SPECIAL f then if base = 8 then emit lim (CHR ''0'') s2
              else if base = 16 then emit lim (ds ! 33) (emit lim (CHR ''0'') s2) else s2 else s2) = put_all lim prefix s2" for s2
    by (simp add: prefix_def)
  have zeros: "nat (max (int (length tmp)) precision - int (length tmp)) = nat precision - length tmp" by simp
  have "\<not> (base < 2 \<or> base > 36)" using assms by simp
  then show ?thesis
    unfolding number_def Let_def ds_def [symmetric] sign_def [symmetric] mag_def [symmetric] tmp_def [symmetric] fillw special pad_put snd_conv zeros printed
    by (simp add: put_all_append)
qed

lemma print_char_put: "print_char lim width f c s = put_all lim (field_text width f [c]) s"
  by (auto simp: print_char_def field_text_def Let_def pad_put put_all_append)

lemma print_string_put:
  "print_string lim width precision f arg s = put_all lim (field_text width f (string_text precision arg)) s"
  by (auto simp: print_string_def field_text_def string_text_def Let_def pad_put put_all_append min_def split: option.split)

lemma map_option_bind: "map_option g (x \<bind> k) = (x \<bind> (\<lambda>a. map_option g (k a)))"
  by (cases x) auto

lemma emit_counts [simp]: "p_counts (emit lim c s) = p_counts s"
  by (simp add: emit_def)

lemma same_counts: "p_counts s = n \<Longrightarrow> (s :: pout)\<lparr>p_counts := n\<rparr> = s"
  by auto

lemma convert_put:
  "convert lim buf fmt args s = map_option (\<lambda>(rest, as, t, ns). (rest, as, (put_all lim t s)\<lparr>p_counts := p_counts s @ ns\<rparr>))
     (conv_text fmt args (wrap32 (int (p_str s) - int buf)))"
proof -
  obtain f0 fmt1 where f: "get_flags fmt no_flags = (f0, fmt1)" by fastforce
  show ?thesis
  proof (cases "get_width fmt1 f0 args")
    case None
    then show ?thesis by (simp add: convert_def conv_text_def f)
  next
    case (Some x)
    then obtain w f' fmt2 args2 where w: "get_width fmt1 f0 args = Some (w, f', fmt2, args2)" by (cases x) auto
    show ?thesis
    proof (cases "get_precision fmt2 args2")
      case None
      then show ?thesis by (simp add: convert_def conv_text_def f w)
    next
      case (Some y)
      then obtain p fmt3 args3 where p: "get_precision fmt2 args2 = Some (p, fmt3, args3)" by (cases y) auto
      obtain q fmt4 where q: "get_qualifier fmt3 = (q, fmt4)" by fastforce
      have last: "put_all lim (CHR ''%'' # take (Suc 0) fmt4) s = (if fmt4 = [] then emit lim (CHR ''%'') s
          else emit lim (peek fmt4) (emit lim (CHR ''%'') s))"
        by (cases fmt4) (auto simp: peek_def)
      show ?thesis
        by (simp add: convert_def conv_text_def Let_def f w p q last number_put print_char_put print_string_put same_counts
            emit_put [symmetric] map_option_bind case_prod_beta' del: put_all.simps(2) take_Suc_Cons)
    qed
  qed
qed

lemma emit_upd_counts: "emit lim c (s\<lparr>p_counts := n\<rparr>) = (emit lim c s)\<lparr>p_counts := n\<rparr>"
  by (simp add: emit_def)

lemma put_all_upd_counts: "put_all lim xs (s\<lparr>p_counts := n\<rparr>) = (put_all lim xs s)\<lparr>p_counts := n\<rparr>"
  by (induction xs arbitrary: s) (auto simp: emit_upd_counts)

lemma format_loop_put:
  assumes "format_text fmt args pos = Some (t, ns)" "p_str s = buf + pos" "buf + pos + length t < 2 ^ 32" "pos + length t < 2 ^ 31"
  shows "format_loop lim buf fmt args s = Some ((put_all lim t s)\<lparr>p_counts := p_counts s @ ns\<rparr>)"
  using assms
proof (induction fmt args pos arbitrary: s t ns rule: format_text.induct)
  case (1 args pos)
  then show ?case by (simp add: same_counts)
next
  case (2 c fmt args pos)
  show ?case
  proof (cases "c = CHR ''%''")
    case False
    with 2(3) obtain t' where t': "format_text fmt args (Suc pos) = Some (t', ns)" "t = c # t'"
      by (auto split: bind_splits)
    have "p_str (emit lim c s) = buf + Suc pos" using 2(4,5) t'(2) by (simp add: emit_def)
    from 2(1) [OF False t'(1) this] t'(2) 2(5,6) False show ?thesis by simp
  next
    case True
    with 2(3) obtain rest as t1 n1 t2 n2 where c: "conv_text fmt args (int pos) = Some (rest, as, t1, n1)"
      and r: "format_text rest as (pos + length t1) = Some (t2, n2)" and t: "t = t1 @ t2" "ns = n1 @ n2"
      by (auto split: bind_splits)
    have pos: "wrap32 (int (p_str s) - int buf) = int pos" using 2(4,6) t by (simp add: wrap32_id)
    have str: "p_str (put_all lim t1 s) = buf + (pos + length t1)"
      using 2(4,5) t by (subst put_all_str) simp_all
    let ?s1 = "(put_all lim t1 s)\<lparr>p_counts := p_counts s @ n1\<rparr>"
    have "format_loop lim buf rest as ?s1 = Some ((put_all lim t2 ?s1)\<lparr>p_counts := p_counts ?s1 @ n2\<rparr>)"
      using True c r t str 2(5,6) by (intro 2(2)) auto
    then show ?thesis using True c t by (simp add: convert_put pos put_all_append put_all_upd_counts)
  qed
qed

lemma buf_end_inside:
  assumes "0 < buf" "buf + n \<le> 2 ^ 32"
  shows "buf_end buf n = (buf + n - 1, n)"
proof -
  have "(buf + n + 2 ^ 32 - 1) mod 2 ^ 32 = buf + n - 1"
    using assms mod_add_self2 [of "buf + n - 1" "2 ^ 32"] by (simp del: mod_add_self2)
  then show ?thesis using assms by (simp add: buf_end_def Let_def)
qed

text \<open>The memory after a text has been printed into a buffer of \<open>n\<close> characters.\<close>

definition printed :: "(nat \<Rightarrow> char) \<Rightarrow> nat \<Rightarrow> nat \<Rightarrow> string \<Rightarrow> nat \<Rightarrow> char" where
  "printed mem buf n t a = (let k = min (length t) (n - 1) in
     if n = 0 \<or> a < buf then mem a else if a < buf + k then t ! (a - buf) else if a = buf + k then NUL else mem a)"

lemma vsnprintf_printed:
  assumes "format_text fmt args 0 = Some (t, ns)" "0 < buf" "buf + n \<le> 2 ^ 32" "buf + length t < 2 ^ 32" "length t < 2 ^ 31"
  shows "vsnprintf mem buf n fmt args = Some (int (length t), printed mem buf n t, ns)"
proof -
  let ?s = "\<lparr>p_mem = mem, p_str = buf, p_counts = []\<rparr>"
  define lim where "lim = buf + n - 1"
  define p where "p = put_all lim t ?s"
  have loop: "format_loop lim buf fmt args ?s = Some (p\<lparr>p_counts := ns\<rparr>)"
    using format_loop_put [OF assms(1), of ?s buf lim] assms(4,5) by (simp add: p_def)
  have str: "p_str p = buf + length t" using assms(4) unfolding p_def by (subst put_all_str) simp_all
  have mem: "p_mem p a = (if buf \<le> a \<and> a < buf + length t \<and> a \<le> lim then t ! (a - buf) else mem a)" for a
    using assms(4) unfolding p_def by (subst put_all_mem) simp_all
  have ret: "wrap32 (int (length t)) = int (length t)" using assms(5) by (simp add: wrap32_id)
  have "printed mem buf n t
      = (if buf + length t \<le> lim then (p_mem p)(buf + length t := NUL) else if n > 0 then (p_mem p)(lim := NUL) else p_mem p)"
    using assms(2) by (intro ext) (auto simp: printed_def mem lim_def Let_def min_def)
  then show ?thesis
    unfolding vsnprintf_def buf_end_inside [OF assms(2,3)] lim_def [symmetric] by (simp add: loop str ret)
qed

text \<open>
  C15: \<^verbatim>\<open>vsnprintf\<close> prints within its buffer.  If the text of the format and the arguments is \<open>t\<close>, the call
  returns the length of the whole text, whatever the size of the buffer; the buffer holds the text cut
  to one character less than its size and then a terminating zero, every other byte of memory is
  unchanged, and nothing at all is written to a buffer of size zero.
\<close>

theorem vsnprintf_bounded:
  assumes "format_text fmt args 0 = Some (t, ns)" "0 < buf" "buf + n \<le> 2 ^ 32" "buf + length t < 2 ^ 32" "length t < 2 ^ 31"
  shows "\<exists>mem'. vsnprintf mem buf n fmt args = Some (int (length t), mem', ns)
    \<and> (\<forall>i < min (length t) (n - 1). mem' (buf + i) = t ! i)
    \<and> (n > 0 \<longrightarrow> mem' (buf + min (length t) (n - 1)) = NUL)
    \<and> (\<forall>a. (a < buf \<or> a \<ge> buf + n \<or> a > buf + length t) \<longrightarrow> mem' a = mem a)"
  by (rule exI [of _ "printed mem buf n t"], intro conjI, rule vsnprintf_printed [OF assms]) (auto simp: printed_def Let_def)

theorem vsnprintf_bounded_witness:
  "format_text ''%s=%04x'' [VStr (Some ''ab''), VInt 255] 0 = Some (''ab=00ff'', []) \<and>
   (\<exists>mem'. vsnprintf (\<lambda>_. CHR ''x'') 100 6 ''%s=%04x'' [VStr (Some ''ab''), VInt 255] = Some (7, mem', [])
    \<and> (\<forall>i < 5. mem' (100 + i) = ''ab=00ff'' ! i) \<and> mem' 105 = NUL \<and> mem' 106 = CHR ''x'')"
proof -
  have d: "\<not> isdigit (CHR ''s'')" "isdigit (CHR ''4'')" "\<not> isdigit (CHR ''x'')" by (simp_all add: isdigit_iff)
  have "num_digits small_digits 16 255 = ''ff''" by (simp add: num_digits.simps small_digits_def)
  then have f: "format_text ''%s=%04x'' [VStr (Some ''ab''), VInt 255] 0 = Some (''ab=00ff'', [])"
    by (simp add: conv_text_def get_width_def get_precision_def get_qualifier_def peek_def d get_num_def va_int_def va_str_def
        field_text_def string_text_def number_text_def Let_def wrap32_def numeral_2_eq_2)
  with vsnprintf_bounded [OF f, of 100 6 "\<lambda>_. CHR ''x''"] show ?thesis by auto
qed

section \<open>Numbers are read back\<close>

lemma digit_read:
  assumes "ds = small_digits \<or> ds = large_digits" "d < 16"
  shows "isxdigit (ds ! d)" "digit_value (ds ! d) = int d"
proof -
  have "[0..<16] = [0,1,2,3,4,5,6,7,8,9,10,11,12,13,14,15]" by (simp add: upt_conv_Cons)
  then have d: "d \<in> set [0,1,2,3,4,5,6,7,8,9,10,11,12,13,14,15]" using assms(2) set_upt [of 0 16] by (metis atLeastLessThan_iff zero_le)
  have "list_all (\<lambda>d. isxdigit (small_digits ! d) \<and> digit_value (small_digits ! d) = int d
      \<and> isxdigit (large_digits ! d) \<and> digit_value (large_digits ! d) = int d) [0,1,2,3,4,5,6,7,8,9,10,11,12,13,14,15]"
    by (simp add: isxdigit_iff isdigit_iff digit_value_def small_digits_def large_digits_def toupper_def islower_iff)
  with d assms(1) show "isxdigit (ds ! d)" "digit_value (ds ! d) = int d" unfolding list_all_iff by blast+
qed

lemma strtoul_loop_digits:
  assumes "ds = small_digits \<or> ds = large_digits" "2 \<le> base" "base \<le> 16"
  shows "strtoul_loop bits (int base) (rev (num_digits ds base n) @ ys) 0 = strtoul_loop bits (int base) ys (int n mod 2 ^ bits)"
proof (induction n arbitrary: ys rule: less_induct)
  case (less n)
  show ?case
  proof (cases "n = 0")
    case True
    then show ?thesis by (simp add: num_digits.simps)
  next
    case False
    let ?d = "n mod base"
    have d: "?d < 16" "?d < base" using assms by (auto intro: less_le_trans [OF mod_less_divisor])
    have n: "int n = int (n div base) * int base + int ?d" by (metis div_mult_mod_eq of_nat_add of_nat_mult)
    have "strtoul_loop bits (int base) (rev (num_digits ds base n) @ ys) 0
        = strtoul_loop bits (int base) (rev (num_digits ds base (n div base)) @ (ds ! ?d) # ys) 0"
      using False assms(2) by (subst num_digits.simps) simp
    also have "\<dots> = strtoul_loop bits (int base) ((ds ! ?d) # ys) (int (n div base) mod 2 ^ bits)"
      using False assms(2) by (intro less) simp
    also have "\<dots> = strtoul_loop bits (int base) ys ((int (n div base) mod 2 ^ bits * int base + int ?d) mod 2 ^ bits)"
      using digit_read [OF assms(1) d(1)] d(2) by simp
    also have "(int (n div base) mod 2 ^ bits * int base + int ?d) mod 2 ^ bits = int n mod 2 ^ bits"
      unfolding n by (metis mod_add_left_eq mod_mult_left_eq)
    finally show ?thesis .
  qed
qed

lemma num_digits_isdigit: "c \<in> set (num_digits small_digits 10 n) \<Longrightarrow> isdigit c"
proof (induction n rule: less_induct)
  case (less n)
  have "list_all (\<lambda>d. isdigit (small_digits ! d)) [0..<10]" by (simp add: upt_conv_Cons isdigit_iff small_digits_def)
  moreover have "n mod 10 \<in> set [0..<10]" by simp
  ultimately have d: "isdigit (small_digits ! (n mod 10))" unfolding list_all_iff by blast
  from less.prems have n: "n \<noteq> 0" "c = small_digits ! (n mod 10) \<or> c \<in> set (num_digits small_digits 10 (n div 10))"
    by (auto simp: num_digits.simps [of _ _ n] split: if_splits)
  with d less.IH [of "n div 10"] show ?case by auto
qed

text \<open>The decimal text of a number and its value under the scanner.\<close>

definition dec_figures :: "nat \<Rightarrow> string" where
  "dec_figures n = (if n = 0 then ''0'' else rev (num_digits small_digits 10 n))"

definition dec_text :: "int \<Rightarrow> string" where
  "dec_text i = (if i < 0 then CHR ''-'' # dec_figures (nat (- i)) else dec_figures (nat i))"

lemma dec_figures_head:
  obtains c cs where "dec_figures n = c # cs" "isdigit c"
proof (cases "n = 0")
  case True
  then show ?thesis using that [of "CHR ''0''" "[]"] by (simp add: dec_figures_def isdigit_iff)
next
  case False
  then have "num_digits small_digits 10 n \<noteq> []" by (subst num_digits.simps) simp
  then obtain c cs where c: "dec_figures n = c # cs" using False by (cases "dec_figures n") (auto simp: dec_figures_def)
  then have "c \<in> set (dec_figures n)" by simp
  then have "c \<in> set (num_digits small_digits 10 n)" using False by (simp add: dec_figures_def)
  with c that show ?thesis using num_digits_isdigit by blast
qed

lemma dec_figures_read: "n < 2 ^ 32 \<Longrightarrow> simple_strtoul (dec_figures n) 10 = (int n, [])"
proof -
  assume n: "n < 2 ^ 32"
  then have m: "int n mod 2 ^ 32 = int n" by simp
  show ?thesis
  proof (cases "n = 0")
    case True
    have "simple_strtoul ''0'' 10 = (0, [])"
      by (simp add: simple_strtoul_def strtoul_base_def isxdigit_iff isdigit_iff digit_value_def)
    with True show ?thesis by (simp add: dec_figures_def)
  next
    case False
    then show ?thesis using strtoul_loop_digits [of small_digits 10 32 n "[]"] m
      by (simp add: simple_strtoul_def strtoul_base_def dec_figures_def)
  qed
qed

lemma num_digits_power: "2 \<le> base \<Longrightarrow> n < base ^ k \<Longrightarrow> length (num_digits ds base n) \<le> k"
proof (induction k arbitrary: n)
  case 0
  then show ?case by (simp add: num_digits.simps)
next
  case (Suc k)
  have "n div base < base ^ k" using Suc.prems by (intro less_mult_imp_div_less) (simp add: mult.commute)
  then show ?case using Suc.IH [OF Suc.prems(1), of "n div base"] by (subst num_digits.simps) simp
qed

text \<open>The array \<^verbatim>\<open>tmp\<close> of \<^verbatim>\<open>number\<close> has 66 places; no number of 64 bits has more than 64 digits.\<close>

lemma number_tmp_fits:
  assumes "2 \<le> base"
  shows "length (num_digits ds base (nat (num mod 2 ^ 64))) \<le> 64"
proof (rule num_digits_power [OF assms])
  have "nat (num mod 2 ^ 64) < 2 ^ 64" by simp
  also have "\<dots> \<le> base ^ 64" using assms by (intro power_mono) auto
  finally show "nat (num mod 2 ^ 64) < base ^ 64" .
qed

lemma dec_text_length:
  assumes "- (2 ^ 31) \<le> i" "i < 2 ^ 31"
  shows "length (dec_text i) \<le> 11"
proof -
  have "length (dec_figures (nat \<bar>i\<bar>)) \<le> 10"
    using num_digits_power [of 10 "nat \<bar>i\<bar>" 10 small_digits] assms by (auto simp: dec_figures_def)
  then show ?thesis by (auto simp: dec_text_def abs_if split: if_splits)
qed

lemma dec_text_printed:
  assumes "- (2 ^ 31) \<le> i" "i < 2 ^ 31"
  shows "format_text ''%d'' [VInt i] 0 = Some (dec_text i, [])"
proof -
  have "wrap32 (i mod 2 ^ 32) = i" using assms by (simp add: wrap32_def mod_simps)
  then show ?thesis
    using assms
    by (simp add: conv_text_def get_width_def get_precision_def get_qualifier_def peek_def isdigit_iff get_num_def va_int_def
        number_text_def dec_text_def dec_figures_def Let_def)
qed

lemma vsscanf_loop_end: "vsscanf_loop tot str [] num vals = (num, vals)"
  by (subst vsscanf_loop.simps) simp

lemma sscanf_one:
  assumes "str \<noteq> []" "scan_conv 0 NUL (-1) (CHR ''d'') str = Some (vs, k, rest)"
  shows "sscanf str ''%d'' = (k, vs)"
proof -
  have "\<not> isspace (CHR ''%'')" "\<not> isdigit (CHR ''d'')" by (simp_all add: isspace_iff isdigit_iff)
  then show ?thesis
    using assms unfolding sscanf_def vsscanf_def
    by (subst vsscanf_loop.simps) (simp add: vsscanf_loop_end peek_def scan_qualifier_def)
qed

lemma scan_conv_d:
  assumes "simple_strtol str 10 = (i, [])" "\<not> isspace (peek str)" "isdigit (if peek str = CHR ''-'' then peek (tl str) else peek str)"
  shows "scan_conv 0 NUL (-1) (CHR ''d'') str = Some ([SNum i], 1, [])"
proof -
  have sk: "skip_space str = str" using assms(2) by (cases str) (auto simp: peek_def)
  have ok: "digit_ok 10 True str" using assms(3) by (auto simp: digit_ok_def Let_def isdigit_iff)
  show ?thesis using ok assms(1) by (simp add: scan_conv_def scan_number_def sk Let_def)
qed

lemma dec_text_scanned:
  assumes "- (2 ^ 31) \<le> i" "i < 2 ^ 31"
  shows "sscanf (dec_text i) ''%d'' = (1, [SNum i])"
proof -
  obtain c cs where c: "dec_figures (nat \<bar>i\<bar>) = c # cs" "isdigit c" by (rule dec_figures_head)
  have nsp: "\<not> isspace c" "c \<noteq> CHR ''-''" "\<not> isspace (CHR ''-'')" using c(2) by (auto simp: isdigit_iff isspace_iff)
  have read: "simple_strtoul (c # cs) 10 = (\<bar>i\<bar>, [])" using dec_figures_read [of "nat \<bar>i\<bar>"] assms c(1) by simp
  have w: "wrap32 i = i" using assms by (simp add: wrap32_id)
  have t: "dec_text i = (if i < 0 then CHR ''-'' # c # cs else c # cs)" using c by (simp add: dec_text_def abs_if split: if_splits)
  have "simple_strtol (dec_text i) 10 = (i, [])" using read w nsp by (simp add: simple_strtol_def peek_def t)
  then show ?thesis using c nsp by (intro sscanf_one [OF _ scan_conv_d]) (auto simp: t peek_def)
qed

text \<open>
  C16: A 32-bit number printed with \<^verbatim>\<open>%d\<close> by \<^verbatim>\<open>snprintf\<close> into a buffer of at least twelve characters
  is printed whole and terminated, and \<^verbatim>\<open>sscanf\<close> with \<^verbatim>\<open>%d\<close> reads the same number back from it.
\<close>

theorem snprintf_sscanf:
  assumes "- (2 ^ 31) \<le> i" "i < 2 ^ 31" "12 \<le> n" "0 < buf" "buf + n \<le> 2 ^ 32"
  shows "\<exists>t mem'. snprintf mem buf n ''%d'' [VInt i] = Some (int (length t), mem', [])
    \<and> (\<forall>k < length t. mem' (buf + k) = t ! k) \<and> mem' (buf + length t) = NUL \<and> sscanf t ''%d'' = (1, [SNum i])"
proof -
  have l: "length (dec_text i) < n" using dec_text_length [OF assms(1,2)] assms(3) by simp
  have "snprintf mem buf n ''%d'' [VInt i] = Some (int (length (dec_text i)), printed mem buf n (dec_text i), [])"
    unfolding snprintf_def using dec_text_printed [OF assms(1,2)] assms l dec_text_length [OF assms(1,2)]
    by (intro vsnprintf_printed) auto
  moreover have "\<forall>k < length (dec_text i). printed mem buf n (dec_text i) (buf + k) = dec_text i ! k"
    "printed mem buf n (dec_text i) (buf + length (dec_text i)) = NUL"
    using l by (auto simp: printed_def Let_def)
  ultimately show ?thesis using dec_text_scanned [OF assms(1,2)] by blast
qed

theorem snprintf_sscanf_witness:
  "\<exists>t mem'. snprintf (\<lambda>_. NUL) 16 12 ''%d'' [VInt (-2147483648)] = Some (int (length t), mem', [])
    \<and> mem' (16 + length t) = NUL \<and> sscanf t ''%d'' = (1, [SNum (-2147483648)])"
  using snprintf_sscanf [of "-2147483648" 12 16 "\<lambda>_. NUL"] by auto

end
