(* ===== verification/Spec2Isabelle.thy ===== *)
theory Spec2Isabelle
  imports Context Kstrtok Proc_Props Slab_Props Printf_Props
begin

text \<open>
  A verification development for the Weenix kernel (\<^verbatim>\<open>src/Weenix/weenix/kernel\<close>) as it is configured in
  \<^verbatim>\<open>Config.mk\<close>: processes and threads, the virtual file system over the RAM file system, and kernel
  memory, without VM, S5FS, mount points, multi-threaded processes and \<^verbatim>\<open>getcwd\<close>.

  \<^bold>\<open>How the program is modelled.\<close>  Every operation of the C source is a total, executable function under
  the name it has in the source.  A pointer is a natural number with 0 for \<^verbatim>\<open>NULL\<close>; the objects
  behind pointers are maps or functions in a record that holds the state of the component.  An
  operation takes the state and returns it updated, in the type \<open>'a option\<close>: \<open>None\<close> stands for what
  ends the kernel (a failed \<^verbatim>\<open>KASSERT\<close>, a \<^verbatim>\<open>panic\<close>, a null pointer that is dereferenced), so a theorem
  that an operation returns \<open>Some\<close> also says that none of its assertions fails.  Error codes are
  negative integers as in the code.  32- and 64-bit integers are integers with the wrap-around
  written out (\<^const>\<open>wrap32\<close>) where the code can overflow.  Record extension composes the states:
  scheduler, then synchronisation, then processes, then the file system; and page allocator, then
  object allocator.

  \<^bold>\<open>Theories and the parts they model.\<close>
  \<^item> \<^verbatim>\<open>Weenix_Prelude\<close>: pointers, assertions, folds in the option type, search in lists, wrap-around.
  \<^item> \<^verbatim>\<open>Klist\<close> (\<^verbatim>\<open>include/util/list.h\<close>): the doubly linked lists in a store of links; the locale of a list
    in memory and its interpretation give that the operations refine those of HOL lists.
  \<^item> \<^verbatim>\<open>Context\<close> (\<^verbatim>\<open>proc/context.c\<close>): stacks, registers and the context switch.
  \<^item> \<^verbatim>\<open>Sched\<close> (\<^verbatim>\<open>proc/sched.c\<close>): thread queues, sleeping, waking up, cancelling, and the switch to the next
    runnable thread.  An inductive step relation over all operations keeps the queue invariant.
  \<^item> \<^verbatim>\<open>Kmutex\<close> (\<^verbatim>\<open>proc/kmutex.c\<close>): the mutex implements an abstract FIFO lock.
  \<^item> \<^verbatim>\<open>Kstring\<close>, \<^verbatim>\<open>Kstrtok\<close> (\<^verbatim>\<open>util/string.c\<close>): string functions over buffers, tokens.
  \<^item> \<^verbatim>\<open>Kstate\<close>, \<^verbatim>\<open>Vnode\<close>, \<^verbatim>\<open>Vcache\<close> (\<^verbatim>\<open>fs/vnode.c\<close>, \<^verbatim>\<open>drivers/bytedev.c\<close>, \<^verbatim>\<open>drivers/blockdev.c\<close>): vnodes, reference
    counts, special files, device tables; \<^verbatim>\<open>vget\<close> and \<^verbatim>\<open>vput\<close> refine a multiset of references.
  \<^item> \<^verbatim>\<open>Ramfs\<close>, \<^verbatim>\<open>Ramfs_Dir\<close>, \<^verbatim>\<open>Ramfs_Tree\<close>, \<^verbatim>\<open>Ramfs_Inv\<close>, \<^verbatim>\<open>Ramfs_Ops\<close>, \<^verbatim>\<open>Ramfs_File\<close>, \<^verbatim>\<open>Ramfs_Props\<close>
    (\<^verbatim>\<open>fs/ramfs/ramfs.c\<close>): inodes, directory entries, files; the invariant relates every link count to the
    names, the root and the uses of the inode.
  \<^item> \<^verbatim>\<open>Namev\<close>, \<^verbatim>\<open>Namev_Props\<close> (\<^verbatim>\<open>fs/namev.c\<close>), \<^verbatim>\<open>Vfs_Syscall\<close>, \<^verbatim>\<open>Vfs_Props\<close> (\<^verbatim>\<open>fs/open.c\<close>, \<^verbatim>\<open>fs/file.c\<close>,
    \<^verbatim>\<open>fs/vfs_syscall.c\<close>, \<^verbatim>\<open>fs/vfs.c\<close>): path names, open files and the file system calls.
  \<^item> \<^verbatim>\<open>Proc\<close>, \<^verbatim>\<open>Proc_Props\<close> (\<^verbatim>\<open>proc/proc.c\<close>, \<^verbatim>\<open>proc/kthread.c\<close>): processes, identifiers, exit and waiting.
  \<^item> \<^verbatim>\<open>Page\<close>, \<^verbatim>\<open>Page_Inv\<close>, \<^verbatim>\<open>Page_Props\<close> (\<^verbatim>\<open>mm/page.c\<close>, \<^verbatim>\<open>include/util/bits.h\<close>): the buddy allocator with its bit
    maps; the free lists represent a set of blocks per order, and the bits the parity of each pair.
  \<^item> \<^verbatim>\<open>Slab\<close>, \<^verbatim>\<open>Slab_Inv\<close>, \<^verbatim>\<open>Slab_Ops\<close>, \<^verbatim>\<open>Slab_Props\<close> (\<^verbatim>\<open>mm/slab.c\<close>): the object allocators, red zones, \<^verbatim>\<open>kmalloc\<close>
    and \<^verbatim>\<open>kfree\<close>, on top of the page allocator.
  \<^item> \<^verbatim>\<open>Ctype\<close>, \<^verbatim>\<open>Printf\<close>, \<^verbatim>\<open>Printf_Props\<close> (\<^verbatim>\<open>include/ctype.h\<close>, \<^verbatim>\<open>util/printf.c\<close>): formatted output into a buffer and
    formatted input, against pure functions for the text that is printed.

  \<^bold>\<open>What the lemmas show.\<close>  For each component there is a well-formedness predicate (queues, vnode cache,
  file tree, process tree, free lists, slabs), lemmas that every operation keeps it, and the
  functional behaviour of each operation against an abstract description: an abstract FIFO mutex, a
  multiset of references, a finite map from names to inodes, a set of free pages, a set of objects
  in use, a text.  Properties that span components are stated where the upper component is: reading
  back what was written through a descriptor rests on the descriptor table, the vnode cache and the
  RAM file system; \<^verbatim>\<open>kmalloc\<close> and \<^verbatim>\<open>kfree\<close> rest on the page allocator.  Properties of the kind \<open>error\<close>
  show by example what goes wrong at a defect of the code.

  \<^bold>\<open>Bounds and fuel.\<close>  The loops of the code recurse on the data they walk over, so no definition takes
  fuel, except that the waits for interrupts in \<^verbatim>\<open>sched_switch\<close> and the retries after a page
  reclaim take the finite sequence of what the environment does as an argument.  Constants (number of files, of
  inodes, sizes of pages and buffers) are those of the source.

  \<^bold>\<open>Not modelled\<close>, and why: the parts that the configuration leaves out and whose functions are stubs
  (\<^verbatim>\<open>vm\<close>, \<^verbatim>\<open>fs/s5fs\<close>, \<^verbatim>\<open>proc/fork.c\<close>, the line discipline and tty device, \<^verbatim>\<open>drivers/memdevs.c\<close>) and what only serves
  them (\<^verbatim>\<open>mm/pframe.c\<close>, \<^verbatim>\<open>api\<close>); what programs the machine rather than computes (\<^verbatim>\<open>boot\<close>, \<^verbatim>\<open>main\<close>, interrupt
  controllers, page tables, the disk driver); debug output, tests and the
  kernel shell; and the user land, which does not run without VM.
\<close>

end
